(* ===== verification/Prelude.thy ===== *)
theory Prelude
  imports Main "HOL-Library.Word" "HOL-Library.AList" "HOL-Library.Multiset"
begin

text \<open>
  Shared vocabulary of the development: bytes and Go strings, the io errors, readers and
  writers of the Go standard library as the program uses them, the error/state sequencing that
  stands for \<open>if err != nil { return ... }\<close>, big-endian 16 bit numbers, and the lemma
  collections the component theories extend.
\<close>

unbundle bit_operations_syntax

named_theorems seq_simps "sequencing of fallible steps"
named_theorems io_simps "reading from and writing to the standard library's streams"
named_theorems wf_intros "introduction rules of the components' invariants"

section \<open>Bytes and Go strings\<close>

type_synonym byte = "8 word"
type_synonym bytes = "byte list"

text \<open>
  A Go string is a sequence of bytes. It is modelled as a \<open>string\<close> (a list of 8 bit
  characters); \<open>bytes_of\<close> is the conversion \<open>[]byte(s)\<close> and \<open>string_of\<close>
  the conversion \<open>string(buf)\<close>.
\<close>

definition byte_of_char :: "char \<Rightarrow> byte" where
  "byte_of_char c = word_of_nat (of_char c)"

definition char_of_byte :: "byte \<Rightarrow> char" where
  "char_of_byte b = char_of (unat b)"

definition bytes_of :: "string \<Rightarrow> bytes" where
  "bytes_of s = map byte_of_char s"

definition string_of :: "bytes \<Rightarrow> string" where
  "string_of bs = map char_of_byte bs"

lemma char_of_byte_of_char [simp]: "char_of_byte (byte_of_char c) = c"
proof -
  have "(of_char c :: nat) < 256"
    using of_char_mod_256 [where 'a = nat, of c] by (metis mod_less_divisor zero_less_numeral)
  then have "unat (word_of_nat (of_char c) :: byte) = of_char c"
    by (simp add: unat_of_nat)
  then show ?thesis
    by (simp add: char_of_byte_def byte_of_char_def)
qed

lemma byte_of_char_of_byte [simp]: "byte_of_char (char_of_byte b) = b"
proof -
  have "unat b < 256"
    using unsigned_less [where ?'a = nat, of b] by simp
  then show ?thesis
    by (simp add: char_of_byte_def byte_of_char_def)
qed

lemma string_of_bytes_of [simp]: "string_of (bytes_of s) = s"
  by (simp add: string_of_def bytes_of_def comp_def)

lemma bytes_of_string_of [simp]: "bytes_of (string_of bs) = bs"
  by (simp add: string_of_def bytes_of_def comp_def)

lemma length_bytes_of [simp]: "length (bytes_of s) = length s"
  by (simp add: bytes_of_def)

lemma length_string_of [simp]: "length (string_of bs) = length bs"
  by (simp add: string_of_def)

lemma bytes_of_inject [simp]: "bytes_of s = bytes_of t \<longleftrightarrow> s = t"
  by (metis string_of_bytes_of)

lemma one_le_length [simp]: "Suc 0 \<le> length xs \<longleftrightarrow> xs \<noteq> []"
  by (cases xs) simp_all

lemma bytes_of_Nil [simp]: "bytes_of [] = []"
  by (simp add: bytes_of_def)

section \<open>Sequencing of fallible steps\<close>

text \<open>
  A step that reads or changes a state \<open>'s\<close> and may fail returns an error or a value,
  together with the state it leaves behind (a failed read has consumed its bytes, a failed write
  has written a part). \<open>and_then m f\<close> is the source's
  \<open>x, err := m(); if err != nil { return err }\<close> followed by \<open>f x\<close>;
  \<open>on_error g m\<close> wraps the error as \<open>fmt.Errorf\<close> does.
\<close>

type_synonym ('s, 'e, 'a) step = "'s \<Rightarrow> ('e + 'a) \<times> 's"

definition done_with :: "'a \<Rightarrow> ('s, 'e, 'a) step" where
  "done_with x s = (Inr x, s)"

definition fail_with :: "'e \<Rightarrow> ('s, 'e, 'a) step" where
  "fail_with e s = (Inl e, s)"

definition and_then :: "('s, 'e, 'a) step \<Rightarrow> ('a \<Rightarrow> ('s, 'e, 'b) step) \<Rightarrow> ('s, 'e, 'b) step" where
  "and_then m f s = (case m s of (Inl e, s') \<Rightarrow> (Inl e, s') | (Inr x, s') \<Rightarrow> f x s')"

definition on_error :: "('e \<Rightarrow> 'f) \<Rightarrow> ('s, 'e, 'a) step \<Rightarrow> ('s, 'f, 'a) step" where
  "on_error g m s = (case m s of (Inl e, s') \<Rightarrow> (Inl (g e), s') | (Inr x, s') \<Rightarrow> (Inr x, s'))"

lemmas [seq_simps] = done_with_def fail_with_def and_then_def on_error_def

lemma and_then_InrE:
  assumes "and_then m f s = (Inr y, s'')"
  obtains x s' where "m s = (Inr x, s')" and "f x s' = (Inr y, s'')"
  using assms by (auto simp: and_then_def split: prod.splits sum.splits)

lemma on_error_InrD: "on_error g m s = (Inr x, s') \<Longrightarrow> m s = (Inr x, s')"
  by (auto simp: on_error_def split: prod.splits sum.splits)

text \<open>
  The program can also crash (nil dereference, nil function, index out of range) and a goroutine
  can block for ever on a channel. Where that can happen, the error side of the result is
  \<open>'e stop\<close>.
\<close>

datatype 'e stop = Error 'e | Panic | Hang

section \<open>Readers and writers\<close>

datatype io_error = EOF | UnexpectedEOF | ConnErr string

text \<open>
  An \<open>io.Reader\<close> is the bytes still to come and the error it reports once they are
  used up (\<open>EOF\<close> when the peer closed the connection, another one after a reset or a
  timeout).
\<close>

type_synonym reader = "bytes \<times> io_error"

fun read_byte :: "reader \<Rightarrow> (io_error + byte) \<times> reader" where
  "read_byte ([], e) = (Inl e, ([], e))"
| "read_byte (b # bs, e) = (Inr b, (bs, e))"

text \<open>\<open>io.ReadFull\<close> into a buffer of \<open>n\<close> bytes.\<close>

fun read_full :: "nat \<Rightarrow> reader \<Rightarrow> (io_error + bytes) \<times> reader" where
  "read_full n (bs, e) =
     (if n \<le> length bs then (Inr (take n bs), (drop n bs, e))
      else if bs = [] then (Inl e, ([], e))
      else (Inl (if e = EOF then UnexpectedEOF else e), ([], e)))"

declare read_full.simps [simp del]

lemma read_full_append [io_simps]:
  "length xs = n \<Longrightarrow> read_full n (xs @ rest, e) = (Inr xs, (rest, e))"
  by (simp add: read_full.simps)

lemma read_full_exact [io_simps]: "length xs = n \<Longrightarrow> read_full n (xs, e) = (Inr xs, ([], e))"
  by (simp add: read_full.simps)

lemma read_full_Cons1 [io_simps]: "read_full (Suc 0) (b # rest, e) = (Inr [b], (rest, e))"
  by (simp add: read_full.simps)

lemma read_full_Nil [io_simps]: "0 < n \<Longrightarrow> read_full n ([], e) = (Inl e, ([], e))"
  by (simp add: read_full.simps)

lemma read_full_short [io_simps]:
  "length bs < n \<Longrightarrow> bs \<noteq> [] \<Longrightarrow>
   read_full n (bs, e) = (Inl (if e = EOF then UnexpectedEOF else e), ([], e))"
  by (simp add: read_full.simps)

lemma read_full_InrD:
  assumes "read_full n r = (Inr xs, r')"
  shows "length xs = n \<and> fst r = xs @ fst r' \<and> snd r' = snd r"
proof -
  obtain bs e where r: "r = (bs, e)" by (cases r)
  show ?thesis
    using assms by (auto simp: r read_full.simps split: if_splits)
qed

lemma read_byte_InrD: "read_byte r = (Inr b, r') \<Longrightarrow> fst r = b # fst r' \<and> snd r' = snd r"
  by (cases r rule: read_byte.cases) auto

text \<open>
  An \<open>io.Writer\<close> is the bytes written so far and, when the connection is going to
  fail, the number of bytes it still takes. A write that does not fit writes what fits and
  returns an error, as the contract of \<open>io.Writer\<close> has it.
\<close>

type_synonym writer = "bytes \<times> nat option"

fun write_bytes :: "bytes \<Rightarrow> writer \<Rightarrow> (io_error + nat) \<times> writer" where
  "write_bytes bs (out, None) = (Inr (length bs), (out @ bs, None))"
| "write_bytes bs (out, Some k) =
     (if length bs \<le> k then (Inr (length bs), (out @ bs, Some (k - length bs)))
      else (Inl (ConnErr ''write''), (out @ take k bs, Some 0)))"

declare write_bytes.simps(2) [simp del]

text \<open>
  \<open>wadd\<close> is what a complete write leaves; \<open>fits\<close> says that the writer has room.
  Every sequence of writes is described by these two.
\<close>

fun fits :: "nat \<Rightarrow> writer \<Rightarrow> bool" where
  "fits n (out, None) = True"
| "fits n (out, Some k) = (n \<le> k)"

fun wadd :: "writer \<Rightarrow> bytes \<Rightarrow> writer" where
  "wadd (out, None) bs = (out @ bs, None)"
| "wadd (out, Some k) bs = (out @ bs, Some (k - length bs))"

fun wcut :: "writer \<Rightarrow> bytes \<Rightarrow> writer" where
  "wcut (out, None) bs = (out @ bs, None)"
| "wcut (out, Some k) bs = (out @ take k bs, Some 0)"

lemma write_fits [io_simps]: "fits (length bs) w \<Longrightarrow> write_bytes bs w = (Inr (length bs), wadd w bs)"
  by (cases "(bs, w)" rule: write_bytes.cases) (auto simp: write_bytes.simps)

lemma write_cut [io_simps]:
  "\<not> fits (length bs) w \<Longrightarrow> write_bytes bs w = (Inl (ConnErr ''write''), wcut w bs)"
  by (cases "(bs, w)" rule: write_bytes.cases) (auto simp: write_bytes.simps)

lemma wadd_wadd [simp]: "wadd (wadd w xs) ys = wadd w (xs @ ys)"
  by (cases "(w, xs)" rule: wadd.cases) auto

lemma wadd_Nil [simp]: "wadd w [] = w"
  by (cases "(w, [] :: bytes)" rule: wadd.cases) auto

lemma fits_wadd: "fits (length xs) w \<Longrightarrow> fits n (wadd w xs) = fits (length xs + n) w"
  by (cases "(w, xs)" rule: wadd.cases) auto

lemma fits_mono: "fits m w \<Longrightarrow> n \<le> m \<Longrightarrow> fits n w"
  by (cases "(m, w)" rule: fits.cases) auto

lemma wcut_wadd: "fits (length xs) w \<Longrightarrow> wcut (wadd w xs) ys = wcut w (xs @ ys)"
  by (cases "(w, xs)" rule: wadd.cases) auto

lemma wcut_append: "\<not> fits (length xs) w \<Longrightarrow> wcut w (xs @ ys) = wcut w xs"
  by (cases "(length xs, w)" rule: fits.cases) auto

lemma fits_unlimited [simp]: "fits n (out, None)"
  by simp

section \<open>Big-endian 16 bit numbers\<close>

text \<open>
  The source's \<open>byte(x>>8), byte(x)\<close> and \<open>uint16(hi)<<8 | uint16(lo)\<close>.
\<close>

definition be16 :: "16 word \<Rightarrow> bytes" where
  "be16 x = [ucast (drop_bit 8 x), ucast x]"

definition of_be16 :: "byte \<Rightarrow> byte \<Rightarrow> 16 word" where
  "of_be16 hi lo = push_bit 8 (ucast hi) OR ucast lo"

lemma of_be16_be16 [simp]: "of_be16 (ucast (drop_bit 8 x)) (ucast x) = x"
  unfolding of_be16_def
  by (rule bit_word_eqI) (auto simp: bit_simps)

lemma length_be16 [simp]: "length (be16 x) = 2"
  by (simp add: be16_def)

lemma be16_of_be16 [simp]: "be16 (of_be16 hi lo) = [hi, lo]"
  unfolding of_be16_def be16_def
  by (auto intro!: bit_word_eqI simp: bit_simps impossible_bit)

section \<open>Association lists as Go maps\<close>

text \<open>
  A Go map is an association list with distinct keys; its order stands for nothing (Go
  iterates in an unspecified order, which is an argument of the operations that depend on it).
\<close>

abbreviation keys :: "('k \<times> 'v) list \<Rightarrow> 'k list" where
  "keys al \<equiv> map fst al"

lemma distinct_keys_update [simp]: "distinct (keys al) \<Longrightarrow> distinct (keys (AList.update k v al))"
  by (rule distinct_update)

lemma distinct_keys_delete [simp]: "distinct (keys al) \<Longrightarrow> distinct (keys (AList.delete k al))"
  by (rule distinct_delete)

lemma update_new: "k \<notin> set (keys al) \<Longrightarrow> AList.update k v al = al @ [(k, v)]"
  by (induction al) auto

lemma map_of_mset_eq:
  assumes "mset xs = mset ys" and "distinct (keys xs)"
  shows "map_of xs = map_of ys"
proof -
  have "mset (keys xs) = mset (keys ys)"
    using assms(1) by (metis mset_map)
  then have "distinct (keys ys)"
    using assms(2) mset_eq_imp_distinct_iff by blast
  moreover have "set xs = set ys"
    using assms(1) by (rule mset_eq_setD)
  ultimately show ?thesis
    using assms(2) by (simp add: map_of_inject_set)
qed

end
