(* ===== verification/Streams.thy ===== *)
theory Streams
  imports Prelude
begin

text \<open>
  A small calculus for code that writes to and reads from byte streams step by step: what a
  sequence of writes leaves on a writer (\<open>emits\<close>), which bytes a sequence of reads accepts
  (\<open>parses\<close>) and how many it consumes (\<open>consumes\<close>). The rules follow the sequencing of
  the source, so a round trip is proved by walking through encoder and decoder once. The locale
  \<open>stream_codec\<close> is the interface between a component that owns a wire format and the
  components that exchange values over a stream.
\<close>

named_theorems emit_intros "what a sequence of writes leaves on the writer"
named_theorems parse_intros "which bytes a sequence of reads accepts"
named_theorems consume_intros "how many bytes a sequence of reads takes"

section \<open>Writing\<close>

text \<open>
  \<open>emits m bs\<close>: on a writer with room for \<open>bs\<close> the step succeeds and writes exactly
  \<open>bs\<close>; on a failing writer it fails and what got out is a prefix of \<open>bs\<close>.
\<close>

definition emits :: "(writer, 'e, 'a) step \<Rightarrow> bytes \<Rightarrow> bool" where
  "emits m bs \<longleftrightarrow>
     (\<forall>w. if fits (length bs) w then (\<exists>x. m w = (Inr x, wadd w bs))
          else (\<exists>e. m w = (Inl e, wcut w bs)))"

lemma emits_fits: "emits m bs \<Longrightarrow> fits (length bs) w \<Longrightarrow> \<exists>x. m w = (Inr x, wadd w bs)"
  unfolding emits_def by metis

lemma emits_cut: "emits m bs \<Longrightarrow> \<not> fits (length bs) w \<Longrightarrow> \<exists>e. m w = (Inl e, wcut w bs)"
  unfolding emits_def by metis

lemma emits_unlimited:
  assumes "emits m bs"
  shows "\<exists>x. m (out, None) = (Inr x, (out @ bs, None))"
  using emits_fits [OF assms, of "(out, None)"] by simp

lemma emits_write [emit_intros]: "emits (write_bytes bs) bs"
  by (simp add: emits_def io_simps)

lemma emits_done [emit_intros]: "emits (done_with x) []"
proof -
  have "fits 0 w" for w
    by (cases "(0 :: nat, w)" rule: fits.cases) auto
  then show ?thesis
    by (simp add: emits_def seq_simps)
qed

lemma emits_on_error [emit_intros]:
  assumes "emits m bs" shows "emits (on_error g m) bs"
  unfolding emits_def
proof
  fix w
  show "if fits (length bs) w then \<exists>x. on_error g m w = (Inr x, wadd w bs)
        else \<exists>e. on_error g m w = (Inl e, wcut w bs)"
    using emits_fits [OF assms, of w] emits_cut [OF assms, of w]
    by (auto simp: seq_simps)
qed

lemma emits_and_then [emit_intros]:
  assumes m: "emits m xs" and f: "\<And>x. emits (f x) ys"
  shows "emits (and_then m f) (xs @ ys)"
  unfolding emits_def
proof
  fix w
  show "if fits (length (xs @ ys)) w then \<exists>x. and_then m f w = (Inr x, wadd w (xs @ ys))
        else \<exists>e. and_then m f w = (Inl e, wcut w (xs @ ys))"
  proof (cases "fits (length xs) w")
    case True
    then obtain x where x: "m w = (Inr x, wadd w xs)"
      using emits_fits [OF m] by blast
    have "and_then m f w = f x (wadd w xs)"
      by (simp add: seq_simps x)
    then show ?thesis
      using emits_fits [OF f, of "wadd w xs" x] emits_cut [OF f, of "wadd w xs" x]
      by (auto simp: fits_wadd [OF True] wcut_wadd [OF True])
  next
    case False
    then have "\<not> fits (length (xs @ ys)) w"
      using fits_mono [of "length (xs @ ys)" w "length xs"] by auto
    moreover obtain e where "m w = (Inl e, wcut w xs)"
      using emits_cut [OF m False] by blast
    ultimately show ?thesis
      by (simp add: seq_simps wcut_append [OF False])
  qed
qed

section \<open>Reading\<close>

text \<open>
  \<open>parses m bs x\<close>: the step reads \<open>bs\<close> and nothing of what follows, and returns
  \<open>x\<close>. \<open>consumes n m\<close>: where the step succeeds it has taken at least \<open>n\<close>
  bytes off the front of the stream.
\<close>

definition parses :: "(reader, 'e, 'a) step \<Rightarrow> bytes \<Rightarrow> 'a \<Rightarrow> bool" where
  "parses m bs x \<longleftrightarrow> (\<forall>rest e. m (bs @ rest, e) = (Inr x, (rest, e)))"

definition consumes :: "nat \<Rightarrow> (reader, 'e, 'a) step \<Rightarrow> bool" where
  "consumes n m \<longleftrightarrow>
     (\<forall>r x r'. m r = (Inr x, r') \<longrightarrow>
        (\<exists>bs. n \<le> length bs \<and> fst r = bs @ fst r' \<and> snd r' = snd r))"

lemma parsesD: "parses m bs x \<Longrightarrow> m (bs @ rest, e) = (Inr x, (rest, e))"
  by (simp add: parses_def)

lemma parses_all: "parses m bs x \<Longrightarrow> m (bs, e) = (Inr x, ([], e))"
  using parsesD [of m bs x "[]" e] by simp

lemma parses_unique:
  assumes "parses m xs x" and "parses m ys y" and "xs @ r = ys @ s"
  shows "x = y \<and> r = s"
  using parsesD [OF assms(1), of r EOF] parsesD [OF assms(2), of s EOF] assms(3) by simp

lemma parses_done [parse_intros]: "parses (done_with x) [] x"
  by (simp add: parses_def seq_simps)

lemma parses_read_full [parse_intros]: "length bs = n \<Longrightarrow> parses (read_full n) bs bs"
  by (simp add: parses_def io_simps)

lemma parses_on_error [parse_intros]: "parses m bs x \<Longrightarrow> parses (on_error g m) bs x"
  by (simp add: parses_def seq_simps)

lemma parses_and_then [parse_intros]:
  "parses m xs a \<Longrightarrow> parses (f a) ys b \<Longrightarrow> parses (and_then m f) (xs @ ys) b"
  by (simp add: parses_def seq_simps)

lemma consumesI:
  "(\<And>r x r'. m r = (Inr x, r') \<Longrightarrow>
      \<exists>bs. n \<le> length bs \<and> fst r = bs @ fst r' \<and> snd r' = snd r) \<Longrightarrow> consumes n m"
  unfolding consumes_def by blast

lemma consumesD:
  "consumes n m \<Longrightarrow> m r = (Inr x, r') \<Longrightarrow>
   \<exists>bs. n \<le> length bs \<and> fst r = bs @ fst r' \<and> snd r' = snd r"
  unfolding consumes_def by blast

lemma consumes_shorter:
  assumes "consumes n m" and "m r = (Inr x, r')"
  shows "length (fst r') + n \<le> length (fst r)"
proof -
  obtain bs where "n \<le> length bs" and "fst r = bs @ fst r'"
    using consumesD [OF assms] by blast
  then show ?thesis by simp
qed

lemma consumes_mono: "consumes n m \<Longrightarrow> k \<le> n \<Longrightarrow> consumes k m"
  unfolding consumes_def by (meson le_trans)

lemma consumes_done [consume_intros]: "consumes 0 (done_with x)"
  by (simp add: consumes_def seq_simps)

lemma consumes_fail [consume_intros]: "consumes n (fail_with x)"
  by (simp add: consumes_def seq_simps)

lemma consumes_read_full [consume_intros]: "consumes n (read_full n)"
  by (rule consumesI) (metis order_refl read_full_InrD)

lemma consumes_on_error [consume_intros]:
  "consumes n m \<Longrightarrow> consumes n (on_error g m)"
  unfolding consumes_def by (blast dest: on_error_InrD)

lemma consumes_and_then [consume_intros]:
  assumes m: "consumes k m" and f: "\<And>x. consumes n (f x)"
  shows "consumes (k + n) (and_then m f)"
proof (rule consumesI)
  fix r y r''
  assume "and_then m f r = (Inr y, r'')"
  then obtain x r' where 1: "m r = (Inr x, r')" and 2: "f x r' = (Inr y, r'')"
    by (rule and_then_InrE)
  obtain bs where bs: "k \<le> length bs" "fst r = bs @ fst r'" "snd r' = snd r"
    using consumesD [OF m 1] by blast
  obtain cs where cs: "n \<le> length cs" "fst r' = cs @ fst r''" "snd r'' = snd r'"
    using consumesD [OF f 2] by blast
  show "\<exists>ds. k + n \<le> length ds \<and> fst r = ds @ fst r'' \<and> snd r'' = snd r"
    using bs cs by (intro exI [of _ "bs @ cs"]) simp
qed

section \<open>The interface of a wire format\<close>

text \<open>Reading \<open>n\<close> values in a row.\<close>

fun times :: "nat \<Rightarrow> (reader, 'e, 'a) step \<Rightarrow> (reader, 'e, 'a list) step" where
  "times 0 m = done_with []"
| "times (Suc n) m = and_then m (\<lambda>x. and_then (times n m) (\<lambda>xs. done_with (x # xs)))"

text \<open>
  The provider promises that what it encodes is read back (as \<open>view\<close>, what the reader
  can see of the value) and that nothing of the following bytes is touched. The client gets that
  values sent one after the other are received in that order, and that the bytes determine them.
\<close>

locale stream_codec =
  fixes enc :: "'a \<Rightarrow> bytes"
    and dec :: "(reader, 'e, 'b) step"
    and valid :: "'a \<Rightarrow> bool"
    and view :: "'a \<Rightarrow> 'b"
  assumes dec_enc: "valid x \<Longrightarrow> parses dec (enc x) (view x)"
begin

lemma prefix_free:
  "valid x \<Longrightarrow> valid y \<Longrightarrow> enc x @ r = enc y @ s \<Longrightarrow> view x = view y \<and> r = s"
  by (rule parses_unique [OF dec_enc dec_enc])

lemma in_order:
  "\<forall>x \<in> set xs. valid x \<Longrightarrow> parses (times (length xs) dec) (concat (map enc xs)) (map view xs)"
proof (induction xs)
  case Nil
  then show ?case by (simp add: parses_done)
next
  case (Cons x xs)
  then have "parses dec (enc x) (view x)"
    and "parses (times (length xs) dec) (concat (map enc xs)) (map view xs)"
    by (auto intro: dec_enc)
  then show ?case
    by (auto simp: parses_def seq_simps)
qed

end

text \<open>A format whose decoder always takes at least one byte off the stream.\<close>

locale progressing_codec = stream_codec enc dec valid view
  for enc :: "'a \<Rightarrow> bytes" and dec :: "(reader, 'e, 'b) step" and valid and view +
  assumes progress: "consumes 1 dec"
begin

lemma dec_shorter: "dec r = (Inr x, r') \<Longrightarrow> length (fst r') < length (fst r)"
  using consumes_shorter [OF progress] by fastforce

lemma enc_nonempty: "valid x \<Longrightarrow> enc x \<noteq> []"
proof
  assume "valid x" and "enc x = []"
  then have "dec ([], EOF) = (Inr (view x), ([], EOF))"
    using parses_all [OF dec_enc, of x EOF] by simp
  then show False using dec_shorter by fastforce
qed

end

end
