(* ===== verification/Packet.thy ===== *)
theory Packet
  imports Streams
begin

text \<open>
  Package \<open>network/packet\<close>: packets and their modules (\<open>packet.go\<close>), the tag reader
  and writer (\<open>tag.go\<close>), the encoder (\<open>encoder.go\<close>) and the decoder
  (\<open>decoder.go\<close>). The data and the operations come first, then the invariant of packets,
  the byte format and the lemmas on single modules; the properties of the package are in
  \<open>Packet_Props\<close>.
\<close>

section \<open>packet.go\<close>

record tag_set =
  packet_opening_tag :: string
  packet_closing_tag :: string
  module_opening_tag :: string
  module_closing_tag :: string
  separator :: string

record metadata =
  encoding :: byte
  compression :: byte
  encryption :: byte

record gomodule =
  mod_id :: string
  mod_size :: "16 word"
  mod_payload :: bytes

record packet =
  pkt_meta :: metadata
  pkt_modules :: "(string \<times> gomodule) list"

datatype packet_error =
    ModulePresent string
  | ModuleNotFound string
  | BadModuleID string
  | PayloadOutOfBounds nat

definition new_packet :: packet where
  "new_packet = \<lparr>pkt_meta = \<lparr>encoding = 0, compression = 0, encryption = 0\<rparr>, pkt_modules = []\<rparr>"

definition new_module :: "string \<Rightarrow> bytes \<Rightarrow> packet_error + gomodule" where
  "new_module mid payload =
     (if length (bytes_of mid) \<noteq> 2 then Inl (BadModuleID mid)
      else let size = length payload in
        if size < 1 \<or> size > 0xffff then Inl (PayloadOutOfBounds size)
        else Inr \<lparr>mod_id = mid, mod_size = word_of_nat size, mod_payload = payload\<rparr>)"

definition add_module :: "string \<Rightarrow> bytes \<Rightarrow> (packet, packet_error, gomodule) step" where
  "add_module mid payload p =
     (case map_of (pkt_modules p) mid of
        Some _ \<Rightarrow> (Inl (ModulePresent mid), p)
      | None \<Rightarrow>
         (case new_module mid payload of
            Inl e \<Rightarrow> (Inl e, p)
          | Inr m \<Rightarrow> (Inr m, p\<lparr>pkt_modules := AList.update mid m (pkt_modules p)\<rparr>)))"

definition del_module :: "string \<Rightarrow> packet \<Rightarrow> packet" where
  "del_module mid p = p\<lparr>pkt_modules := AList.delete mid (pkt_modules p)\<rparr>"

definition get_module :: "packet \<Rightarrow> string \<Rightarrow> packet_error + gomodule" where
  "get_module p mid =
     (case map_of (pkt_modules p) mid of None \<Rightarrow> Inl (ModuleNotFound mid) | Some m \<Rightarrow> Inr m)"

section \<open>tag.go\<close>

record tag_reader =
  tag_raw :: bytes
  tag_cur :: nat

datatype tag_error = TagIO io_error | UnexpectedTag byte byte

definition new_tag_reader :: "string \<Rightarrow> tag_reader" where
  "new_tag_reader tag = \<lparr>tag_raw = bytes_of tag, tag_cur = 0\<rparr>"

definition tag_flush :: "tag_reader \<Rightarrow> tag_reader" where
  "tag_flush t = t\<lparr>tag_cur := 0\<rparr>"

text \<open>
  The loop of \<open>TagReader.Read\<close>: \<open>room\<close> is \<open>len(p) - n\<close>, \<open>acc\<close> the bytes
  read so far. The error is \<open>None\<close> (Go's nil) when the buffer is full before the tag
  ends. A complete tag is reported by \<open>io.EOF\<close>, and so is a stream that ends early.
\<close>

fun tag_loop :: "nat \<Rightarrow> bytes \<Rightarrow> tag_reader \<Rightarrow> reader \<Rightarrow>
    (bytes \<times> tag_error option) \<times> tag_reader \<times> reader" where
  "tag_loop 0 acc t r =
     (if tag_cur t = length (tag_raw t) then ((acc, Some (TagIO EOF)), t, r)
      else ((acc, None), t, r))"
| "tag_loop (Suc room) acc t r =
     (if tag_cur t = length (tag_raw t) then ((acc, Some (TagIO EOF)), t, r)
      else (case read_byte r of
          (Inl e, r') \<Rightarrow> ((acc, Some (TagIO e)), t, r')
        | (Inr b, r') \<Rightarrow>
           (let ct = tag_raw t ! tag_cur t in
            if b \<noteq> ct then ((acc @ [b], Some (UnexpectedTag ct b)), t, r')
            else tag_loop room (acc @ [b]) (t\<lparr>tag_cur := Suc (tag_cur t)\<rparr>) r')))"

definition tag_read :: "nat \<Rightarrow> tag_reader \<Rightarrow> reader \<Rightarrow>
    (bytes \<times> tag_error option) \<times> tag_reader \<times> reader" where
  "tag_read plen t r = tag_loop plen [] t r"

definition tag_write :: "string \<Rightarrow> (writer, io_error, nat) step" where
  "tag_write tag = write_bytes (bytes_of tag)"

section \<open>encoder.go\<close>

datatype encode_error =
    WriteOpenTag io_error
  | WriteEncoding io_error
  | WriteCompression io_error
  | WriteEncryption io_error
  | WriteSeparator io_error
  | TooManyModules
  | WriteModulesSize io_error
  | WriteModuleOpenTag io_error
  | ModuleIDLength string
  | WriteModuleID io_error
  | WritePayload io_error
  | WriteModuleCloseTag io_error
  | WriteCloseTag io_error

definition module_encode :: "tag_set \<Rightarrow> gomodule \<Rightarrow> (writer, encode_error, unit) step" where
  "module_encode ts m =
     and_then (on_error WriteModuleOpenTag (tag_write (module_opening_tag ts))) (\<lambda>_.
     let buf = bytes_of (mod_id m) in
     if length buf \<noteq> 2 then fail_with (ModuleIDLength (mod_id m)) else
     and_then (on_error WriteModuleID (write_bytes buf)) (\<lambda>_.
     and_then (on_error WriteSeparator (tag_write (separator ts))) (\<lambda>_.
     and_then (on_error WriteModulesSize (write_bytes (be16 (mod_size m)))) (\<lambda>_.
     and_then (on_error WriteSeparator (tag_write (separator ts))) (\<lambda>_.
     and_then (on_error WritePayload (write_bytes (mod_payload m))) (\<lambda>_.
     and_then (on_error WriteModuleCloseTag (tag_write (module_closing_tag ts))) (\<lambda>_.
     done_with ())))))))"

fun modules_encode :: "tag_set \<Rightarrow> gomodule list \<Rightarrow> (writer, encode_error, unit) step" where
  "modules_encode ts [] = done_with ()"
| "modules_encode ts (m # ms) = and_then (module_encode ts m) (\<lambda>_. modules_encode ts ms)"

text \<open>
  \<open>Encoder.Encode\<close>. The argument \<open>ord\<close> is the order in which Go's \<open>range\<close>
  visits the modules of the map: any list with \<open>iterates ord p\<close>.
\<close>

definition packet_encode ::
    "tag_set \<Rightarrow> packet \<Rightarrow> gomodule list \<Rightarrow> (writer, encode_error, unit) step" where
  "packet_encode ts p ord =
     and_then (on_error WriteOpenTag (tag_write (packet_opening_tag ts))) (\<lambda>_.
     and_then (on_error WriteEncoding (write_bytes [encoding (pkt_meta p)])) (\<lambda>_.
     and_then (on_error WriteSeparator (tag_write (separator ts))) (\<lambda>_.
     and_then (on_error WriteCompression (write_bytes [compression (pkt_meta p)])) (\<lambda>_.
     and_then (on_error WriteSeparator (tag_write (separator ts))) (\<lambda>_.
     and_then (on_error WriteEncryption (write_bytes [encryption (pkt_meta p)])) (\<lambda>_.
     and_then (on_error WriteSeparator (tag_write (separator ts))) (\<lambda>_.
     let mn = length (pkt_modules p) in
     if mn < 1 \<or> mn > 0xff then fail_with TooManyModules else
     and_then (on_error WriteModulesSize (write_bytes [word_of_nat mn])) (\<lambda>_.
     and_then (modules_encode ts ord) (\<lambda>_.
     and_then (on_error WriteCloseTag (tag_write (packet_closing_tag ts))) (\<lambda>_.
     done_with ()))))))))))"

definition iterates :: "gomodule list \<Rightarrow> packet \<Rightarrow> bool" where
  "iterates ord p \<longleftrightarrow> mset ord = mset (map snd (pkt_modules p))"

section \<open>decoder.go\<close>

datatype decode_error =
    ReadOpenTag "tag_error option"
  | ReadEncoding io_error
  | ReadSeparator "tag_error option"
  | ReadCompression io_error
  | ReadEncryption io_error
  | ReadModulesNumber io_error
  | ReadCloseTag tag_error
  | UnexpectedClosingTag bytes
  | ReadModuleOpenTag "tag_error option"
  | ReadModuleID io_error
  | ReadModuleSeparator "tag_error option"
  | ReadPayloadSize io_error
  | ReadPayload io_error
  | ReadModuleCloseTag "tag_error option"

text \<open>
  Every tag of the two decoders is read by a tag reader that is new or was just flushed, so a
  read starts at position 0 (\<open>tag_flush_fresh\<close>). Most places insist on \<open>io.EOF\<close>
  (\<open>expect_tag\<close>); the separators of the packet header also take a nil error
  (\<open>accept_tag\<close>).
\<close>

definition expect_tag ::
    "string \<Rightarrow> nat \<Rightarrow> (tag_error option \<Rightarrow> 'e) \<Rightarrow> (reader, 'e, unit) step" where
  "expect_tag tag plen err r =
     (case tag_read plen (new_tag_reader tag) r of
        ((_, res), _, r') \<Rightarrow>
          if res \<noteq> Some (TagIO EOF) then (Inl (err res), r') else (Inr (), r'))"

definition accept_tag ::
    "string \<Rightarrow> nat \<Rightarrow> (tag_error option \<Rightarrow> 'e) \<Rightarrow> (reader, 'e, unit) step" where
  "accept_tag tag plen err r =
     (case tag_read plen (new_tag_reader tag) r of
        ((_, res), _, r') \<Rightarrow>
          if res \<noteq> None \<and> res \<noteq> Some (TagIO EOF) then (Inl (err res), r') else (Inr (), r'))"

definition module_decode :: "tag_set \<Rightarrow> (reader, decode_error, gomodule) step" where
  "module_decode ts =
     and_then (expect_tag (module_opening_tag ts) 2 ReadModuleOpenTag) (\<lambda>_.
     and_then (on_error ReadModuleID (read_full 2)) (\<lambda>idbuf.
     and_then (expect_tag (separator ts) 2 ReadModuleSeparator) (\<lambda>_.
     and_then (on_error ReadPayloadSize (read_full 2)) (\<lambda>buf.
     let size = of_be16 (buf ! 0) (buf ! 1) in
     and_then (expect_tag (separator ts) 2 ReadModuleSeparator) (\<lambda>_.
     and_then (on_error ReadPayload (read_full (unat size))) (\<lambda>payload.
     and_then (expect_tag (module_closing_tag ts) 2 ReadModuleCloseTag) (\<lambda>_.
     done_with \<lparr>mod_id = string_of idbuf, mod_size = size, mod_payload = payload\<rparr>)))))))"

definition close_decode :: "tag_set \<Rightarrow> packet \<Rightarrow> (reader, decode_error, packet) step" where
  "close_decode ts p r =
     (case tag_read 4 (new_tag_reader (packet_closing_tag ts)) r of
        ((buf, res), _, r') \<Rightarrow>
          (case res of
             Some e \<Rightarrow> if e = TagIO EOF then (Inr p, r') else (Inl (ReadCloseTag e), r')
           | None \<Rightarrow> (Inl (UnexpectedClosingTag buf), r')))"

text \<open>The \<open>for\<close> loop of \<open>Decoder.Decode\<close>, with \<open>mn - i\<close> modules to go.\<close>

fun modules_decode :: "tag_set \<Rightarrow> nat \<Rightarrow> packet \<Rightarrow> (reader, decode_error, packet) step" where
  "modules_decode ts 0 p = close_decode ts p"
| "modules_decode ts (Suc k) p =
     and_then (module_decode ts) (\<lambda>m.
     modules_decode ts k (p\<lparr>pkt_modules := AList.update (mod_id m) m (pkt_modules p)\<rparr>))"

definition packet_decode :: "tag_set \<Rightarrow> packet \<Rightarrow> (reader, decode_error, packet) step" where
  "packet_decode ts p =
     and_then (expect_tag (packet_opening_tag ts) 4 ReadOpenTag) (\<lambda>_.
     and_then (on_error ReadEncoding (read_full 1)) (\<lambda>enc.
     and_then (accept_tag (separator ts) 1 ReadSeparator) (\<lambda>_.
     and_then (on_error ReadCompression (read_full 1)) (\<lambda>compr.
     and_then (accept_tag (separator ts) 1 ReadSeparator) (\<lambda>_.
     and_then (on_error ReadEncryption (read_full 1)) (\<lambda>encr.
     and_then (accept_tag (separator ts) 1 ReadSeparator) (\<lambda>_.
     let p' = p\<lparr>pkt_meta := \<lparr>encoding = enc ! 0, compression = compr ! 0, encryption = encr ! 0\<rparr>\<rparr> in
     and_then (on_error ReadModulesNumber (read_full 1)) (\<lambda>mn.
     modules_decode ts (unat (mn ! 0)) p'))))))))"

end
