(* ===== verification/Packet_Props.thy ===== *)
theory Packet_Props
  imports Packet
begin

text \<open>
  What package \<open>network/packet\<close> guarantees: the invariant of packets, the byte format
  written by the encoder, the round trip through the decoder, the behaviour on failing
  connections and on truncated streams. The module format is an instance of
  \<open>progressing_codec\<close>.
\<close>

section \<open>Tags\<close>

text \<open>Flushing a tag reader gives a new one: the field \<open>tagRaw\<close> never changes.\<close>

lemma tag_loop_raw: "tag_loop room acc t r = (res, t', r') \<Longrightarrow> tag_raw t' = tag_raw t"
  by (induction room arbitrary: acc t r)
     (fastforce simp: Let_def split: if_splits prod.splits sum.splits)+

lemma tag_flush_fresh:
  "tag_read n (new_tag_reader tag) r = (res, t, r') \<Longrightarrow> tag_flush t = new_tag_reader tag"
  by (auto simp: tag_read_def tag_flush_def new_tag_reader_def dest!: tag_loop_raw)

text \<open>The loop on a stream that begins with a part of the rest of the tag.\<close>

lemma tag_loop_matching:
  assumes "tag_raw t = pre @ suf @ post" and "tag_cur t = length pre" and "length suf \<le> room"
  shows "tag_loop room acc t (suf @ rest, e) =
         tag_loop (room - length suf) (acc @ suf) (t\<lparr>tag_cur := length (pre @ suf)\<rparr>) (rest, e)"
  using assms
proof (induction suf arbitrary: room acc t pre)
  case Nil
  then have "t\<lparr>tag_cur := length (pre @ [])\<rparr> = t" by simp
  then show ?case by simp
next
  case (Cons b suf)
  then obtain room' where room: "room = Suc room'" by (cases room) auto
  have nth: "tag_raw t ! tag_cur t = b" and neq: "tag_cur t \<noteq> length (tag_raw t)"
    using Cons.prems by (auto simp: nth_append)
  have "tag_loop room acc t ((b # suf) @ rest, e) =
        tag_loop room' (acc @ [b]) (t\<lparr>tag_cur := Suc (tag_cur t)\<rparr>) (suf @ rest, e)"
    using nth neq by (simp add: room)
  also have "\<dots> = tag_loop (room' - length suf) ((acc @ [b]) @ suf)
      (t\<lparr>tag_cur := Suc (tag_cur t)\<rparr>\<lparr>tag_cur := length ((pre @ [b]) @ suf)\<rparr>) (rest, e)"
    using Cons.prems room by (intro Cons.IH) auto
  finally show ?case by (simp add: room)
qed

lemma tag_read_complete:
  assumes "length tag \<le> n"
  shows "tag_read n (new_tag_reader tag) (bytes_of tag @ rest, e) =
         ((bytes_of tag, Some (TagIO EOF)), (new_tag_reader tag)\<lparr>tag_cur := length tag\<rparr>, (rest, e))"
  using tag_loop_matching [where pre = "[]" and suf = "bytes_of tag" and post = "[]"
      and t = "new_tag_reader tag" and room = n and acc = "[]" and rest = rest and e = e] assms
  by (cases "n - length tag") (simp_all add: tag_read_def new_tag_reader_def)

text \<open>A stream that ends inside a tag: the error of the connection is returned.\<close>

lemma tag_read_truncated:
  assumes "k < length tag" and "length tag \<le> n"
  shows "\<exists>t. tag_read n (new_tag_reader tag) (take k (bytes_of tag), e) =
         ((take k (bytes_of tag), Some (TagIO e)), t, ([], e))"
proof -
  let ?t = "(new_tag_reader tag)\<lparr>tag_cur := k\<rparr>"
  have "tag_read n (new_tag_reader tag) (take k (bytes_of tag), e) =
        tag_loop (n - k) (take k (bytes_of tag)) ?t ([], e)"
    using tag_loop_matching [where pre = "[]" and suf = "take k (bytes_of tag)"
      and post = "drop k (bytes_of tag)" and t = "new_tag_reader tag" and room = n and acc = "[]"
      and rest = "[]" and e = e] assms
    by (simp add: tag_read_def new_tag_reader_def)
  moreover obtain room' where "n - k = Suc room'"
    using assms by (metis Suc_diff_Suc less_le_trans)
  ultimately show ?thesis
    using assms by (simp add: new_tag_reader_def)
qed

lemma expect_tag_mismatch:
  assumes "b \<noteq> byte_of_char c" and "0 < n"
  shows "expect_tag (c # cs) n err (b # xs, e) =
         (Inl (err (Some (UnexpectedTag (byte_of_char c) b))), (xs, e))"
  using assms by (cases n) (simp_all add: expect_tag_def tag_read_def new_tag_reader_def bytes_of_def Let_def)

lemma parses_expect_tag [parse_intros]:
  "length tag \<le> n \<Longrightarrow> parses (expect_tag tag n err) (bytes_of tag) ()"
  by (simp add: parses_def expect_tag_def tag_read_complete)

lemma parses_accept_tag [parse_intros]:
  "length tag \<le> n \<Longrightarrow> parses (accept_tag tag n err) (bytes_of tag) ()"
  by (simp add: parses_def accept_tag_def tag_read_complete)

lemma emits_tag_write [emit_intros]: "emits (tag_write tag) (bytes_of tag)"
  unfolding tag_write_def by (rule emits_write)

lemma tag_loop_consumes:
  "tag_loop room acc t r = (res, t', r') \<Longrightarrow> \<exists>bs. fst r = bs @ fst r' \<and> snd r' = snd r"
proof (induction room arbitrary: acc t r)
  case 0
  then show ?case by (simp split: if_splits)
next
  case (Suc room)
  show ?case
  proof (cases r rule: read_byte.cases)
    case (1 e)
    then show ?thesis using Suc.prems by (auto split: if_splits)
  next
    case (2 b bs e)
    then consider "r' = r" | "r' = (bs, e)"
      | "tag_loop room (acc @ [b]) (t\<lparr>tag_cur := Suc (tag_cur t)\<rparr>) (bs, e) = (res, t', r')"
      using Suc.prems by (auto simp: Let_def split: if_splits)
    then show ?thesis
    proof cases
      case 3
      then show ?thesis using Suc.IH 2 by (metis append_Cons fst_conv snd_conv)
    qed (auto simp: 2)
  qed
qed

lemma consumes_expect_tag [consume_intros]: "consumes 0 (expect_tag tag n err)"
  by (rule consumesI)
     (auto simp: expect_tag_def tag_read_def split: prod.splits if_splits dest!: tag_loop_consumes)

lemma consumes_accept_tag [consume_intros]: "consumes 0 (accept_tag tag n err)"
  by (rule consumesI)
     (auto simp: accept_tag_def tag_read_def split: prod.splits if_splits dest!: tag_loop_consumes)

section \<open>Well-formed packets\<close>

text \<open>
  A module has a two byte id and a size field that is the length of its payload; the map of a
  packet stores a module under its own id.
\<close>

definition module_wf :: "gomodule \<Rightarrow> bool" where
  "module_wf m \<longleftrightarrow> length (mod_id m) = 2 \<and> length (mod_payload m) = unat (mod_size m)"

definition packet_wf :: "packet \<Rightarrow> bool" where
  "packet_wf p \<longleftrightarrow> distinct (keys (pkt_modules p)) \<and>
     (\<forall>(k, m) \<in> set (pkt_modules p). mod_id m = k \<and> module_wf m)"

lemma new_packet_wf [wf_intros]: "packet_wf new_packet"
  by (simp add: packet_wf_def new_packet_def)

lemma new_module_wf: "new_module mid payload = Inr m \<Longrightarrow> mod_id m = mid \<and> module_wf m"
  by (auto simp: new_module_def module_wf_def Let_def unat_of_nat split: if_splits)

lemma set_update_subset: "set (AList.update k v al) \<subseteq> insert (k, v) (set al)"
  by (induction al) auto

lemma store_module_wf [wf_intros]:
  assumes "packet_wf p" and "module_wf m"
  shows "packet_wf (p\<lparr>pkt_modules := AList.update (mod_id m) m (pkt_modules p)\<rparr>)"
proof -
  have "\<forall>(k, m') \<in> set (AList.update (mod_id m) m (pkt_modules p)). mod_id m' = k \<and> module_wf m'"
    using assms set_update_subset [of "mod_id m" m "pkt_modules p"]
    unfolding packet_wf_def by blast
  then show ?thesis
    using assms(1) by (simp add: packet_wf_def)
qed

lemma add_module_wf [wf_intros]:
  assumes "packet_wf p"
  shows "packet_wf (snd (add_module mid payload p))"
proof (cases "new_module mid payload")
  case (Inr m)
  then show ?thesis
    using store_module_wf [OF assms] new_module_wf [OF Inr] assms
    by (auto simp: add_module_def split: option.splits)
qed (use assms in \<open>simp add: add_module_def split: option.splits\<close>)

lemma del_module_wf [wf_intros]: "packet_wf p \<Longrightarrow> packet_wf (del_module mid p)"
  by (auto simp: packet_wf_def del_module_def AList.delete_eq distinct_map_filter)

lemma module_decode_wf:
  assumes "module_decode ts r = (Inr m, r')"
  shows "module_wf m"
proof -
  from assms obtain idbuf payload size r1 r2 r3 r4 where
    "read_full 2 r1 = (Inr idbuf, r2)" and "read_full (unat size) r3 = (Inr payload, r4)"
    and "m = \<lparr>mod_id = string_of idbuf, mod_size = size, mod_payload = payload\<rparr>"
    unfolding module_decode_def Let_def
    by (auto elim!: and_then_InrE dest!: on_error_InrD simp: done_with_def)
  then show ?thesis
    by (auto simp: module_wf_def dest!: read_full_InrD)
qed

lemma close_decode_InrD: "close_decode ts p r = (Inr p', r') \<Longrightarrow> p' = p"
  by (auto simp: close_decode_def split: prod.splits option.splits if_splits)

lemma modules_decode_wf:
  "modules_decode ts k p r = (Inr p', r') \<Longrightarrow> packet_wf p \<Longrightarrow> packet_wf p'"
proof (induction ts k p arbitrary: r rule: modules_decode.induct)
  case (1 ts p)
  then show ?case by (auto dest: close_decode_InrD)
next
  case (2 ts k p)
  then obtain m r1 where "module_decode ts r = (Inr m, r1)"
    and "modules_decode ts k (p\<lparr>pkt_modules := AList.update (mod_id m) m (pkt_modules p)\<rparr>) r1 = (Inr p', r')"
    by (auto elim: and_then_InrE)
  with 2 show ?case
    by (blast intro: store_module_wf module_decode_wf)
qed

lemma packet_wf_meta [simp]: "packet_wf (p\<lparr>pkt_meta := x\<rparr>) = packet_wf p"
  by (simp add: packet_wf_def)

lemma packet_decode_wf: "packet_decode ts p r = (Inr p', r') \<Longrightarrow> packet_wf p \<Longrightarrow> packet_wf p'"
  unfolding packet_decode_def Let_def
  by (auto elim!: and_then_InrE dest: modules_decode_wf)

section \<open>The byte format\<close>

definition module_bytes :: "tag_set \<Rightarrow> gomodule \<Rightarrow> bytes" where
  "module_bytes ts m =
     bytes_of (module_opening_tag ts) @ bytes_of (mod_id m) @ bytes_of (separator ts) @
     be16 (mod_size m) @ bytes_of (separator ts) @ mod_payload m @ bytes_of (module_closing_tag ts)"

definition header_bytes :: "tag_set \<Rightarrow> metadata \<Rightarrow> bytes" where
  "header_bytes ts md =
     bytes_of (packet_opening_tag ts) @ [encoding md] @ bytes_of (separator ts) @
     [compression md] @ bytes_of (separator ts) @ [encryption md] @ bytes_of (separator ts)"

definition packet_bytes :: "tag_set \<Rightarrow> packet \<Rightarrow> gomodule list \<Rightarrow> bytes" where
  "packet_bytes ts p ord =
     header_bytes ts (pkt_meta p) @ [word_of_nat (length (pkt_modules p))] @
     concat (map (module_bytes ts) ord) @ bytes_of (packet_closing_tag ts)"

text \<open>
  The tags the decoders can read: \<open>Decoder.Decode\<close> reads the packet tags into a buffer of
  4 bytes and the separator into one of 1 byte, \<open>ModuleDecoder.Decode\<close> its tags into one
  of 2 bytes.
\<close>

definition tags_fit :: "tag_set \<Rightarrow> bool" where
  "tags_fit ts \<longleftrightarrow>
     length (packet_opening_tag ts) \<le> 4 \<and> length (packet_closing_tag ts) \<le> 4 \<and>
     length (module_opening_tag ts) \<le> 2 \<and> length (module_closing_tag ts) \<le> 2 \<and>
     length (separator ts) \<le> 1"

definition module_count_ok :: "packet \<Rightarrow> bool" where
  "module_count_ok p \<longleftrightarrow> 1 \<le> length (pkt_modules p) \<and> length (pkt_modules p) \<le> 255"

subsection \<open>What the encoder writes\<close>

lemma emits_module_encode [emit_intros]:
  assumes "module_wf m"
  shows "emits (module_encode ts m) (module_bytes ts m)"
proof -
  have "emits (module_encode ts m)
     (bytes_of (module_opening_tag ts) @ bytes_of (mod_id m) @ bytes_of (separator ts) @
     be16 (mod_size m) @ bytes_of (separator ts) @ mod_payload m @ bytes_of (module_closing_tag ts) @ [])"
    using assms unfolding module_encode_def Let_def module_wf_def
    by (simp only: length_bytes_of refl simp_thms if_False) (intro emit_intros)
  then show ?thesis by (simp add: module_bytes_def)
qed

lemma emits_modules_encode [emit_intros]:
  "\<forall>m \<in> set ord. module_wf m \<Longrightarrow> emits (modules_encode ts ord) (concat (map (module_bytes ts) ord))"
  by (induction ord) (auto intro: emit_intros)

lemma emits_header:
  assumes "\<And>x. emits (k x) bs"
  shows "emits
     (and_then (on_error WriteOpenTag (tag_write (packet_opening_tag ts))) (\<lambda>_.
     and_then (on_error WriteEncoding (write_bytes [encoding md])) (\<lambda>_.
     and_then (on_error WriteSeparator (tag_write (separator ts))) (\<lambda>_.
     and_then (on_error WriteCompression (write_bytes [compression md])) (\<lambda>_.
     and_then (on_error WriteSeparator (tag_write (separator ts))) (\<lambda>_.
     and_then (on_error WriteEncryption (write_bytes [encryption md])) (\<lambda>_.
     and_then (on_error WriteSeparator (tag_write (separator ts))) k)))))))
     (header_bytes ts md @ bs)"
proof -
  have eq: "header_bytes ts md @ bs =
     bytes_of (packet_opening_tag ts) @ [encoding md] @ bytes_of (separator ts) @
     [compression md] @ bytes_of (separator ts) @ [encryption md] @ bytes_of (separator ts) @ bs"
    by (simp add: header_bytes_def)
  show ?thesis
    unfolding eq by (intro emit_intros assms)
qed

lemma iterates_wf: "packet_wf p \<Longrightarrow> iterates ord p \<Longrightarrow> m \<in> set ord \<Longrightarrow> module_wf m"
  unfolding iterates_def packet_wf_def by (drule mset_eq_setD) force

lemma iterates_length: "iterates ord p \<Longrightarrow> length ord = length (pkt_modules p)"
  unfolding iterates_def by (metis length_map size_mset)

lemma emits_packet_encode:
  assumes "packet_wf p" and "iterates ord p" and "module_count_ok p"
  shows "emits (packet_encode ts p ord) (packet_bytes ts p ord)"
proof -
  have count: "(length (pkt_modules p) < 1 \<or> length (pkt_modules p) > 0xff) = False"
    using assms(3) by (auto simp: module_count_ok_def)
  have "emits (packet_encode ts p ord) (header_bytes ts (pkt_meta p) @
     [word_of_nat (length (pkt_modules p))] @ concat (map (module_bytes ts) ord) @
     bytes_of (packet_closing_tag ts) @ [])"
    unfolding packet_encode_def Let_def count if_False
    by (intro emits_header emit_intros) (simp add: iterates_wf [OF assms(1,2)])
  then show ?thesis by (simp add: packet_bytes_def)
qed

text \<open>A packet with no or too many modules fails after its header is written.\<close>

lemma packet_encode_refused_header:
  assumes "\<not> module_count_ok p"
  shows "packet_encode ts p ord (out, None) =
           (Inl TooManyModules, (out @ header_bytes ts (pkt_meta p), None))"
proof -
  have "length (pkt_modules p) < 1 \<or> length (pkt_modules p) > 0xff"
    using assms by (auto simp: module_count_ok_def)
  then show ?thesis
    by (simp add: packet_encode_def seq_simps tag_write_def header_bytes_def)
qed

subsection \<open>What the decoder accepts\<close>

lemma parses_module_decode [parse_intros]:
  assumes "tags_fit ts" and "module_wf m"
  shows "parses (module_decode ts) (module_bytes ts m) m"
proof -
  have tag: "expect_tag tag 2 err (bytes_of tag @ xs, e) = (Inr (), (xs, e))"
    if "length tag \<le> 2" for tag err xs and e :: io_error
    using that by (rule parsesD [OF parses_expect_tag])
  have mid: "read_full 2 (bytes_of (mod_id m) @ xs, e) = (Inr (bytes_of (mod_id m)), (xs, e))"
    and payload: "read_full (unat (mod_size m)) (mod_payload m @ xs, e) = (Inr (mod_payload m), (xs, e))"
    and size: "read_full 2 (be16 (mod_size m) @ xs, e) = (Inr (be16 (mod_size m)), (xs, e))"
    for xs and e :: io_error
    using assms(2) by (simp_all add: io_simps module_wf_def)
  have be: "of_be16 (be16 (mod_size m) ! 0) (be16 (mod_size m) ! Suc 0) = mod_size m"
    by (simp add: be16_def)
  have "length (separator ts) \<le> 2"
    using assms(1) by (simp add: tags_fit_def)
  then show ?thesis
    using assms(1)
    by (simp add: parses_def module_decode_def module_bytes_def seq_simps tag mid payload size be
        tags_fit_def Let_def)
qed

lemma consumes_module_decode [consume_intros]: "consumes 4 (module_decode ts)"
proof -
  have "consumes (0 + (2 + (0 + (2 + (0 + (0 + (0 + 0))))))) (module_decode ts)"
    unfolding module_decode_def Let_def
    by (intro consume_intros; rule consumes_mono [OF consumes_read_full]; simp)
  then show ?thesis by (simp add: numeral_eq_Suc)
qed

lemma parses_close_decode [parse_intros]:
  "tags_fit ts \<Longrightarrow> parses (close_decode ts p) (bytes_of (packet_closing_tag ts)) p"
  by (simp add: parses_def close_decode_def tag_read_complete tags_fit_def)

text \<open>
  At the end of a stream every prefix of the closing tag is taken for the whole tag, because
  \<open>TagReader.Read\<close> returns \<open>io.EOF\<close> in both cases.
\<close>

lemma close_decode_truncated:
  assumes "tags_fit ts" and "k \<le> length (packet_closing_tag ts)"
  shows "close_decode ts p (take k (bytes_of (packet_closing_tag ts)), EOF) = (Inr p, ([], EOF))"
proof (cases "k = length (packet_closing_tag ts)")
  case True
  then show ?thesis
    using parses_all [OF parses_close_decode [OF assms(1)]] by simp
next
  case False
  then have "k < length (packet_closing_tag ts)" and "length (packet_closing_tag ts) \<le> 4"
    using assms by (auto simp: tags_fit_def)
  from tag_read_truncated [OF this, of EOF] show ?thesis
    by (auto simp: close_decode_def)
qed

lemma close_decode_reset:
  assumes "tags_fit ts" and "k < length (packet_closing_tag ts)" and "e \<noteq> EOF"
  shows "close_decode ts p (take k (bytes_of (packet_closing_tag ts)), e) =
         (Inl (ReadCloseTag (TagIO e)), ([], e))"
  using tag_read_truncated [of k "packet_closing_tag ts" 4 e] assms
  by (auto simp: close_decode_def tags_fit_def)

definition entries :: "gomodule list \<Rightarrow> (string \<times> gomodule) list" where
  "entries ord = map (\<lambda>m. (mod_id m, m)) ord"

lemma entries_Cons [simp]: "entries (m # ms) = (mod_id m, m) # entries ms"
  and entries_Nil [simp]: "entries [] = []"
  and keys_entries [simp]: "keys (entries ms) = map mod_id ms"
  by (simp_all add: entries_def)

text \<open>Reading the modules leaves the stream at the closing tag, with the modules stored.\<close>

lemma modules_decode_bytes:
  assumes "tags_fit ts" and "\<forall>m \<in> set ord. module_wf m"
    and "distinct (keys (pkt_modules p) @ map mod_id ord)"
  shows "modules_decode ts (length ord) p (concat (map (module_bytes ts) ord) @ rest, e) =
         close_decode ts (p\<lparr>pkt_modules := pkt_modules p @ entries ord\<rparr>) (rest, e)"
  using assms(2,3)
proof (induction ord arbitrary: p)
  case Nil
  then show ?case by simp
next
  case (Cons m ord)
  let ?p = "p\<lparr>pkt_modules := AList.update (mod_id m) m (pkt_modules p)\<rparr>"
  have upd: "pkt_modules ?p = pkt_modules p @ [(mod_id m, m)]"
    using Cons.prems by (simp add: update_new)
  have "modules_decode ts (length (m # ord)) p (concat (map (module_bytes ts) (m # ord)) @ rest, e) =
        modules_decode ts (length ord) ?p (concat (map (module_bytes ts) ord) @ rest, e)"
    using parsesD [OF parses_module_decode [OF assms(1), of m]] Cons.prems
    by (simp add: seq_simps)
  also have "\<dots> = close_decode ts (?p\<lparr>pkt_modules := pkt_modules ?p @ entries ord\<rparr>) (rest, e)"
    using Cons.prems upd by (intro Cons.IH) auto
  finally show ?case by (simp add: update_new upd [simplified])
qed

lemma packet_decode_header:
  assumes "tags_fit ts"
  shows "packet_decode ts p (header_bytes ts md @ n # rest, e) =
         modules_decode ts (unat n) (p\<lparr>pkt_meta := md\<rparr>) (rest, e)"
proof -
  have acc: "accept_tag (separator ts) (Suc 0) err (bytes_of (separator ts) @ xs, e) = (Inr (), (xs, e))"
    for err xs and e :: io_error
    using assms by (intro parsesD [OF parses_accept_tag]) (simp add: tags_fit_def)
  have opn: "expect_tag (packet_opening_tag ts) 4 err (bytes_of (packet_opening_tag ts) @ xs, e) = (Inr (), (xs, e))"
    for err xs and e :: io_error
    using assms by (intro parsesD [OF parses_expect_tag]) (simp add: tags_fit_def)
  show ?thesis
    by (cases md) (simp add: packet_decode_def header_bytes_def seq_simps opn acc io_simps)
qed

lemma consumes_modules_decode: "consumes 0 (modules_decode ts k p)"
proof (induction ts k p rule: modules_decode.induct)
  case (1 ts p)
  show ?case
    by (rule consumesI)
       (auto simp: close_decode_def tag_read_def split: prod.splits if_splits option.splits
          dest!: tag_loop_consumes)
next
  case (2 ts k p)
  have "consumes (4 + 0) (modules_decode ts (Suc k) p)"
    unfolding modules_decode.simps by (intro consumes_and_then consumes_module_decode 2)
  then show ?case by (rule consumes_mono) simp
qed

lemma consumes_packet_decode [consume_intros]: "consumes 4 (packet_decode ts p)"
proof -
  have "consumes (0 + (1 + (0 + (1 + (0 + (1 + (0 + (1 + 0)))))))) (packet_decode ts p)"
    unfolding packet_decode_def Let_def
    by (intro consume_intros consumes_modules_decode)
  then show ?thesis by (simp add: numeral_eq_Suc)
qed

text \<open>
  The decoded packet holds the modules in the order they came; as a map it is the packet that
  was encoded.
\<close>

definition received :: "packet \<Rightarrow> gomodule list \<Rightarrow> packet" where
  "received p ord = \<lparr>pkt_meta = pkt_meta p, pkt_modules = entries ord\<rparr>"

lemma entries_of_modules: "packet_wf p \<Longrightarrow> entries (map snd (pkt_modules p)) = pkt_modules p"
  unfolding packet_wf_def entries_def by (force intro: map_idI)

lemma received_same_map:
  assumes "packet_wf p" and "iterates ord p"
  shows "distinct (map mod_id ord) \<and> map_of (entries ord) = map_of (pkt_modules p)"
proof -
  have mset: "mset (entries ord) = mset (pkt_modules p)"
    using assms entries_of_modules [OF assms(1)]
    unfolding iterates_def entries_def by (metis mset_map)
  have "mset (map mod_id ord) = mset (keys (pkt_modules p))"
    using mset by (metis keys_entries mset_map)
  then have "distinct (map mod_id ord)"
    using assms(1) mset_eq_imp_distinct_iff packet_wf_def by blast
  then show ?thesis
    using map_of_mset_eq [OF mset] by simp
qed

lemma packet_decode_upto_close:
  assumes "tags_fit ts" and "packet_wf p" and "iterates ord p" and "module_count_ok p"
  shows "packet_decode ts new_packet (header_bytes ts (pkt_meta p) @
      word_of_nat (length (pkt_modules p)) # concat (map (module_bytes ts) ord) @ rest, e) =
    close_decode ts (received p ord) (rest, e)"
proof -
  have n: "unat (word_of_nat (length (pkt_modules p)) :: byte) = length ord"
    using assms(4) by (simp add: unat_of_nat module_count_ok_def iterates_length [OF assms(3)])
  have "modules_decode ts (length ord) (new_packet\<lparr>pkt_meta := pkt_meta p\<rparr>)
      (concat (map (module_bytes ts) ord) @ rest, e) =
    close_decode ts (new_packet\<lparr>pkt_meta := pkt_meta p, pkt_modules := entries ord\<rparr>) (rest, e)"
    using modules_decode_bytes [OF assms(1), of ord "new_packet\<lparr>pkt_meta := pkt_meta p\<rparr>" rest e]
      iterates_wf [OF assms(2,3)] received_same_map [OF assms(2,3)]
    by (simp add: new_packet_def)
  then show ?thesis
    by (simp add: packet_decode_header [OF assms(1)] n received_def new_packet_def)
qed

lemma parses_packet_decode [parse_intros]:
  assumes "tags_fit ts" and "packet_wf p" and "iterates ord p" and "module_count_ok p"
  shows "parses (packet_decode ts new_packet) (packet_bytes ts p ord) (received p ord)"
  unfolding parses_def packet_bytes_def
  using packet_decode_upto_close [OF assms] parsesD [OF parses_close_decode [OF assms(1)]]
  by simp

section \<open>Properties\<close>


text \<open>
  On a connection that breaks after \<open>k\<close> more bytes, \<open>Encode\<close> either succeeds
  having written the whole packet, or returns an error having written exactly the first
  \<open>k\<close> bytes of it: no byte is skipped or repeated, and an incomplete packet is always
  reported.
\<close>

theorem packet_encode_failing_conn:
  assumes "packet_wf p" and "module_count_ok p" and "iterates ord p"
  shows "\<exists>bs. packet_encode ts p ord (out, None) = (Inr (), (out @ bs, None)) \<and>
     (if length bs \<le> k
      then packet_encode ts p ord (out, Some k) = (Inr (), (out @ bs, Some (k - length bs)))
      else \<exists>err. packet_encode ts p ord (out, Some k) = (Inl err, (out @ take k bs, Some 0)))"
proof -
  note emits = emits_packet_encode [OF assms(1,3,2), of ts]
  show ?thesis
    using emits_unlimited [OF emits] emits_fits [OF emits, of "(out, Some k)"]
      emits_cut [OF emits, of "(out, Some k)"]
    by (intro exI [of _ "packet_bytes ts p ord"]) auto
qed

text \<open>
  A packet without modules, or with more than 255, is refused by \<open>Encode\<close> with
  an error, but only after the opening tag, the metadata and the separators are already on the
  connection: the refused packet leaves its header bytes behind.
\<close>

theorem packet_encode_refused:
  assumes "\<not> module_count_ok p"
  shows "packet_encode ts p ord (out, None) =
           (Inl TooManyModules, (out @ header_bytes ts (pkt_meta p), None))"
  using assms by (rule packet_encode_refused_header)


text \<open>
  A packet whose closing tag is cut off by the end of the connection is accepted as if it
  were complete, because \<open>TagReader.Read\<close> reports a complete tag and the end of the
  stream by the same \<open>io.EOF\<close>; any other connection error at that point is reported.
\<close>

theorem packet_decode_truncated_close:
  assumes "tags_fit ts" and "packet_wf p" and "module_count_ok p" and "iterates ord p"
    and "k < length (packet_closing_tag ts)"
  shows "\<exists>bs p'. packet_encode ts p ord ([], None) = (Inr (), (bs @ bytes_of (packet_closing_tag ts), None)) \<and>
           packet_decode ts new_packet (bs @ take k (bytes_of (packet_closing_tag ts)), EOF) = (Inr p', ([], EOF)) \<and>
           pkt_meta p' = pkt_meta p \<and> map_of (pkt_modules p') = map_of (pkt_modules p) \<and>
           (\<forall>s. packet_decode ts new_packet (bs @ take k (bytes_of (packet_closing_tag ts)), ConnErr s) =
                  (Inl (ReadCloseTag (TagIO (ConnErr s))), ([], ConnErr s)))"
proof (intro exI conjI allI)
  let ?bs = "header_bytes ts (pkt_meta p) @
      word_of_nat (length (pkt_modules p)) # concat (map (module_bytes ts) ord)"
  let ?close = "take k (bytes_of (packet_closing_tag ts))"
  show "packet_encode ts p ord ([], None) = (Inr (), (?bs @ bytes_of (packet_closing_tag ts), None))"
    using emits_unlimited [OF emits_packet_encode [OF assms(2,4,3)], where out = "[]"]
    by (simp add: packet_bytes_def)
  show "packet_decode ts new_packet (?bs @ ?close, EOF) = (Inr (received p ord), ([], EOF))"
    using packet_decode_upto_close [OF assms(1,2,4,3)] close_decode_truncated [OF assms(1)] assms(5)
    by simp
  show "packet_decode ts new_packet (?bs @ ?close, ConnErr s) =
          (Inl (ReadCloseTag (TagIO (ConnErr s))), ([], ConnErr s))" for s
    using packet_decode_upto_close [OF assms(1,2,4,3)] close_decode_reset [OF assms(1,5)]
    by simp
qed (use received_same_map [OF assms(2,4)] in \<open>simp_all add: received_def\<close>)

text \<open>
  The packet operations: \<open>AddModule\<close> succeeds exactly for a new two byte id with a
  payload of 1 to 65535 bytes, and then \<open>Module\<close> finds it and every other module is as
  before; a refused \<open>AddModule\<close> leaves the packet as it was; \<open>DelModule\<close> removes
  that module only.
\<close>

theorem packet_module_ops:
  assumes "packet_wf p"
  shows "(case add_module mid payload p of
            (Inr m, p') \<Rightarrow> get_module p mid = Inl (ModuleNotFound mid) \<and> length mid = 2 \<and>
               1 \<le> length payload \<and> length payload \<le> 65535 \<and>
               mod_payload m = payload \<and> get_module p' mid = Inr m \<and>
               (\<forall>i. i \<noteq> mid \<longrightarrow> get_module p' i = get_module p i) \<and> packet_wf p'
          | (Inl _, p') \<Rightarrow> p' = p \<and> (get_module p mid \<noteq> Inl (ModuleNotFound mid) \<or> length mid \<noteq> 2 \<or>
               length payload < 1 \<or> 65535 < length payload)) \<and>
         get_module (del_module mid p) i =
           (if i = mid then Inl (ModuleNotFound mid) else get_module p i)"
proof -
  have "get_module (del_module mid p) i =
           (if i = mid then Inl (ModuleNotFound mid) else get_module p i)"
    by (simp add: get_module_def del_module_def delete_conv')
  moreover have "packet_wf (snd (add_module mid payload p))"
    using assms by (rule add_module_wf)
  ultimately show ?thesis
    by (auto simp: add_module_def get_module_def new_module_def Let_def update_conv'
        split: option.splits sum.splits if_splits)
qed

section \<open>Witnesses\<close>

text \<open>The tags of the booster protocol and a packet with a header and a payload module.\<close>

definition demo_tags :: tag_set where
  "demo_tags = \<lparr>packet_opening_tag = ''>'', packet_closing_tag = ''<'', module_opening_tag = ''['',
     module_closing_tag = '']'', separator = '':''\<rparr>"

definition demo_packet :: packet where
  "demo_packet = \<lparr>pkt_meta = \<lparr>encoding = 1, compression = 1, encryption = 1\<rparr>,
     pkt_modules = [(''HE'', \<lparr>mod_id = ''HE'', mod_size = 3, mod_payload = [1, 2, 3]\<rparr>),
                    (''PA'', \<lparr>mod_id = ''PA'', mod_size = 1, mod_payload = [93]\<rparr>)]\<rparr>"

definition demo_order :: "gomodule list" where
  "demo_order = rev (map snd (pkt_modules demo_packet))"

lemma demo_facts: "tags_fit demo_tags" "packet_wf demo_packet" "module_count_ok demo_packet"
    "iterates demo_order demo_packet"
  by (simp_all add: tags_fit_def demo_tags_def packet_wf_def demo_packet_def module_wf_def
      module_count_ok_def iterates_def demo_order_def)


lemma packet_encode_failing_conn_witness:
  "\<exists>bs. packet_encode demo_tags demo_packet demo_order ([], None) = (Inr (), ([] @ bs, None)) \<and>
     (if length bs \<le> 5
      then packet_encode demo_tags demo_packet demo_order ([], Some 5) = (Inr (), ([] @ bs, Some (5 - length bs)))
      else \<exists>err. packet_encode demo_tags demo_packet demo_order ([], Some 5) = (Inl err, ([] @ take 5 bs, Some 0)))"
  by (rule packet_encode_failing_conn [OF demo_facts(2-4)])

lemma packet_encode_refused_witness:
  "packet_encode demo_tags new_packet [] ([], None) =
     (Inl TooManyModules, ([] @ header_bytes demo_tags (pkt_meta new_packet), None))"
  by (rule packet_encode_refused) (simp add: module_count_ok_def new_packet_def)

lemma demo_decodes:
  "packet_decode demo_tags new_packet (packet_bytes demo_tags demo_packet demo_order, EOF) =
     (Inr (received demo_packet demo_order), ([], EOF))"
  using parses_all [OF parses_packet_decode [OF demo_facts(1,2,4,3)]] .


lemma packet_decode_truncated_close_witness:
  "\<exists>bs p'. packet_encode demo_tags demo_packet demo_order ([], None) =
       (Inr (), (bs @ bytes_of (packet_closing_tag demo_tags), None)) \<and>
     packet_decode demo_tags new_packet (bs @ take 0 (bytes_of (packet_closing_tag demo_tags)), EOF) = (Inr p', ([], EOF)) \<and>
     pkt_meta p' = pkt_meta demo_packet \<and> map_of (pkt_modules p') = map_of (pkt_modules demo_packet) \<and>
     (\<forall>s. packet_decode demo_tags new_packet (bs @ take 0 (bytes_of (packet_closing_tag demo_tags)), ConnErr s) =
            (Inl (ReadCloseTag (TagIO (ConnErr s))), ([], ConnErr s)))"
  by (rule packet_decode_truncated_close [OF demo_facts]) (simp add: demo_tags_def)

lemma packet_module_ops_witness:
  "(case add_module ''XX'' [7] demo_packet of
      (Inr m, p') \<Rightarrow> get_module demo_packet ''XX'' = Inl (ModuleNotFound ''XX'') \<and> length ''XX'' = 2 \<and>
         1 \<le> length [7 :: byte] \<and> length [7 :: byte] \<le> 65535 \<and>
         mod_payload m = [7] \<and> get_module p' ''XX'' = Inr m \<and>
         (\<forall>i. i \<noteq> ''XX'' \<longrightarrow> get_module p' i = get_module demo_packet i) \<and> packet_wf p'
    | (Inl _, p') \<Rightarrow> p' = demo_packet \<and> (get_module demo_packet ''XX'' \<noteq> Inl (ModuleNotFound ''XX'') \<or>
         length ''XX'' \<noteq> 2 \<or> length [7 :: byte] < 1 \<or> 65535 < length [7 :: byte])) \<and>
   get_module (del_module ''XX'' demo_packet) ''HE'' =
     (if ''HE'' = ''XX'' then Inl (ModuleNotFound ''XX'') else get_module demo_packet ''HE'')"
  by (rule packet_module_ops [OF demo_facts(2)])

end
