(* ===== verification/Protocol.thy ===== *)
theory Protocol
  imports Prelude
begin

text \<open>
  Package \<open>protocol\<close>: the constants of the booster protocol (\<open>protocol.go\<close>), headers
  and payloads (\<open>headers.go\<close>, \<open>payloads.go\<close>), their encoders and decoders
  (\<open>encoder.go\<close>, \<open>decoder.go\<close>) and the generated protobuf structures they go through
  (\<open>internal/*.pb.go\<close>). The protobuf and JSON libraries are parameters
  (\<open>codec_lib\<close>); what is used of them is \<open>proto_ok\<close>. Properties are in
  \<open>Protocol_Props\<close>.
\<close>

section \<open>protocol.go\<close>

type_synonym message = "32 word"
type_synonym operation = "32 word"
type_synonym monitor_feature = "32 word"

definition Version :: string where "Version = ''0.3''"

definition EncodingProtobuf :: byte where "EncodingProtobuf = 1"
definition EncodingJson :: byte where "EncodingJson = 2"
definition CompressionNone :: byte where "CompressionNone = 1"
definition EncryptionNone :: byte where "EncryptionNone = 1"

definition ModuleHeader :: string where "ModuleHeader = ''HE''"
definition ModulePayload :: string where "ModulePayload = ''PA''"

definition PacketOpeningTag :: string where "PacketOpeningTag = ''>''"
definition PacketClosingTag :: string where "PacketClosingTag = ''<''"
definition ModuleOpeningTag :: string where "ModuleOpeningTag = ''[''"
definition ModuleClosingTag :: string where "ModuleClosingTag = '']''"
definition Separator :: string where "Separator = '':''"

definition MessageHello :: message where "MessageHello = 1"
definition MessageConnect :: message where "MessageConnect = 2"
definition MessageDisconnect :: message where "MessageDisconnect = 3"
definition MessageHeartbeat :: message where "MessageHeartbeat = 4"
definition MessageNotify :: message where "MessageNotify = 5"
definition MessageMonitor :: message where "MessageMonitor = 6"
definition MessageCtrl :: message where "MessageCtrl = 7"
definition MessageNodeStatus :: message where "MessageNodeStatus = 8"
definition MessageNetworkUsageUpdate :: message where "MessageNetworkUsageUpdate = 9"
definition MessageProxyUpdate :: message where "MessageProxyUpdate = 10"
definition MessageNetworkUpdate :: message where "MessageNetworkUpdate = 11"

definition MonitorNode :: monitor_feature where "MonitorNode = 1"
definition MonitorNet :: monitor_feature where "MonitorNet = 2"

definition TunnelAdded :: operation where "TunnelAdded = 1"
definition TunnelRemoved :: operation where "TunnelRemoved = 2"
definition CtrlStop :: operation where "CtrlStop = 1"
definition CtrlRestart :: operation where "CtrlRestart = 2"
definition NodeAdded :: operation where "NodeAdded = 1"
definition NodeRemoved :: operation where "NodeRemoved = 2"

lemmas message_ids = MessageHello_def MessageConnect_def MessageDisconnect_def
  MessageHeartbeat_def MessageNotify_def MessageMonitor_def MessageCtrl_def MessageNodeStatus_def
  MessageNetworkUsageUpdate_def MessageProxyUpdate_def MessageNetworkUpdate_def

definition operation_from_string :: "string \<Rightarrow> (operation \<times> string option)" where
  "operation_from_string raw =
     (if raw = ''stop'' then (CtrlStop, None)
      else if raw = ''restart'' then (CtrlRestart, None)
      else (- 1, Some raw))"

definition is_version_supported :: "string \<Rightarrow> bool" where
  "is_version_supported v \<longleftrightarrow> v = Version"

section \<open>headers.go and payloads.go\<close>

text \<open>
  \<open>time.Time\<close> is the number of nanoseconds since the Unix epoch. Go's \<open>int\<close> has
  64 bits, \<open>Operation\<close> and \<open>Message\<close> have 32.
\<close>

type_synonym gotime = int
type_synonym goint = "64 word"

record header =
  hdr_id :: message
  hdr_version :: string
  hdr_sent_at :: gotime
  hdr_modules :: "string list"

definition has_module :: "header \<Rightarrow> string \<Rightarrow> bool" where
  "has_module h m \<longleftrightarrow> list_ex (\<lambda>v. v = m) (hdr_modules h)"

record ptunnel =
  pt_id :: string
  pt_target :: string
  pt_copies :: goint

record payload_node =
  pn_id :: string
  pn_baddr :: string
  pn_paddr :: string
  pn_active :: bool
  pn_tunnels :: "ptunnel list"

record payload_network_update =
  nu_node_id :: string
  nu_operation :: operation
  nu_remote_node :: "payload_node option"

record payload_proxy_update =
  pu_node_id :: string
  pu_target :: string
  pu_operation :: operation

record payload_bandwidth =
  bw_node_id :: string
  bw_tot :: goint
  bw_bandwidth :: goint
  bw_type :: string

record payload_hello =
  he_bport :: string
  he_pport :: string

record payload_heartbeat =
  hb_id :: string
  hb_hops :: goint
  hb_ttl :: gotime

text \<open>
  The values passed as \<open>interface{}\<close>: the payload structures, a bare \<open>Message\<close>
  (which makes the header encoder build a header), a header, a pointer to a node payload and the
  anonymous structure of the bandwidth monitor.
\<close>

datatype gvalue =
    VMessage message
  | VHeader header
  | VHello payload_hello
  | VConnect string
  | VDisconnect string
  | VHeartbeat payload_heartbeat
  | VMonitor monitor_feature
  | VCtrl operation
  | VNode payload_node
  | VNodePtr payload_node
  | VBandwidth payload_bandwidth
  | VProxyUpdate payload_proxy_update
  | VNetworkUpdate payload_network_update
  | VNetUsage string payload_bandwidth

datatype gtype =
    THeader | THello | TConnect | TDisconnect | THeartbeat | TMonitor | TCtrl | TNode
  | TBandwidth | TProxyUpdate | TNetworkUpdate | TMessage | TNodePtr | TNetUsage

fun gtype_of :: "gvalue \<Rightarrow> gtype" where
  "gtype_of (VMessage _) = TMessage"
| "gtype_of (VHeader _) = THeader"
| "gtype_of (VHello _) = THello"
| "gtype_of (VConnect _) = TConnect"
| "gtype_of (VDisconnect _) = TDisconnect"
| "gtype_of (VHeartbeat _) = THeartbeat"
| "gtype_of (VMonitor _) = TMonitor"
| "gtype_of (VCtrl _) = TCtrl"
| "gtype_of (VNode _) = TNode"
| "gtype_of (VNodePtr _) = TNodePtr"
| "gtype_of (VBandwidth _) = TBandwidth"
| "gtype_of (VProxyUpdate _) = TProxyUpdate"
| "gtype_of (VNetworkUpdate _) = TNetworkUpdate"
| "gtype_of (VNetUsage _ _) = TNetUsage"

section \<open>internal: the generated protobuf structures\<close>

record pb_timestamp =
  ts_seconds :: "64 word"
  ts_nanos :: "32 word"

record pb_header =
  pbh_id :: "32 word"
  pbh_modules :: "string list"
  pbh_sent_at :: "pb_timestamp option"
  pbh_version :: string

record pb_tunnel =
  pbt_id :: string
  pbt_target :: string
  pbt_copies :: "32 word"

record pb_node =
  pbn_id :: string
  pbn_baddr :: string
  pbn_paddr :: string
  pbn_active :: bool
  pbn_tunnels :: "pb_tunnel list"

record pb_network_update =
  pbu_node_id :: string
  pbu_operation :: "32 word"
  pbu_remote_node :: "pb_node option"

record pb_bandwidth =
  pbb_node_id :: string
  pbb_tot :: "64 word"
  pbb_bandwidth :: "64 word"
  pbb_type :: string

record pb_heartbeat =
  pbe_id :: string
  pbe_hops :: "32 word"
  pbe_ttl :: "pb_timestamp option"

record pb_proxy_update =
  pbp_node_id :: string
  pbp_target :: string
  pbp_operation :: "32 word"

datatype pb =
    PbHeader pb_header
  | PbNetworkUpdate pb_network_update
  | PbCtrl "32 word"
  | PbBandwidth pb_bandwidth
  | PbMonitor "32 word"
  | PbHello string string
  | PbConnect string
  | PbDisconnect string
  | PbNode pb_node
  | PbHeartbeat pb_heartbeat
  | PbProxyUpdate pb_proxy_update

datatype pb_type =
    TPbHeader | TPbNetworkUpdate | TPbCtrl | TPbBandwidth | TPbMonitor | TPbHello | TPbConnect
  | TPbDisconnect | TPbNode | TPbHeartbeat | TPbProxyUpdate

fun pb_type_of :: "pb \<Rightarrow> pb_type" where
  "pb_type_of (PbHeader _) = TPbHeader"
| "pb_type_of (PbNetworkUpdate _) = TPbNetworkUpdate"
| "pb_type_of (PbCtrl _) = TPbCtrl"
| "pb_type_of (PbBandwidth _) = TPbBandwidth"
| "pb_type_of (PbMonitor _) = TPbMonitor"
| "pb_type_of (PbHello _ _) = TPbHello"
| "pb_type_of (PbConnect _) = TPbConnect"
| "pb_type_of (PbDisconnect _) = TPbDisconnect"
| "pb_type_of (PbNode _) = TPbNode"
| "pb_type_of (PbHeartbeat _) = TPbHeartbeat"
| "pb_type_of (PbProxyUpdate _) = TPbProxyUpdate"

text \<open>
  The libraries: \<open>proto.Marshal\<close>, \<open>proto.Unmarshal\<close> into a message of a given
  type, \<open>json.Marshal\<close> and \<open>json.Unmarshal\<close> into a value of a given type.
  \<open>proto_ok\<close> is their documented behaviour as far as it is used: unmarshalling gives
  a message of the requested type, and gives back what was marshalled.
\<close>

record codec_lib =
  marshal :: "pb \<Rightarrow> string + bytes"
  unmarshal :: "pb_type \<Rightarrow> bytes \<Rightarrow> string + pb"
  json_marshal :: "gvalue \<Rightarrow> string + bytes"
  json_unmarshal :: "gtype \<Rightarrow> bytes \<Rightarrow> string + gvalue"

definition proto_ok :: "codec_lib \<Rightarrow> bool" where
  "proto_ok L \<longleftrightarrow>
     (\<forall>x bs. marshal L x = Inr bs \<longrightarrow> unmarshal L (pb_type_of x) bs = Inr x) \<and>
     (\<forall>t bs x. unmarshal L t bs = Inr x \<longrightarrow> pb_type_of x = t)"

section \<open>Timestamps (ptypes)\<close>

definition min_valid_seconds :: int where "min_valid_seconds = -62135596800"
definition max_valid_seconds :: int where "max_valid_seconds = 253402300800"

definition validate_timestamp :: "pb_timestamp option \<Rightarrow> bool" where
  "validate_timestamp ts =
     (case ts of
        None \<Rightarrow> False
      | Some t \<Rightarrow> min_valid_seconds \<le> sint (ts_seconds t) \<and> sint (ts_seconds t) < max_valid_seconds \<and>
                  0 \<le> sint (ts_nanos t) \<and> sint (ts_nanos t) < 1000000000)"

definition timestamp_proto :: "gotime \<Rightarrow> pb_timestamp option" where
  "timestamp_proto t =
     (let ts = \<lparr>ts_seconds = word_of_int (t div 1000000000), ts_nanos = word_of_int (t mod 1000000000)\<rparr>
      in if validate_timestamp (Some ts) then Some ts else None)"

definition timestamp_time :: "pb_timestamp option \<Rightarrow> gotime option" where
  "timestamp_time ts =
     (if validate_timestamp ts then
        map_option (\<lambda>t. sint (ts_seconds t) * 1000000000 + sint (ts_nanos t)) ts
      else None)"

section \<open>encoder.go\<close>

datatype proto_error =
    ConversionFail
  | MarshalError string
  | UnmarshalError string
  | TimestampError
  | IllegalReflect gtype gtype

type_synonym encoder_func = "gvalue \<Rightarrow> proto_error stop + bytes"

definition proto_marshal :: "codec_lib \<Rightarrow> pb \<Rightarrow> proto_error stop + bytes" where
  "proto_marshal L x = (case marshal L x of Inl e \<Rightarrow> Inl (Error (MarshalError e)) | Inr bs \<Rightarrow> Inr bs)"

definition protocol_encode :: "gvalue \<Rightarrow> encoder_func \<Rightarrow> proto_error stop + bytes" where
  "protocol_encode v f = f v"

definition new_header :: "message \<Rightarrow> pb_timestamp \<Rightarrow> pb_header" where
  "new_header mid now =
     \<lparr>pbh_id = mid, pbh_modules = [ModulePayload], pbh_sent_at = Some now, pbh_version = Version\<rparr>"

text \<open>\<open>ptypes.TimestampNow\<close> panics when the clock is outside the valid range.\<close>

definition encode_header :: "codec_lib \<Rightarrow> gotime \<Rightarrow> encoder_func" where
  "encode_header L now v =
     (case v of
        VMessage d \<Rightarrow>
          (case timestamp_proto now of
             None \<Rightarrow> Inl Panic
           | Some ts \<Rightarrow>
               (let h = new_header d ts;
                    h = (if d = MessageNotify then h\<lparr>pbh_modules := []\<rparr> else h)
                in proto_marshal L (PbHeader h)))
      | _ \<Rightarrow> Inl (Error ConversionFail))"

definition encode_hello :: "codec_lib \<Rightarrow> encoder_func" where
  "encode_hello L v =
     (case v of VHello d \<Rightarrow> proto_marshal L (PbHello (he_bport d) (he_pport d))
      | _ \<Rightarrow> Inl (Error ConversionFail))"

definition encode_ctrl :: "codec_lib \<Rightarrow> encoder_func" where
  "encode_ctrl L v =
     (case v of VCtrl oper \<Rightarrow> proto_marshal L (PbCtrl oper) | _ \<Rightarrow> Inl (Error ConversionFail))"

definition encode_bandwidth :: "codec_lib \<Rightarrow> encoder_func" where
  "encode_bandwidth L v =
     (case v of
        VBandwidth d \<Rightarrow> proto_marshal L (PbBandwidth
          \<lparr>pbb_node_id = bw_node_id d, pbb_tot = bw_tot d, pbb_bandwidth = bw_bandwidth d,
           pbb_type = bw_type d\<rparr>)
      | _ \<Rightarrow> Inl (Error ConversionFail))"

definition encode_monitor :: "codec_lib \<Rightarrow> encoder_func" where
  "encode_monitor L v =
     (case v of VMonitor f \<Rightarrow> proto_marshal L (PbMonitor f) | _ \<Rightarrow> Inl (Error ConversionFail))"

definition encode_connect :: "codec_lib \<Rightarrow> encoder_func" where
  "encode_connect L v =
     (case v of VConnect tgt \<Rightarrow> proto_marshal L (PbConnect tgt) | _ \<Rightarrow> Inl (Error ConversionFail))"

definition encode_disconnect :: "codec_lib \<Rightarrow> encoder_func" where
  "encode_disconnect L v =
     (case v of VDisconnect i \<Rightarrow> proto_marshal L (PbDisconnect i) | _ \<Rightarrow> Inl (Error ConversionFail))"

text \<open>\<open>int32(t.Copies)\<close> keeps the low 32 bits.\<close>

definition node_to_internal :: "payload_node \<Rightarrow> pb_node" where
  "node_to_internal d =
     \<lparr>pbn_id = pn_id d, pbn_baddr = pn_baddr d, pbn_paddr = pn_paddr d, pbn_active = pn_active d,
      pbn_tunnels = map (\<lambda>t. \<lparr>pbt_id = pt_id t, pbt_target = pt_target t,
                               pbt_copies = ucast (pt_copies t)\<rparr>) (pn_tunnels d)\<rparr>"

definition encode_node :: "codec_lib \<Rightarrow> encoder_func" where
  "encode_node L v =
     (case v of VNode d \<Rightarrow> proto_marshal L (PbNode (node_to_internal d))
      | _ \<Rightarrow> Inl (Error ConversionFail))"

definition encode_heartbeat :: "codec_lib \<Rightarrow> encoder_func" where
  "encode_heartbeat L v =
     (case v of
        VHeartbeat d \<Rightarrow>
          (case timestamp_proto (hb_ttl d) of
             None \<Rightarrow> Inl (Error TimestampError)
           | Some t \<Rightarrow> proto_marshal L (PbHeartbeat
               \<lparr>pbe_id = hb_id d, pbe_hops = ucast (hb_hops d), pbe_ttl = Some t\<rparr>))
      | _ \<Rightarrow> Inl (Error ConversionFail))"

definition encode_proxy_update :: "codec_lib \<Rightarrow> encoder_func" where
  "encode_proxy_update L v =
     (case v of
        VProxyUpdate d \<Rightarrow> proto_marshal L (PbProxyUpdate
          \<lparr>pbp_node_id = pu_node_id d, pbp_target = pu_target d, pbp_operation = pu_operation d\<rparr>)
      | _ \<Rightarrow> Inl (Error ConversionFail))"

text \<open>\<open>nodeToInternal\<close> dereferences its argument: a nil remote node is a panic.\<close>

definition encode_network_update :: "codec_lib \<Rightarrow> encoder_func" where
  "encode_network_update L v =
     (case v of
        VNetworkUpdate d \<Rightarrow>
          (case nu_remote_node d of
             None \<Rightarrow> Inl Panic
           | Some n \<Rightarrow> proto_marshal L (PbNetworkUpdate
               \<lparr>pbu_node_id = nu_node_id d, pbu_operation = nu_operation d,
                pbu_remote_node = Some (node_to_internal n)\<rparr>))
      | _ \<Rightarrow> Inl (Error ConversionFail))"

definition payload_encoders :: "codec_lib \<Rightarrow> message \<Rightarrow> encoder_func option" where
  "payload_encoders L = map_of
     [(MessageHello, encode_hello L),
      (MessageConnect, encode_connect L),
      (MessageDisconnect, encode_disconnect L),
      (MessageHeartbeat, encode_heartbeat L),
      (MessageMonitor, encode_monitor L),
      (MessageCtrl, encode_ctrl L),
      (MessageNodeStatus, encode_node L),
      (MessageNetworkUsageUpdate, encode_bandwidth L),
      (MessageProxyUpdate, encode_proxy_update L),
      (MessageNetworkUpdate, encode_network_update L)]"

section \<open>decoder.go\<close>

text \<open>
  A decoder gets the bytes and a pointer to a pointer to the structure to fill; only the type
  of that structure matters, and what is returned is the value it is set to.
\<close>

type_synonym decoder_func = "bytes \<Rightarrow> gtype \<Rightarrow> proto_error stop + gvalue"

definition set_value :: "gvalue \<Rightarrow> gtype \<Rightarrow> proto_error stop + gvalue" where
  "set_value s ty =
     (if ty \<noteq> gtype_of s then Inl (Error (IllegalReflect (gtype_of s) ty)) else Inr s)"

definition protocol_decode :: "bytes \<Rightarrow> gtype \<Rightarrow> decoder_func \<Rightarrow> proto_error stop + gvalue" where
  "protocol_decode p ty f = f p ty"

definition proto_unmarshal ::
    "codec_lib \<Rightarrow> pb_type \<Rightarrow> bytes \<Rightarrow> (pb \<Rightarrow> proto_error stop + gvalue) \<Rightarrow> proto_error stop + gvalue" where
  "proto_unmarshal L t bs k =
     (case unmarshal L t bs of Inl e \<Rightarrow> Inl (Error (UnmarshalError e)) | Inr x \<Rightarrow> k x)"

definition decode_header :: "codec_lib \<Rightarrow> decoder_func" where
  "decode_header L p ty = proto_unmarshal L TPbHeader p (\<lambda>x.
     case x of
       PbHeader h \<Rightarrow>
         (case timestamp_time (pbh_sent_at h) of
            None \<Rightarrow> Inl (Error TimestampError)
          | Some t \<Rightarrow> set_value (VHeader \<lparr>hdr_id = pbh_id h, hdr_version = pbh_version h,
                        hdr_sent_at = t, hdr_modules = pbh_modules h\<rparr>) ty)
     | _ \<Rightarrow> Inl Panic)"

definition decode_hello :: "codec_lib \<Rightarrow> decoder_func" where
  "decode_hello L p ty = proto_unmarshal L TPbHello p (\<lambda>x.
     case x of PbHello bp pp \<Rightarrow> set_value (VHello \<lparr>he_bport = bp, he_pport = pp\<rparr>) ty | _ \<Rightarrow> Inl Panic)"

definition decode_ctrl :: "codec_lib \<Rightarrow> decoder_func" where
  "decode_ctrl L p ty = proto_unmarshal L TPbCtrl p (\<lambda>x.
     case x of PbCtrl oper \<Rightarrow> set_value (VCtrl oper) ty | _ \<Rightarrow> Inl Panic)"

definition decode_bandwidth :: "codec_lib \<Rightarrow> decoder_func" where
  "decode_bandwidth L p ty = proto_unmarshal L TPbBandwidth p (\<lambda>x.
     case x of
       PbBandwidth b \<Rightarrow> set_value (VBandwidth \<lparr>bw_node_id = pbb_node_id b, bw_tot = pbb_tot b,
                         bw_bandwidth = pbb_bandwidth b, bw_type = pbb_type b\<rparr>) ty
     | _ \<Rightarrow> Inl Panic)"

definition decode_monitor :: "codec_lib \<Rightarrow> decoder_func" where
  "decode_monitor L p ty = proto_unmarshal L TPbMonitor p (\<lambda>x.
     case x of PbMonitor f \<Rightarrow> set_value (VMonitor f) ty | _ \<Rightarrow> Inl Panic)"

definition decode_connect :: "codec_lib \<Rightarrow> decoder_func" where
  "decode_connect L p ty = proto_unmarshal L TPbConnect p (\<lambda>x.
     case x of PbConnect t \<Rightarrow> set_value (VConnect t) ty | _ \<Rightarrow> Inl Panic)"

definition decode_disconnect :: "codec_lib \<Rightarrow> decoder_func" where
  "decode_disconnect L p ty = proto_unmarshal L TPbDisconnect p (\<lambda>x.
     case x of PbDisconnect i \<Rightarrow> set_value (VDisconnect i) ty | _ \<Rightarrow> Inl Panic)"

definition node_from_internal :: "pb_node \<Rightarrow> payload_node" where
  "node_from_internal n =
     \<lparr>pn_id = pbn_id n, pn_baddr = pbn_baddr n, pn_paddr = pbn_paddr n, pn_active = pbn_active n,
      pn_tunnels = map (\<lambda>t. \<lparr>pt_id = pbt_id t, pt_target = pbt_target t,
                              pt_copies = scast (pbt_copies t)\<rparr>) (pbn_tunnels n)\<rparr>"

definition decode_node :: "codec_lib \<Rightarrow> decoder_func" where
  "decode_node L p ty = proto_unmarshal L TPbNode p (\<lambda>x.
     case x of PbNode n \<Rightarrow> set_value (VNode (node_from_internal n)) ty | _ \<Rightarrow> Inl Panic)"

definition decode_heartbeat :: "codec_lib \<Rightarrow> decoder_func" where
  "decode_heartbeat L p ty = proto_unmarshal L TPbHeartbeat p (\<lambda>x.
     case x of
       PbHeartbeat h \<Rightarrow>
         (case timestamp_time (pbe_ttl h) of
            None \<Rightarrow> Inl (Error TimestampError)
          | Some t \<Rightarrow> set_value (VHeartbeat \<lparr>hb_id = pbe_id h, hb_hops = scast (pbe_hops h), hb_ttl = t\<rparr>) ty)
     | _ \<Rightarrow> Inl Panic)"

definition decode_proxy_update :: "codec_lib \<Rightarrow> decoder_func" where
  "decode_proxy_update L p ty = proto_unmarshal L TPbProxyUpdate p (\<lambda>x.
     case x of
       PbProxyUpdate u \<Rightarrow> set_value (VProxyUpdate \<lparr>pu_node_id = pbp_node_id u,
                            pu_target = pbp_target u, pu_operation = pbp_operation u\<rparr>) ty
     | _ \<Rightarrow> Inl Panic)"

definition decode_network_update :: "codec_lib \<Rightarrow> decoder_func" where
  "decode_network_update L p ty = proto_unmarshal L TPbNetworkUpdate p (\<lambda>x.
     case x of
       PbNetworkUpdate u \<Rightarrow>
         (case pbu_remote_node u of
            None \<Rightarrow> Inl Panic
          | Some n \<Rightarrow> set_value (VNetworkUpdate \<lparr>nu_node_id = pbu_node_id u,
              nu_operation = pbu_operation u, nu_remote_node = Some (node_from_internal n)\<rparr>) ty)
     | _ \<Rightarrow> Inl Panic)"

definition payload_decoders :: "codec_lib \<Rightarrow> message \<Rightarrow> decoder_func option" where
  "payload_decoders L = map_of
     [(MessageHello, decode_hello L),
      (MessageConnect, decode_connect L),
      (MessageDisconnect, decode_disconnect L),
      (MessageHeartbeat, decode_heartbeat L),
      (MessageMonitor, decode_monitor L),
      (MessageCtrl, decode_ctrl L),
      (MessageNodeStatus, decode_node L),
      (MessageNetworkUsageUpdate, decode_bandwidth L),
      (MessageProxyUpdate, decode_proxy_update L),
      (MessageNetworkUpdate, decode_network_update L)]"

end
