(* ===== verification/Protocol_Props.thy ===== *)
theory Protocol_Props
  imports Protocol
begin

text \<open>
  What package \<open>protocol\<close> guarantees on top of a protobuf library with \<open>proto_ok\<close>:
  every payload is read back as it was written, with the bounds on integers and times that this
  needs, decoders only fill structures of the right type, and the one malformed payload that
  crashes a decoder.
\<close>

section \<open>Integers and times\<close>

definition fits_int32 :: "goint \<Rightarrow> bool" where
  "fits_int32 c \<longleftrightarrow> - (2 ^ 31) \<le> sint c \<and> sint c < 2 ^ 31"

definition valid_time :: "gotime \<Rightarrow> bool" where
  "valid_time t \<longleftrightarrow> min_valid_seconds * 1000000000 \<le> t \<and> t < max_valid_seconds * 1000000000"

lemma sint_int32 [simp]: "sint (ucast c :: 32 word) = signed_take_bit 31 (sint (c :: goint))"
proof -
  have "sint (ucast c :: 32 word) = signed_take_bit 31 (uint c)"
    by (simp add: signed_ucast_eq)
  also have "\<dots> = signed_take_bit 31 (sint c)"
    by (simp add: sint_uint [of c])
  finally show ?thesis .
qed

lemma int32_roundtrip: "scast (ucast c :: 32 word) = c \<longleftrightarrow> fits_int32 (c :: goint)"
proof -
  have scast: "sint (scast (x :: 32 word) :: goint) = sint x" for x
    by (rule sint_up_scast) (simp add: is_up.rep_eq)
  have "scast (ucast c :: 32 word) = c \<longleftrightarrow> signed_take_bit 31 (sint c) = sint c"
    by (metis scast sint_int32 signed_word_eqI)
  also have "\<dots> \<longleftrightarrow> fits_int32 c"
    by (simp add: signed_take_bit_int_eq_self_iff fits_int32_def)
  finally show ?thesis .
qed

lemma timestamp_roundtrip:
  assumes "valid_time t"
  shows "\<exists>ts. timestamp_proto t = Some ts \<and> timestamp_time (Some ts) = Some t"
proof -
  have s: "min_valid_seconds \<le> t div 1000000000" "t div 1000000000 < max_valid_seconds"
    using assms by (auto simp: valid_time_def min_valid_seconds_def max_valid_seconds_def)
  then have secs: "sint (word_of_int (t div 1000000000) :: 64 word) = t div 1000000000"
    by (simp add: signed_of_int min_valid_seconds_def max_valid_seconds_def signed_take_bit_int_eq_self)
  have n: "0 \<le> t mod 1000000000" "t mod 1000000000 < 1000000000"
    by simp_all
  then have nanos: "sint (word_of_int (t mod 1000000000) :: 32 word) = t mod 1000000000"
    by (simp add: signed_of_int signed_take_bit_int_eq_self del: pos_mod_sign pos_mod_bound)
  show ?thesis
    using s n by (simp add: timestamp_proto_def timestamp_time_def validate_timestamp_def secs nanos Let_def)
qed

section \<open>One payload at a time\<close>

lemma unmarshal_marshal:
  "proto_ok L \<Longrightarrow> proto_marshal L x = Inr bs \<Longrightarrow> pb_type_of x = t \<Longrightarrow> proto_unmarshal L t bs k = k x"
  by (auto simp: proto_marshal_def proto_unmarshal_def proto_ok_def split: sum.splits)

lemma unmarshal_type: "proto_ok L \<Longrightarrow> unmarshal L t bs = Inr x \<Longrightarrow> pb_type_of x = t"
  by (auto simp: proto_ok_def)

lemma set_value_same [simp]: "set_value v (gtype_of v) = Inr v"
  by (simp add: set_value_def)

lemma set_value_Inr [simp]: "set_value s ty = Inr v \<longleftrightarrow> v = s \<and> gtype_of s = ty"
  by (auto simp: set_value_def)

lemma set_value_not_Panic [simp]: "set_value s ty \<noteq> Inl Panic"
  by (simp add: set_value_def)

text \<open>What survives the trip: the narrowed integers must fit and times must be valid.\<close>

fun transmissible :: "gvalue \<Rightarrow> bool" where
  "transmissible (VNode n) = list_all (\<lambda>t. fits_int32 (pt_copies t)) (pn_tunnels n)"
| "transmissible (VNetworkUpdate u) =
     (case nu_remote_node u of
        None \<Rightarrow> True
      | Some n \<Rightarrow> list_all (\<lambda>t. fits_int32 (pt_copies t)) (pn_tunnels n))"
| "transmissible (VHeartbeat h) = (fits_int32 (hb_hops h) \<and> valid_time (hb_ttl h))"
| "transmissible _ = True"

lemma node_internal_roundtrip:
  assumes "list_all (\<lambda>t. fits_int32 (pt_copies t)) (pn_tunnels n)"
  shows "node_from_internal (node_to_internal n) = n"
proof -
  have "map (\<lambda>t. \<lparr>pt_id = pt_id t, pt_target = pt_target t,
                   pt_copies = scast (ucast (pt_copies t) :: 32 word)\<rparr>) (pn_tunnels n) = pn_tunnels n"
    using assms by (auto simp: list_all_iff int32_roundtrip intro!: map_idI)
  then show ?thesis
    by (simp add: node_from_internal_def node_to_internal_def comp_def)
qed

lemmas encoder_defs = encode_hello_def encode_connect_def encode_disconnect_def
  encode_heartbeat_def encode_monitor_def encode_ctrl_def encode_node_def encode_bandwidth_def
  encode_proxy_update_def encode_network_update_def

lemmas decoder_defs = decode_hello_def decode_connect_def decode_disconnect_def
  decode_heartbeat_def decode_monitor_def decode_ctrl_def decode_node_def decode_bandwidth_def
  decode_proxy_update_def decode_network_update_def

lemma payload_encoders_cases:
  assumes "payload_encoders L msg = Some f"
  obtains "msg = MessageHello" "f = encode_hello L"
  | "msg = MessageConnect" "f = encode_connect L"
  | "msg = MessageDisconnect" "f = encode_disconnect L"
  | "msg = MessageHeartbeat" "f = encode_heartbeat L"
  | "msg = MessageMonitor" "f = encode_monitor L"
  | "msg = MessageCtrl" "f = encode_ctrl L"
  | "msg = MessageNodeStatus" "f = encode_node L"
  | "msg = MessageNetworkUsageUpdate" "f = encode_bandwidth L"
  | "msg = MessageProxyUpdate" "f = encode_proxy_update L"
  | "msg = MessageNetworkUpdate" "f = encode_network_update L"
  using assms by (auto simp: payload_encoders_def split: if_splits)

lemma payload_decoders_cases:
  assumes "payload_decoders L msg = Some g"
  obtains "msg = MessageHello" "g = decode_hello L"
  | "msg = MessageConnect" "g = decode_connect L"
  | "msg = MessageDisconnect" "g = decode_disconnect L"
  | "msg = MessageHeartbeat" "g = decode_heartbeat L"
  | "msg = MessageMonitor" "g = decode_monitor L"
  | "msg = MessageCtrl" "g = decode_ctrl L"
  | "msg = MessageNodeStatus" "g = decode_node L"
  | "msg = MessageNetworkUsageUpdate" "g = decode_bandwidth L"
  | "msg = MessageProxyUpdate" "g = decode_proxy_update L"
  | "msg = MessageNetworkUpdate" "g = decode_network_update L"
  using assms by (auto simp: payload_decoders_def split: if_splits)

lemma payload_decoder_at [simp]:
  "payload_decoders L MessageHello = Some (decode_hello L)"
  "payload_decoders L MessageConnect = Some (decode_connect L)"
  "payload_decoders L MessageDisconnect = Some (decode_disconnect L)"
  "payload_decoders L MessageHeartbeat = Some (decode_heartbeat L)"
  "payload_decoders L MessageMonitor = Some (decode_monitor L)"
  "payload_decoders L MessageCtrl = Some (decode_ctrl L)"
  "payload_decoders L MessageNodeStatus = Some (decode_node L)"
  "payload_decoders L MessageNetworkUsageUpdate = Some (decode_bandwidth L)"
  "payload_decoders L MessageProxyUpdate = Some (decode_proxy_update L)"
  "payload_decoders L MessageNetworkUpdate = Some (decode_network_update L)"
  "payload_decoders L MessageNotify = None"
  by (simp_all add: payload_decoders_def message_ids)

lemma payload_encoder_at [simp]:
  "payload_encoders L MessageHello = Some (encode_hello L)"
  "payload_encoders L MessageConnect = Some (encode_connect L)"
  "payload_encoders L MessageDisconnect = Some (encode_disconnect L)"
  "payload_encoders L MessageHeartbeat = Some (encode_heartbeat L)"
  "payload_encoders L MessageMonitor = Some (encode_monitor L)"
  "payload_encoders L MessageCtrl = Some (encode_ctrl L)"
  "payload_encoders L MessageNodeStatus = Some (encode_node L)"
  "payload_encoders L MessageNetworkUsageUpdate = Some (encode_bandwidth L)"
  "payload_encoders L MessageProxyUpdate = Some (encode_proxy_update L)"
  "payload_encoders L MessageNetworkUpdate = Some (encode_network_update L)"
  "payload_encoders L MessageNotify = None"
  by (simp_all add: payload_encoders_def message_ids)

lemma encode_decode_payload:
  assumes "proto_ok L" and "payload_encoders L msg = Some f" and "f v = Inr bs" and "transmissible v"
  shows "\<exists>g. payload_decoders L msg = Some g \<and> g bs (gtype_of v) = Inr v"
  using assms(2)
proof (cases rule: payload_encoders_cases)
  case 4
  then obtain h ts where v: "v = VHeartbeat h" and ts: "timestamp_proto (hb_ttl h) = Some ts"
    and m: "proto_marshal L (PbHeartbeat \<lparr>pbe_id = hb_id h, pbe_hops = ucast (hb_hops h), pbe_ttl = Some ts\<rparr>) = Inr bs"
    using assms(3) by (auto simp: encode_heartbeat_def split: gvalue.splits option.splits)
  have "timestamp_time (Some ts) = Some (hb_ttl h)"
    using timestamp_roundtrip [of "hb_ttl h"] assms(4) ts by (auto simp: v)
  moreover have "scast (ucast (hb_hops h) :: 32 word) = hb_hops h"
    using assms(4) by (simp add: int32_roundtrip v)
  ultimately show ?thesis
    using 4 v by (simp add: decode_heartbeat_def unmarshal_marshal [OF assms(1) m])
qed (use assms(1,3,4) in \<open>auto simp: encoder_defs decoder_defs unmarshal_marshal node_internal_roundtrip
        split: gvalue.splits option.splits\<close>)

lemma decode_payload_type:
  assumes "payload_decoders L msg = Some g" and "g bs ty = Inr v"
  shows "gtype_of v = ty"
  using assms(1)
  by (cases rule: payload_decoders_cases)
     (use assms(2) in \<open>auto simp: decoder_defs proto_unmarshal_def split: sum.splits pb.splits option.splits\<close>)

lemma decode_payload_panic:
  assumes "proto_ok L" and "payload_decoders L msg = Some g"
  shows "g bs ty = Inl Panic \<longleftrightarrow>
    msg = MessageNetworkUpdate \<and>
    (\<exists>u. unmarshal L TPbNetworkUpdate bs = Inr (PbNetworkUpdate u) \<and> pbu_remote_node u = None)"
  using assms(2)
  by (cases rule: payload_decoders_cases)
     (auto simp: decoder_defs proto_unmarshal_def message_ids
        split: sum.splits pb.splits option.splits dest: unmarshal_type [OF assms(1)])

lemma encode_decode_header:
  assumes "proto_ok L" and "valid_time now" and "encode_header L now (VMessage msg) = Inr bs"
  shows "decode_header L bs THeader = Inr (VHeader \<lparr>hdr_id = msg, hdr_version = Version,
     hdr_sent_at = now, hdr_modules = (if msg = MessageNotify then [] else [ModulePayload])\<rparr>)"
proof -
  obtain ts where ts: "timestamp_proto now = Some ts" "timestamp_time (Some ts) = Some now"
    using timestamp_roundtrip [OF assms(2)] by blast
  then obtain h where "proto_marshal L (PbHeader h) = Inr bs"
    and "pbh_id h = msg" "pbh_version h = Version" "pbh_sent_at h = Some ts"
    and "pbh_modules h = (if msg = MessageNotify then [] else [ModulePayload])"
    using assms(3) by (auto simp: encode_header_def new_header_def Let_def split: if_splits)
  then show ?thesis
    using ts by (simp add: decode_header_def unmarshal_marshal [OF assms(1)] set_value_def)
qed

section \<open>Properties\<close>

text \<open>
  Every payload that the encoder registered for a message id accepts is read back unchanged
  by the decoder registered for that id, provided its hop count and tunnel copies fit in 32 bits
  and its time to live is between the years 1 and 9999.
\<close>

theorem payload_roundtrip:
  assumes "proto_ok L" and "payload_encoders L msg = Some f" and "f v = Inr bs" and "transmissible v"
  shows "\<exists>g. payload_decoders L msg = Some g \<and> protocol_decode bs (gtype_of v) g = Inr v"
  using encode_decode_payload [OF assms] by (simp add: protocol_decode_def)

text \<open>
  C35: A node's tunnels go over the wire as 32 bit copy counts: the node that arrives is the node
  that was sent exactly when every count fits, and otherwise counts are silently reduced.
\<close>

theorem node_copies_narrowed:
  "node_from_internal (node_to_internal n) = n \<longleftrightarrow>
     (\<forall>t \<in> set (pn_tunnels n). - (2 ^ 31) \<le> sint (pt_copies t) \<and> sint (pt_copies t) < 2 ^ 31)"
proof
  assume "node_from_internal (node_to_internal n) = n"
  then have "pn_tunnels (node_from_internal (node_to_internal n)) = pn_tunnels n"
    by simp
  then have "map (\<lambda>t. \<lparr>pt_id = pt_id t, pt_target = pt_target t,
                      pt_copies = scast (ucast (pt_copies t) :: 32 word)\<rparr>) (pn_tunnels n) =
             map (\<lambda>t. t) (pn_tunnels n)"
    by (simp add: node_from_internal_def node_to_internal_def comp_def)
  then have "scast (ucast (pt_copies t) :: 32 word) = pt_copies t" if "t \<in> set (pn_tunnels n)" for t
    using that unfolding map_eq_conv by (metis ptunnel.select_convs(3))
  then show "\<forall>t \<in> set (pn_tunnels n). - (2 ^ 31) \<le> sint (pt_copies t) \<and> sint (pt_copies t) < 2 ^ 31"
    unfolding int32_roundtrip fits_int32_def by blast
next
  assume "\<forall>t \<in> set (pn_tunnels n). - (2 ^ 31) \<le> sint (pt_copies t) \<and> sint (pt_copies t) < 2 ^ 31"
  then show "node_from_internal (node_to_internal n) = n"
    by (intro node_internal_roundtrip) (simp add: list_all_iff fits_int32_def)
qed

text \<open>
  C9: A payload decoder crashes for one input only: a network update without its remote node,
  whose missing node \<open>nodeFromInternal\<close> dereferences. All other malformed input is an
  error, and what a decoder does return has the type of the structure to fill.
\<close>

theorem payload_decoder_safety:
  assumes "proto_ok L" and "payload_decoders L msg = Some g"
  shows "(g bs ty = Inl Panic \<longleftrightarrow>
           msg = MessageNetworkUpdate \<and>
           (\<exists>u. unmarshal L TPbNetworkUpdate bs = Inr (PbNetworkUpdate u) \<and> pbu_remote_node u = None)) \<and>
         (\<forall>v. g bs ty = Inr v \<longrightarrow> gtype_of v = ty)"
  using decode_payload_panic [OF assms] decode_payload_type [OF assms(2)] by blast

section \<open>Witnesses\<close>

definition sent_node :: "goint \<Rightarrow> payload_node" where
  "sent_node copies = \<lparr>pn_id = ''n'', pn_baddr = ''b'', pn_paddr = ''p'', pn_active = True,
     pn_tunnels = [\<lparr>pt_id = ''t'', pt_target = ''a:1'', pt_copies = copies\<rparr>]\<rparr>"

theorem node_copies_narrowed_witness:
  "node_from_internal (node_to_internal (sent_node 7)) = sent_node 7 \<and>
   node_from_internal (node_to_internal (sent_node 4294967297)) \<noteq> sent_node 4294967297"
  unfolding node_copies_narrowed by (simp add: sent_node_def)

text \<open>
  A protobuf library that knows the messages of a table. With distinct encodings it has
  \<open>proto_ok\<close>.
\<close>

definition table_lib :: "(pb \<times> bytes) list \<Rightarrow> codec_lib" where
  "table_lib tab = \<lparr>
     marshal = (\<lambda>x. case map_of tab x of None \<Rightarrow> Inl ''unsupported'' | Some bs \<Rightarrow> Inr bs),
     unmarshal = (\<lambda>t bs. case map_of (map (\<lambda>(x, b). (b, x)) tab) bs of
        None \<Rightarrow> Inl ''malformed''
      | Some x \<Rightarrow> if pb_type_of x = t then Inr x else Inl ''wrong type''),
     json_marshal = (\<lambda>v. Inl ''unsupported''),
     json_unmarshal = (\<lambda>t bs. Inl ''unsupported'')\<rparr>"

lemma table_lib_ok:
  assumes "distinct (map snd tab)"
  shows "proto_ok (table_lib tab)"
proof -
  have "map_of (map (\<lambda>(x, b). (b, x)) tab) bs = Some x" if "map_of tab x = Some bs" for x bs
  proof (rule map_of_is_SomeI)
    show "distinct (keys (map (\<lambda>(x, b). (b, x)) tab))"
      using assms by (simp add: comp_def case_prod_unfold)
    show "(bs, x) \<in> set (map (\<lambda>(x, b). (b, x)) tab)"
      using map_of_SomeD [OF that] by force
  qed
  then show ?thesis
    by (auto simp: proto_ok_def table_lib_def split: option.splits if_splits)
qed

definition demo_update :: pb_network_update where
  "demo_update = \<lparr>pbu_node_id = ''n'', pbu_operation = 1, pbu_remote_node = None\<rparr>"

definition demo_lib :: codec_lib where
  "demo_lib = table_lib [(PbHello ''4884'' ''1080'', [1]), (PbConnect ''host:4885'', [2]),
     (PbNetworkUpdate demo_update, [3])]"

lemma demo_lib_ok: "proto_ok demo_lib"
  unfolding demo_lib_def by (rule table_lib_ok) simp

lemma payload_roundtrip_witness:
  "\<exists>g. payload_decoders demo_lib MessageHello = Some g \<and>
     protocol_decode [1] (gtype_of (VHello \<lparr>he_bport = ''4884'', he_pport = ''1080''\<rparr>)) g =
       Inr (VHello \<lparr>he_bport = ''4884'', he_pport = ''1080''\<rparr>)"
  by (rule payload_roundtrip [OF demo_lib_ok, of MessageHello "encode_hello demo_lib"])
     (simp_all add: encode_hello_def proto_marshal_def demo_lib_def table_lib_def)

theorem payload_decoder_safety_witness:
  "decode_network_update demo_lib [3] TNetworkUpdate = Inl Panic"
proof -
  have "payload_decoders demo_lib MessageNetworkUpdate = Some (decode_network_update demo_lib)"
    by (simp add: payload_decoders_def message_ids)
  moreover have "unmarshal demo_lib TPbNetworkUpdate [3] = Inr (PbNetworkUpdate demo_update)" "pbu_remote_node demo_update = None"
    by (simp_all add: demo_lib_def table_lib_def demo_update_def)
  ultimately show ?thesis
    using payload_decoder_safety [OF demo_lib_ok, of MessageNetworkUpdate "decode_network_update demo_lib" "[3]" TNetworkUpdate]
    by blast
qed

end
