(* ===== verification/Netconn.thy ===== *)
theory Netconn
  imports Packet_Props Protocol
begin

text \<open>
  Package \<open>network\<close> (\<open>network.go\<close>): connections that send and receive packets, and
  the bandwidth accounting of \<open>NetworkIO\<close>. A connection has the byte stream it still has
  to read, the writer it sends to, the flag \<open>running\<close>, the error of a finished consumer
  and the number of consumer goroutines started on it. A socket of the standard library is the
  streams of its two directions; dialing and accepting one may fail with a text.
\<close>

section \<open>Connections\<close>

record config =
  cfg_tags :: tag_set

text \<open>The configuration of every booster connection (\<open>DefaultNetConfig\<close> in booster.go).\<close>

definition default_net_config :: config where
  "default_net_config = \<lparr>cfg_tags = \<lparr>packet_opening_tag = PacketOpeningTag,
     packet_closing_tag = PacketClosingTag, module_opening_tag = ModuleOpeningTag,
     module_closing_tag = ModuleClosingTag, separator = Separator\<rparr>\<rparr>"

record conn =
  c_in :: reader
  c_out :: writer
  c_config :: config
  c_err :: "decode_error option"
  c_running :: bool
  c_consumers :: nat
  c_closed :: bool

datatype conn_error = AlreadyRunning | DecodeError decode_error

definition open_conn :: "reader \<Rightarrow> writer \<Rightarrow> config \<Rightarrow> conn" where
  "open_conn r w cfg = \<lparr>c_in = r, c_out = w, c_config = cfg, c_err = None, c_running = False,
     c_consumers = 0, c_closed = False\<rparr>"

text \<open>
  \<open>Dialer.DialContext\<close> and \<open>Listener.Accept\<close>: what package net returns, a socket
  (with its remote address) or an error, wrapped as a connection with the configuration of the
  dialer or the listener.
\<close>

type_synonym socket = "reader \<times> writer"

definition open_socket :: "config \<Rightarrow> socket \<Rightarrow> conn" where
  "open_socket cfg s = open_conn (fst s) (snd s) cfg"

definition net_dial :: "config \<Rightarrow> string + (socket \<times> string) \<Rightarrow> string + (conn \<times> string)" where
  "net_dial cfg r = (case r of Inl e \<Rightarrow> Inl e | Inr (s, raddr) \<Rightarrow> Inr (open_socket cfg s, raddr))"

definition net_accept :: "config \<Rightarrow> string + socket \<Rightarrow> string + conn" where
  "net_accept cfg r = (case r of Inl e \<Rightarrow> Inl e | Inr s \<Rightarrow> Inr (open_socket cfg s))"

lemma net_dial_Inr [simp]: "net_dial cfg (Inr (s, raddr)) = Inr (open_socket cfg s, raddr)"
  by (simp add: net_dial_def)

lemma net_accept_simps [simp]: "net_accept cfg (Inr s) = Inr (open_socket cfg s)" "net_accept cfg (Inl e) = Inl e"
  by (simp_all add: net_accept_def)

lemma open_socket_pair [simp]: "open_socket cfg (r, w) = open_conn r w cfg"
  by (simp add: open_socket_def)

text \<open>
  \<open>Recv\<close>: \<open>running\<close> is set while the packet is read and reset by the deferred
  function.
\<close>

definition conn_recv :: "(conn, conn_error, packet) step" where
  "conn_recv c =
     (if c_running c then (Inl AlreadyRunning, c)
      else
        let c1 = c\<lparr>c_running := True\<rparr> in
        (case packet_decode (cfg_tags (c_config c1)) new_packet (c_in c1) of
           (Inl e, r) \<Rightarrow> (Inl (DecodeError e), c1\<lparr>c_in := r, c_running := False\<rparr>)
         | (Inr p, r) \<Rightarrow> (Inr p, c1\<lparr>c_in := r, c_running := False\<rparr>)))"

text \<open>
  \<open>Consume\<close> starts a goroutine that reads packets and returns its channel at once; its
  deferred function resets \<open>running\<close> then, and not when the goroutine ends.
\<close>

definition conn_consume :: "(conn, conn_error, unit) step" where
  "conn_consume c =
     (if c_running c then (Inl AlreadyRunning, c)
      else
        let c1 = c\<lparr>c_running := True\<rparr>;
            c2 = c1\<lparr>c_consumers := Suc (c_consumers c1)\<rparr>
        in (Inr (), c2\<lparr>c_running := False\<rparr>))"

text \<open>
  One round of the consumer goroutine: a packet for the channel, or the error that ends it
  and is stored in \<open>Err\<close>.
\<close>

definition consumer_round :: "conn \<Rightarrow> packet option \<times> conn" where
  "consumer_round c =
     (case packet_decode (cfg_tags (c_config c)) new_packet (c_in c) of
        (Inl e, r) \<Rightarrow> (None, c\<lparr>c_in := r, c_err := Some e, c_consumers := c_consumers c - 1\<rparr>)
      | (Inr p, r) \<Rightarrow> (Some p, c\<lparr>c_in := r\<rparr>))"

lemma consumer_round_shorter:
  "consumer_round c = (Some p, c') \<Longrightarrow> length (fst (c_in c')) < length (fst (c_in c))"
  using consumes_shorter [OF consumes_packet_decode]
  by (fastforce simp: consumer_round_def split: prod.splits sum.splits)

text \<open>The goroutine on its own: it ends because every round takes bytes off the stream.\<close>

function consumer_run :: "conn \<Rightarrow> packet list \<times> conn" where
  "consumer_run c =
     (case consumer_round c of
        (None, c') \<Rightarrow> ([], c')
      | (Some p, c') \<Rightarrow> (case consumer_run c' of (ps, c'') \<Rightarrow> (p # ps, c'')))"
  by pat_completeness auto
termination
  by (relation "measure (\<lambda>c. length (fst (c_in c)))")
     (auto intro: consumer_round_shorter [OF sym])

declare consumer_run.simps [simp del]

text \<open>
  \<open>Send\<close> holds the mutex for the whole \<open>Encode\<close>, so sends of several goroutines are
  whole packets one after the other. \<open>ord\<close> is the iteration order of the module map.
\<close>

definition conn_send :: "packet \<Rightarrow> gomodule list \<Rightarrow> (conn, encode_error, unit) step" where
  "conn_send p ord c =
     (case packet_encode (cfg_tags (c_config c)) p ord (c_out c) of
        (res, w) \<Rightarrow> (res, c\<lparr>c_out := w\<rparr>))"

text \<open>After \<open>Close\<close> every read and every write of the connection fails.\<close>

definition conn_close :: "conn \<Rightarrow> conn" where
  "conn_close c =
     c\<lparr>c_closed := True, c_in := ([], ConnErr ''use of closed network connection''),
       c_out := (fst (c_out c), Some 0)\<rparr>"

text \<open>Sending several packets, each with its iteration order; stops at the first error.\<close>

fun send_all :: "(packet \<times> gomodule list) list \<Rightarrow> (conn, encode_error, unit) step" where
  "send_all [] = done_with ()"
| "send_all ((p, ord) # xs) = and_then (conn_send p ord) (\<lambda>_. send_all xs)"

section \<open>NetworkIO\<close>

text \<open>
  \<open>N\<close>, \<open>Bandwidth\<close> (int64) and \<open>t\<close> (int) wrap around at 64 bits. \<open>prev\<close> is
  the variable of the goroutine that \<open>TickerFunc\<close> starts. A copy reports the number of
  bytes that \<open>io.CopyN\<close> moved; a tick publishes a bandwidth once a copy was made.
\<close>

record network_io =
  nio_N :: "64 word"
  nio_bandwidth :: "64 word"
  nio_t :: "64 word"
  nio_prev :: "64 word"

definition nio_start :: "network_io" where
  "nio_start = \<lparr>nio_N = 0, nio_bandwidth = 0, nio_t = 0, nio_prev = 0\<rparr>"

definition ticker_func :: "network_io \<Rightarrow> network_io" where
  "ticker_func b = b\<lparr>nio_prev := nio_N b\<rparr>"

definition copy_n :: "64 word \<Rightarrow> network_io \<Rightarrow> network_io" where
  "copy_n n b = b\<lparr>nio_N := nio_N b + n, nio_t := nio_t b + 1\<rparr>"

definition nio_tick :: "network_io \<Rightarrow> 64 word option \<times> network_io" where
  "nio_tick b =
     (if nio_t b = 0 then (None, b)
      else
        let bw = nio_N b - nio_prev b
        in (Some bw, b\<lparr>nio_prev := nio_prev b + bw, nio_bandwidth := bw\<rparr>))"

datatype nio_event = Copied "64 word" | Tick

text \<open>The bandwidths published over a sequence of events, and the state after it.\<close>

fun nio_run :: "nio_event list \<Rightarrow> network_io \<Rightarrow> 64 word list \<times> network_io" where
  "nio_run [] b = ([], b)"
| "nio_run (Copied n # es) b = nio_run es (copy_n n b)"
| "nio_run (Tick # es) b =
     (case nio_tick b of
        (None, b') \<Rightarrow> nio_run es b'
      | (Some bw, b') \<Rightarrow> (case nio_run es b' of (bws, b'') \<Rightarrow> (bw # bws, b'')))"

fun copied :: "nio_event list \<Rightarrow> 64 word" where
  "copied [] = 0"
| "copied (Copied n # es) = n + copied es"
| "copied (Tick # es) = copied es"

end
