(* ===== verification/Netconn_Props.thy ===== *)
theory Netconn_Props
  imports Netconn
begin

text \<open>
  What package \<open>network\<close> guarantees: with the tags of the protocol the packet format is a
  \<open>progressing_codec\<close>, so packets sent on a connection are consumed by the peer in order;
  what a refused packet does to the stream; the \<open>running\<close> flag; the bandwidth accounting.
\<close>

abbreviation net_tags :: tag_set where
  "net_tags \<equiv> cfg_tags default_net_config"

definition sendable :: "packet \<times> gomodule list \<Rightarrow> bool" where
  "sendable x \<longleftrightarrow> packet_wf (fst x) \<and> iterates (snd x) (fst x) \<and> module_count_ok (fst x)"

lemma net_tags_fit: "tags_fit net_tags"
  by (simp add: tags_fit_def default_net_config_def PacketOpeningTag_def PacketClosingTag_def
      ModuleOpeningTag_def ModuleClosingTag_def Separator_def)

interpretation module_format: progressing_codec "module_bytes net_tags" "module_decode net_tags"
    module_wf "\<lambda>m. m"
  by unfold_locales
     (auto intro: parses_module_decode [OF net_tags_fit] consumes_mono [OF consumes_module_decode])

interpretation packet_format: progressing_codec "\<lambda>x. packet_bytes net_tags (fst x) (snd x)"
    "packet_decode net_tags new_packet" sendable "\<lambda>x. received (fst x) (snd x)"
  by unfold_locales
     (auto simp: sendable_def intro: parses_packet_decode [OF net_tags_fit]
        consumes_mono [OF consumes_packet_decode])

section \<open>Sending and consuming\<close>

definition stream_of :: "(packet \<times> gomodule list) list \<Rightarrow> bytes" where
  "stream_of xs = concat (map (\<lambda>x. packet_bytes net_tags (fst x) (snd x)) xs)"

lemma conn_send_bytes:
  assumes "sendable (p, ord)" and "c_config c = default_net_config" and "c_out c = (out, None)"
  shows "conn_send p ord c = (Inr (), c\<lparr>c_out := (out @ packet_bytes net_tags p ord, None)\<rparr>)"
  using emits_unlimited [OF emits_packet_encode [of p ord net_tags], of out] assms
  by (auto simp: conn_send_def sendable_def)

lemma send_all_bytes:
  assumes "\<forall>x \<in> set xs. sendable x" and "c_config c = default_net_config" and "c_out c = (out, None)"
  shows "send_all xs c = (Inr (), c\<lparr>c_out := (out @ stream_of xs, None)\<rparr>)"
  using assms
proof (induction xs arbitrary: c out rule: send_all.induct)
  case 1
  then have "c\<lparr>c_out := (out, None)\<rparr> = c" by simp
  then show ?case by (simp add: stream_of_def seq_simps)
next
  case (2 p ord xs)
  let ?c = "c\<lparr>c_out := (out @ packet_bytes net_tags p ord, None)\<rparr>"
  have "send_all xs ?c = (Inr (), ?c\<lparr>c_out := ((out @ packet_bytes net_tags p ord) @ stream_of xs, None)\<rparr>)"
    using "2.prems" by (intro "2.IH") auto
  then show ?case
    using "2.prems" by (simp add: seq_simps conn_send_bytes stream_of_def)
qed

lemma consumer_round_packet:
  assumes "sendable x" and "c_config c = default_net_config"
    and "c_in c = (packet_bytes net_tags (fst x) (snd x) @ rest, e)"
  shows "consumer_round c = (Some (received (fst x) (snd x)), c\<lparr>c_in := (rest, e)\<rparr>)"
  using parsesD [OF packet_format.dec_enc [OF assms(1)]] assms(2,3)
  by (simp add: consumer_round_def)

lemma consumer_run_stream:
  assumes "\<forall>x \<in> set xs. sendable x" and "c_config c = default_net_config"
    and "c_in c = (stream_of xs @ rest, e)"
  shows "consumer_run c =
    (map (\<lambda>x. received (fst x) (snd x)) xs @ fst (consumer_run (c\<lparr>c_in := (rest, e)\<rparr>)),
     snd (consumer_run (c\<lparr>c_in := (rest, e)\<rparr>)))"
  using assms
proof (induction xs arbitrary: c)
  case Nil
  then have "c\<lparr>c_in := (rest, e)\<rparr> = c" by (simp add: stream_of_def)
  then show ?case by simp
next
  case (Cons x xs)
  let ?c = "c\<lparr>c_in := (stream_of xs @ rest, e)\<rparr>"
  have "consumer_round c = (Some (received (fst x) (snd x)), ?c)"
    using Cons.prems by (intro consumer_round_packet) (auto simp: stream_of_def)
  moreover have "consumer_run ?c =
    (map (\<lambda>x. received (fst x) (snd x)) xs @ fst (consumer_run (?c\<lparr>c_in := (rest, e)\<rparr>)),
     snd (consumer_run (?c\<lparr>c_in := (rest, e)\<rparr>)))"
    using Cons.prems by (intro Cons.IH) auto
  ultimately show ?case
    by (simp add: consumer_run.simps [of c] split: prod.splits)
qed

text \<open>At the end of the stream the consumer stops with the error of the first read.\<close>

lemma consumer_run_end:
  assumes "c_config c = default_net_config" and "c_in c = ([], EOF)"
  shows "consumer_run c = ([], c\<lparr>c_err := Some (ReadEncoding EOF), c_consumers := c_consumers c - 1\<rparr>)"
proof -
  have "expect_tag tag (Suc n) err ([], EOF) = (Inr (), ([], EOF))" for tag n and err :: "tag_error option \<Rightarrow> decode_error"
    by (simp add: expect_tag_def tag_read_def)
  from this [of _ 3] have "packet_decode net_tags new_packet ([], EOF) = (Inl (ReadEncoding EOF), ([], EOF))"
    by (simp add: packet_decode_def seq_simps io_simps)
  moreover have "c\<lparr>c_in := ([], EOF)\<rparr> = c"
    using assms(2) by simp
  ultimately show ?thesis
    using assms by (simp add: consumer_run.simps [of c] consumer_round_def)
qed

section \<open>The running flag\<close>

text \<open>The connections that the operations can produce, whoever calls them in which order.\<close>

inductive conn_reach :: "conn \<Rightarrow> bool" where
  opened: "conn_reach (open_conn r w cfg)"
| recv: "conn_reach c \<Longrightarrow> conn_reach (snd (conn_recv c))"
| consume: "conn_reach c \<Longrightarrow> conn_reach (snd (conn_consume c))"
| round: "conn_reach c \<Longrightarrow> 0 < c_consumers c \<Longrightarrow> conn_reach (snd (consumer_round c))"
| send: "conn_reach c \<Longrightarrow> conn_reach (snd (conn_send p ord c))"
| close: "conn_reach c \<Longrightarrow> conn_reach (conn_close c)"

lemma conn_reach_idle: "conn_reach c \<Longrightarrow> \<not> c_running c"
  by (induction rule: conn_reach.induct)
     (auto simp: open_conn_def conn_recv_def conn_consume_def consumer_round_def conn_send_def
        conn_close_def Let_def split: prod.splits sum.splits)

section \<open>Bandwidth\<close>

lemma nio_tick_cases:
  obtains "nio_t b = 0" "nio_tick b = (None, b)"
  | bw where "nio_tick b = (Some bw, b\<lparr>nio_prev := nio_prev b + bw, nio_bandwidth := bw\<rparr>)"
      "nio_prev b + bw = nio_N b"
  by (cases "nio_t b = 0") (auto simp: nio_tick_def Let_def)

lemma nio_run_balance:
  "nio_run es b = (bws, b') \<Longrightarrow>
   nio_N b' = nio_N b + copied es \<and> nio_prev b' = nio_prev b + sum_list bws"
proof (induction es arbitrary: b bws)
  case Nil
  then show ?case by simp
next
  case (Cons ev es)
  show ?case
  proof (cases ev)
    case (Copied n)
    then show ?thesis
      using Cons.prems Cons.IH [of "copy_n n b" bws] by (simp add: copy_n_def)
  next
    case Tick
    show ?thesis
    proof (cases rule: nio_tick_cases [of b])
      case 1
      then show ?thesis using Cons.prems Cons.IH [of b bws] Tick by simp
    next
      case (2 bw)
      then obtain bws1 where "bws = bw # bws1"
        and "nio_run es (b\<lparr>nio_prev := nio_prev b + bw, nio_bandwidth := bw\<rparr>) = (bws1, b')"
        using Cons.prems Tick by (auto split: prod.splits)
      then show ?thesis using Cons.IH Tick by fastforce
    qed
  qed
qed

lemma nio_run_append:
  "nio_run (es @ fs) b =
     (case nio_run es b of (bws, b') \<Rightarrow> case nio_run fs b' of (bws', b'') \<Rightarrow> (bws @ bws', b''))"
  by (induction es b rule: nio_run.induct) (auto split: prod.splits option.splits)

section \<open>Properties\<close>

text \<open>
  Packets sent one after the other on a connection reach a consumer at the other end in the
  same order, each with its metadata and its modules, and nothing else does; when the sender
  closes the connection the consumer ends with the error of reading past the end.
\<close>

theorem send_consume:
  assumes "\<forall>x \<in> set xs. sendable x"
  shows "\<exists>bs c' ps c''.
    send_all xs (open_conn r ([], None) default_net_config) = (Inr (), c') \<and> c_out c' = (bs, None) \<and>
    consumer_run (snd (conn_consume (open_conn (bs, EOF) w default_net_config))) = (ps, c'') \<and>
    map pkt_meta ps = map (\<lambda>x. pkt_meta (fst x)) xs \<and>
    map (\<lambda>p. map_of (pkt_modules p)) ps = map (\<lambda>x. map_of (pkt_modules (fst x))) xs \<and>
    c_err c'' = Some (ReadEncoding EOF) \<and> c_consumers c'' = 0"
proof (intro exI conjI)
  let ?c = "snd (conn_consume (open_conn (stream_of xs, EOF) w default_net_config))"
  let ?rs = "map (\<lambda>x. received (fst x) (snd x)) xs"
  show "send_all xs (open_conn r ([], None) default_net_config) =
      (Inr (), (open_conn r ([], None) default_net_config)\<lparr>c_out := (stream_of xs, None)\<rparr>)"
    using assms by (subst send_all_bytes) (auto simp: open_conn_def)
  show "consumer_run ?c =
      (?rs, ?c\<lparr>c_in := ([], EOF), c_err := Some (ReadEncoding EOF), c_consumers := 0\<rparr>)"
    using consumer_run_stream [OF assms, of ?c "[]" EOF] consumer_run_end [of "?c\<lparr>c_in := ([], EOF)\<rparr>"]
    by (simp add: conn_consume_def open_conn_def)
  show "map (\<lambda>p. map_of (pkt_modules p)) ?rs = map (\<lambda>x. map_of (pkt_modules (fst x))) xs"
    using assms received_same_map by (auto simp: sendable_def received_def)
qed (auto simp: received_def)

text \<open>
  After \<open>Send\<close> has refused a packet (one without modules), the next packet on the same
  connection cannot be read by the peer, although its own \<open>Send\<close> reports success: the
  peer takes the opening tag of the good packet for the module count of the refused one.
\<close>

theorem refused_packet_breaks_stream:
  assumes "\<not> module_count_ok q" and "sendable (p, ord)" and "encoding (pkt_meta p) \<noteq> 91"
  shows "\<exists>c1 c2 c3.
    conn_send q ordq (open_conn r ([], None) default_net_config) = (Inl TooManyModules, c1) \<and>
    conn_send p ord c1 = (Inr (), c2) \<and>
    conn_recv (open_conn (fst (c_out c2) @ rest, e) w default_net_config) =
      (Inl (DecodeError (ReadModuleOpenTag (Some (UnexpectedTag 91 (encoding (pkt_meta p)))))), c3)"
proof (intro exI conjI)
  let ?c = "open_conn r ([], None) default_net_config"
  let ?c1 = "?c\<lparr>c_out := (header_bytes net_tags (pkt_meta q), None)\<rparr>"
  let ?bs = "header_bytes net_tags (pkt_meta q) @ packet_bytes net_tags p ord"
  show "conn_send q ordq ?c = (Inl TooManyModules, ?c1)"
    using packet_encode_refused_header [OF assms(1)] by (simp add: conn_send_def open_conn_def)
  show "conn_send p ord ?c1 = (Inr (), ?c1\<lparr>c_out := (?bs, None)\<rparr>)"
    using assms(2) by (intro conn_send_bytes) (auto simp: open_conn_def)
  let ?tl = "drop 2 (packet_bytes net_tags p ord)"
  have hd: "packet_bytes net_tags p ord = 62 # encoding (pkt_meta p) # ?tl"
    by (simp add: packet_bytes_def header_bytes_def default_net_config_def PacketOpeningTag_def
        bytes_of_def byte_of_char_def)
  have "module_decode net_tags (encoding (pkt_meta p) # xs, e) =
      (Inl (ReadModuleOpenTag (Some (UnexpectedTag 91 (encoding (pkt_meta p))))), (xs, e))" for xs
    using expect_tag_mismatch [of "encoding (pkt_meta p)" "CHR ''[''" 2 "[]" ReadModuleOpenTag xs e] assms(3)
    by (simp add: module_decode_def seq_simps default_net_config_def ModuleOpeningTag_def byte_of_char_def)
  then have "modules_decode net_tags 62 pk (encoding (pkt_meta p) # xs, e) =
      (Inl (ReadModuleOpenTag (Some (UnexpectedTag 91 (encoding (pkt_meta p))))), (xs, e))" for pk xs
    using modules_decode.simps(2) [of net_tags 61] by (simp add: seq_simps numeral_eq_Suc)
  then have recv: "conn_recv (open_conn (header_bytes net_tags (pkt_meta q) @ 62 # encoding (pkt_meta p) # tl @ rest, e)
        w default_net_config) =
      (Inl (DecodeError (ReadModuleOpenTag (Some (UnexpectedTag 91 (encoding (pkt_meta p)))))),
       (open_conn (tl @ rest, e) w default_net_config))" for tl
    using packet_decode_header [OF net_tags_fit, of new_packet "pkt_meta q" 62 "encoding (pkt_meta p) # tl @ rest" e]
    by (simp add: conn_recv_def open_conn_def)
  have out: "fst (c_out (?c1\<lparr>c_out := (?bs, None)\<rparr>)) = ?bs"
    by (simp add: open_conn_def)
  have eq: "?bs @ rest = header_bytes net_tags (pkt_meta q) @ 62 # encoding (pkt_meta p) # ?tl @ rest"
    by (subst hd) simp
  show "conn_recv (open_conn (fst (c_out (?c1\<lparr>c_out := (?bs, None)\<rparr>)) @ rest, e) w default_net_config) =
      (Inl (DecodeError (ReadModuleOpenTag (Some (UnexpectedTag 91 (encoding (pkt_meta p)))))),
       (open_conn (?tl @ rest, e) w default_net_config))"
    unfolding out eq by (rule recv)
qed

text \<open>
  The flag that is to keep a connection to one consumer never refuses anybody: whatever was
  called before, \<open>Consume\<close> starts one more consumer and \<open>Recv\<close> reads, also while
  other consumers are reading, because \<open>Consume\<close> resets the flag when it returns and not
  when its goroutine ends.
\<close>

theorem consume_never_refused:
  assumes "conn_reach c"
  shows "conn_consume c = (Inr (), c\<lparr>c_consumers := Suc (c_consumers c)\<rparr>) \<and>
         fst (conn_recv c) \<noteq> Inl AlreadyRunning"
proof -
  have idle: "\<not> c_running c" using assms by (rule conn_reach_idle)
  then have "c\<lparr>c_running := True, c_consumers := Suc (c_consumers c), c_running := False\<rparr> =
             c\<lparr>c_consumers := Suc (c_consumers c)\<rparr>"
    by (cases c) simp
  then show ?thesis
    using idle by (auto simp: conn_consume_def conn_recv_def Let_def split: prod.splits sum.splits)
qed

text \<open>
  C31: The bandwidths that \<open>TickerFunc\<close> publishes add up: after a final tick their sum is
  the number of bytes copied since it was started (in 64 bit arithmetic), whatever the
  interleaving of copies and ticks; before the first copy nothing is published.
\<close>

theorem bandwidth_adds_up:
  "case nio_run (es @ [Tick]) (ticker_func b) of (bws, b') \<Rightarrow>
     nio_N b' = nio_N b + copied es \<and>
     (if nio_t b' = 0 then nio_prev b' = nio_N b + sum_list bws else sum_list bws = copied es)"
proof -
  obtain bws b1 where run: "nio_run es (ticker_func b) = (bws, b1)" by fastforce
  then have "nio_N b1 = nio_N b + copied es" and "nio_prev b1 = nio_N b + sum_list bws"
    using nio_run_balance by (auto simp: ticker_func_def)
  then show ?thesis
    by (auto simp: nio_run_append run nio_tick_def Let_def)
qed

section \<open>Witnesses\<close>

lemma demo_sendable: "sendable (demo_packet, demo_order)"
  using demo_facts by (simp add: sendable_def)

lemma send_consume_witness:
  "\<exists>bs c' ps c''.
    send_all [(demo_packet, demo_order), (demo_packet, demo_order)]
      (open_conn ([], EOF) ([], None) default_net_config) = (Inr (), c') \<and> c_out c' = (bs, None) \<and>
    consumer_run (snd (conn_consume (open_conn (bs, EOF) ([], None) default_net_config))) = (ps, c'') \<and>
    map pkt_meta ps = map (\<lambda>x. pkt_meta (fst x)) [(demo_packet, demo_order), (demo_packet, demo_order)] \<and>
    map (\<lambda>p. map_of (pkt_modules p)) ps =
      map (\<lambda>x. map_of (pkt_modules (fst x))) [(demo_packet, demo_order), (demo_packet, demo_order)] \<and>
    c_err c'' = Some (ReadEncoding EOF) \<and> c_consumers c'' = 0"
  by (rule send_consume) (simp add: demo_sendable)

lemma refused_packet_breaks_stream_witness:
  "\<exists>c1 c2 c3.
    conn_send new_packet [] (open_conn ([], EOF) ([], None) default_net_config) = (Inl TooManyModules, c1) \<and>
    conn_send demo_packet demo_order c1 = (Inr (), c2) \<and>
    conn_recv (open_conn (fst (c_out c2) @ [], EOF) ([], None) default_net_config) =
      (Inl (DecodeError (ReadModuleOpenTag (Some (UnexpectedTag 91 (encoding (pkt_meta demo_packet)))))), c3)"
  by (rule refused_packet_breaks_stream [OF _ demo_sendable])
     (simp_all add: module_count_ok_def new_packet_def demo_packet_def)

lemma consume_never_refused_witness:
  "conn_consume (snd (conn_consume (open_conn ([], EOF) ([], None) default_net_config))) =
     (Inr (), (snd (conn_consume (open_conn ([], EOF) ([], None) default_net_config)))
        \<lparr>c_consumers := Suc (c_consumers (snd (conn_consume (open_conn ([], EOF) ([], None) default_net_config))))\<rparr>) \<and>
   fst (conn_recv (snd (conn_consume (open_conn ([], EOF) ([], None) default_net_config)))) \<noteq> Inl AlreadyRunning"
  by (rule consume_never_refused) (intro conn_reach.intros)

end
