(* ===== verification/Pubsub.thy ===== *)
theory Pubsub
  imports Prelude
begin

text \<open>
  Package \<open>pubsub\<close>, \<open>pubsub.go\<close>: topics with a fixed number of subscriber slots, and
  the operations \<open>Sub\<close>, \<open>Unsub\<close>, \<open>Close\<close> and \<open>Pub\<close>, each of which runs
  under the lock of its topic and is one step here. The goroutines of a single channel
  (\<open>channel.go\<close>) are in \<open>Channel\<close>. The registry is keyed by the SHA-1 of the topic
  name; the hash is an argument \<open>h\<close>, about which nothing is assumed. What a subscriber runs
  is a value of type \<open>'a\<close>.
\<close>

section \<open>State\<close>

record 'a channel =
  chan_id :: nat
  chan_active :: bool
  chan_run :: 'a

record 'a topic =
  topic_id :: string
  topic_name :: string
  topic_chs :: "'a channel option list"

record 'a pubsub =
  max_subs :: int
  registry :: "(string \<times> 'a topic) list"
  next_chan :: nat

record 'a command =
  cmd_topic :: string
  cmd_run :: "'a option"

datatype pubsub_error =
    NoTopic
  | NoRun
  | TopicNotFound string
  | TooManySubscribers
  | IndexOutOfRange int
  | NilChannel int

definition new_pubsub :: "'a pubsub" where
  "new_pubsub = \<lparr>max_subs = 20, registry = [], next_chan = 0\<rparr>"

section \<open>Operations\<close>

definition ps_topic :: "(string \<Rightarrow> string) \<Rightarrow> 'a pubsub \<Rightarrow> string \<Rightarrow> pubsub_error + 'a topic" where
  "ps_topic h ps name =
     (case map_of (registry ps) (h name) of None \<Rightarrow> Inl (TopicNotFound name) | Some t \<Rightarrow> Inr t)"

text \<open>The first nil entry of a topic's channels.\<close>

fun find_free :: "'a option list \<Rightarrow> nat option" where
  "find_free [] = None"
| "find_free (None # xs) = Some 0"
| "find_free (Some x # xs) = map_option Suc (find_free xs)"

definition store_topic :: "(string \<Rightarrow> string) \<Rightarrow> string \<Rightarrow> 'a topic \<Rightarrow> 'a pubsub \<Rightarrow> 'a pubsub" where
  "store_topic h name t ps = ps\<lparr>registry := AList.update (h name) t (registry ps)\<rparr>"

text \<open>
  \<open>Sub\<close> returns the slot; the cancel function it returns is \<open>Unsub\<close> of that slot and
  topic. \<open>make\<close> panics for a negative \<open>MaxSubs\<close>. The new channel is active once
  \<open>run\<close> has returned.
\<close>

definition ps_sub ::
    "(string \<Rightarrow> string) \<Rightarrow> 'a command \<Rightarrow> ('a pubsub, pubsub_error stop, nat) step" where
  "ps_sub h cmd ps =
     (if cmd_topic cmd = '''' then (Inl (Error NoTopic), ps)
      else case cmd_run cmd of
        None \<Rightarrow> (Inl (Error NoRun), ps)
      | Some run \<Rightarrow>
         (let tname = cmd_topic cmd in
          (case ps_topic h ps tname of
             Inl _ \<Rightarrow>
               if max_subs ps < 0 then (Inl Panic, ps)
               else
                 (let t = \<lparr>topic_id = h tname, topic_name = tname,
                           topic_chs = replicate (nat (max_subs ps)) None\<rparr>
                  in case find_free (topic_chs t) of
                       None \<Rightarrow> (Inl (Error TooManySubscribers), store_topic h tname t ps)
                     | Some i \<Rightarrow>
                         (Inr i, (store_topic h tname (t\<lparr>topic_chs := (topic_chs t)[i :=
                            Some \<lparr>chan_id = next_chan ps, chan_active = True, chan_run = run\<rparr>]\<rparr>) ps)
                              \<lparr>next_chan := Suc (next_chan ps)\<rparr>))
           | Inr t \<Rightarrow>
               (case find_free (topic_chs t) of
                  None \<Rightarrow> (Inl (Error TooManySubscribers), ps)
                | Some i \<Rightarrow>
                    (Inr i, (store_topic h tname (t\<lparr>topic_chs := (topic_chs t)[i :=
                       Some \<lparr>chan_id = next_chan ps, chan_active = True, chan_run = run\<rparr>]\<rparr>) ps)
                         \<lparr>next_chan := Suc (next_chan ps)\<rparr>)))))"

text \<open>
  \<open>Unsub\<close>. The guard lets \<open>index = len(t.chs)\<close> through, and indexing the slice then
  panics. Stopping the channel needs no result: the slot is cleared in any case.
\<close>

definition ps_unsub ::
    "(string \<Rightarrow> string) \<Rightarrow> int \<Rightarrow> string \<Rightarrow> ('a pubsub, pubsub_error stop, unit) step" where
  "ps_unsub h index name ps =
     (case ps_topic h ps name of
        Inl e \<Rightarrow> (Inl (Error e), ps)
      | Inr t \<Rightarrow>
          if index < 0 \<or> index > int (length (topic_chs t)) then (Inl (Error (IndexOutOfRange index)), ps)
          else if index = int (length (topic_chs t)) then (Inl Panic, ps)
          else (case topic_chs t ! nat index of
                  None \<Rightarrow> (Inl (Error (NilChannel index)), ps)
                | Some _ \<Rightarrow>
                    (Inr (), store_topic h name (t\<lparr>topic_chs := (topic_chs t)[nat index := None]\<rparr>) ps)))"

definition ps_close :: "(string \<Rightarrow> string) \<Rightarrow> string \<Rightarrow> ('a pubsub, pubsub_error stop, unit) step" where
  "ps_close h name ps =
     (case ps_topic h ps name of
        Inl e \<Rightarrow> (Inl (Error e), ps)
      | Inr t \<Rightarrow> (Inr (), ps\<lparr>registry := AList.delete (h name) (registry ps)\<rparr>))"

text \<open>
  \<open>Pub\<close> hands the message to the active channels of the topic, in slot order; the result
  is the list of receivers.
\<close>

definition ps_pub :: "(string \<Rightarrow> string) \<Rightarrow> string \<Rightarrow> 'a pubsub \<Rightarrow> (nat \<times> 'a) list" where
  "ps_pub h name ps =
     (case ps_topic h ps name of
        Inl _ \<Rightarrow> []
      | Inr t \<Rightarrow> map (\<lambda>c. (chan_id c, chan_run c))
                   (filter chan_active (map the (filter (\<lambda>c. c \<noteq> None) (topic_chs t)))))"

text \<open>
  A receiver that does not take a message for a second: its channel stops itself
  (\<open>channel.run\<close>), which makes it inactive and leaves its slot as it is.
\<close>

definition ps_timeout :: "(string \<Rightarrow> string) \<Rightarrow> nat \<Rightarrow> string \<Rightarrow> 'a pubsub \<Rightarrow> 'a pubsub" where
  "ps_timeout h i name ps =
     (case ps_topic h ps name of
        Inl _ \<Rightarrow> ps
      | Inr t \<Rightarrow>
          if i < length (topic_chs t) then
            store_topic h name (t\<lparr>topic_chs := (topic_chs t)[i :=
              map_option (\<lambda>c. c\<lparr>chan_active := False\<rparr>) (topic_chs t ! i)]\<rparr>) ps
          else ps)"

section \<open>The interface\<close>

text \<open>
  What users of the \<open>PubSub\<close> interface rely on: a subscription takes a free slot of its
  topic and keeps it until that slot is cancelled; nothing else changes. \<open>slots\<close> is the
  provider's abstraction: which subscriber sits in which slot of which topic key.
\<close>

datatype 'c bus_op = Subscribe 'c string | Cancel nat string

locale subscription_bus =
  fixes key :: "string \<Rightarrow> 'k"
    and slots :: "'p \<Rightarrow> 'k \<Rightarrow> nat \<Rightarrow> 'c option"
    and subscribe :: "'c \<Rightarrow> string \<Rightarrow> ('p, 'e, nat) step"
    and cancel :: "nat \<Rightarrow> string \<Rightarrow> ('p, 'e, unit) step"
    and inv :: "'p \<Rightarrow> bool"
  assumes subscribe_ok: "inv p \<Longrightarrow> subscribe c t p = (Inr i, p') \<Longrightarrow>
      slots p (key t) i = None \<and> slots p' = (slots p)(key t := (slots p (key t))(i \<mapsto> c))"
    and subscribe_refused: "inv p \<Longrightarrow> subscribe c t p = (Inl e, p') \<Longrightarrow> slots p' = slots p"
    and cancel_ok: "inv p \<Longrightarrow> cancel i t p = (Inr (), p') \<Longrightarrow>
      slots p (key t) i \<noteq> None \<and> slots p' = (slots p)(key t := (slots p (key t))(i := None))"
    and cancel_refused: "inv p \<Longrightarrow> cancel i t p = (Inl e, p') \<Longrightarrow> slots p' = slots p"
    and subscribe_inv: "inv p \<Longrightarrow> inv (snd (subscribe c t p))"
    and cancel_inv: "inv p \<Longrightarrow> inv (snd (cancel i t p))"
begin

fun bus_step :: "'c bus_op \<Rightarrow> 'p \<Rightarrow> 'p" where
  "bus_step (Subscribe c t) p = snd (subscribe c t p)"
| "bus_step (Cancel i t) p = snd (cancel i t p)"

lemma bus_step_inv: "inv p \<Longrightarrow> inv (bus_step x p)"
  by (cases x) (auto intro: subscribe_inv cancel_inv)

lemma bus_step_keeps:
  assumes "inv p" and "slots p k i = Some c" and "\<forall>t. key t = k \<longrightarrow> x \<noteq> Cancel i t"
  shows "slots (bus_step x p) k i = Some c"
proof (cases x)
  case (Subscribe d t)
  obtain r p' where r: "subscribe d t p = (r, p')" by fastforce
  show ?thesis
  proof (cases r)
    case (Inl e)
    then show ?thesis using subscribe_refused [OF assms(1)] r assms(2) Subscribe by simp
  next
    case (Inr j)
    then show ?thesis using subscribe_ok [OF assms(1)] r assms(2) Subscribe by fastforce
  qed
next
  case (Cancel j t)
  obtain r p' where r: "cancel j t p = (r, p')" by fastforce
  show ?thesis
  proof (cases r)
    case (Inl e)
    then show ?thesis using cancel_refused [OF assms(1)] r assms(2) Cancel by simp
  next
    case (Inr u)
    then show ?thesis using cancel_ok [OF assms(1)] r assms(2,3) Cancel by fastforce
  qed
qed

lemma subscription_persists:
  assumes "inv p" and "slots p k i = Some c" and "\<forall>x \<in> set xs. \<forall>t. key t = k \<longrightarrow> x \<noteq> Cancel i t"
  shows "slots (fold bus_step xs p) k i = Some c"
  using assms
  by (induction xs arbitrary: p) (auto simp: bus_step_inv bus_step_keeps)

lemma subscribed_until_cancelled:
  assumes "inv p" and "subscribe c t p = (Inr i, p')"
    and "\<forall>x \<in> set xs. \<forall>t'. key t' = key t \<longrightarrow> x \<noteq> Cancel i t'"
  shows "slots (fold bus_step xs p') (key t) i = Some c"
proof (rule subscription_persists [OF _ _ assms(3)])
  show "inv p'" using subscribe_inv [OF assms(1), of c t] assms(2) by simp
  show "slots p' (key t) i = Some c" using subscribe_ok [OF assms(1,2)] by simp
qed

lemma distinct_slots:
  assumes "inv p" and "slots p (key t) j = Some d" and "subscribe c t p = (Inr i, p')"
  shows "i \<noteq> j"
  using subscribe_ok [OF assms(1,3)] assms(2) by auto

end

end
