(* ===== verification/Pubsub_Props.thy ===== *)
theory Pubsub_Props
  imports Pubsub
begin

text \<open>
  What package \<open>pubsub\<close> guarantees: the well-formedness invariant of the registry, the
  exact effect of \<open>Sub\<close>, \<open>Unsub\<close>, \<open>Close\<close> and \<open>Pub\<close> on the
  subscriber slots, and the interpretation of the \<open>subscription_bus\<close> interface. The slots
  of a topic, seen as a partial function, are the abstract state.
\<close>

section \<open>The abstract state\<close>

definition slot_chan :: "'a pubsub \<Rightarrow> string \<Rightarrow> nat \<Rightarrow> 'a channel option" where
  "slot_chan ps k i =
     (case map_of (registry ps) k of
        None \<Rightarrow> None
      | Some t \<Rightarrow> if i < length (topic_chs t) then topic_chs t ! i else None)"

definition ps_slots :: "'a pubsub \<Rightarrow> string \<Rightarrow> nat \<Rightarrow> 'a option" where
  "ps_slots ps k i = map_option chan_run (slot_chan ps k i)"

definition topic_wf :: "(string \<Rightarrow> string) \<Rightarrow> 'a pubsub \<Rightarrow> string \<Rightarrow> 'a topic \<Rightarrow> bool" where
  "topic_wf h ps k t \<longleftrightarrow>
     length (topic_chs t) = nat (max_subs ps) \<and> topic_id t = k \<and> h (topic_name t) = k \<and>
     (\<forall>c \<in> set (topic_chs t). \<forall>ch. c = Some ch \<longrightarrow> chan_id ch < next_chan ps)"

definition ps_wf :: "(string \<Rightarrow> string) \<Rightarrow> 'a pubsub \<Rightarrow> bool" where
  "ps_wf h ps \<longleftrightarrow>
     0 \<le> max_subs ps \<and> distinct (keys (registry ps)) \<and>
     (\<forall>(k, t) \<in> set (registry ps). topic_wf h ps k t)"

definition all_active :: "'a pubsub \<Rightarrow> bool" where
  "all_active ps \<longleftrightarrow> (\<forall>k i c. slot_chan ps k i = Some c \<longrightarrow> chan_active c)"

section \<open>Lemmas\<close>

lemma find_free_Some:
  "find_free xs = Some i \<Longrightarrow> i < length xs \<and> xs ! i = None \<and> (\<forall>j < i. xs ! j \<noteq> None)"
  by (induction xs arbitrary: i rule: find_free.induct)
     (auto simp: nth_Cons split: nat.splits)

lemma find_free_None: "find_free xs = None \<Longrightarrow> j < length xs \<Longrightarrow> xs ! j \<noteq> None"
  by (induction xs arbitrary: j rule: find_free.induct) (auto simp: nth_Cons split: nat.splits)

lemma registry_store [simp]: "registry (store_topic h name t ps) = AList.update (h name) t (registry ps)"
  by (simp add: store_topic_def)

lemma max_subs_store [simp]: "max_subs (store_topic h name t ps) = max_subs ps"
  by (simp add: store_topic_def)

lemma next_chan_store [simp]: "next_chan (store_topic h name t ps) = next_chan ps"
  by (simp add: store_topic_def)

lemma slot_chan_next [simp]: "slot_chan (ps\<lparr>next_chan := n\<rparr>) = slot_chan ps"
  by (intro ext) (simp add: slot_chan_def)

lemma slot_chan_store:
  "slot_chan (store_topic h name t ps) k i =
     (if k = h name then (if i < length (topic_chs t) then topic_chs t ! i else None)
      else slot_chan ps k i)"
  by (simp add: slot_chan_def update_conv')

lemma store_topic_next: "(store_topic h name t ps)\<lparr>next_chan := n\<rparr> = store_topic h name t (ps\<lparr>next_chan := n\<rparr>)"
  by (cases ps) (simp add: store_topic_def)

text \<open>The topic \<open>Sub\<close> works on: the registered one, or the one it creates.\<close>

definition topic_for :: "(string \<Rightarrow> string) \<Rightarrow> 'a pubsub \<Rightarrow> string \<Rightarrow> 'a topic" where
  "topic_for h ps name =
     (case map_of (registry ps) (h name) of
        Some t \<Rightarrow> t
      | None \<Rightarrow> \<lparr>topic_id = h name, topic_name = name, topic_chs = replicate (nat (max_subs ps)) None\<rparr>)"

lemma map_of_wf: "ps_wf h ps \<Longrightarrow> map_of (registry ps) k = Some t \<Longrightarrow> topic_wf h ps k t"
  by (fastforce simp: ps_wf_def dest: map_of_SomeD)

lemma topic_for_wf: "ps_wf h ps \<Longrightarrow> topic_wf h ps (h name) (topic_for h ps name)"
  by (cases "map_of (registry ps) (h name)") (simp_all add: topic_for_def map_of_wf, simp add: topic_wf_def)

lemma slot_chan_topic_for:
  "slot_chan ps (h name) i =
     (if i < length (topic_chs (topic_for h ps name)) then topic_chs (topic_for h ps name) ! i else None)"
  by (auto simp: slot_chan_def topic_for_def split: option.splits)

lemma length_topic_for: "ps_wf h ps \<Longrightarrow> length (topic_chs (topic_for h ps name)) = nat (max_subs ps)"
  using topic_for_wf by (auto simp: topic_wf_def)

lemma store_same_topic:
  "map_of (registry ps) (h name) = Some t \<Longrightarrow> slot_chan (store_topic h name t ps) = slot_chan ps"
  by (intro ext) (simp add: slot_chan_store, simp add: slot_chan_def)

lemma store_fresh_topic:
  "slot_chan (store_topic h name (topic_for h ps name) ps) = slot_chan ps"
  by (intro ext) (simp add: slot_chan_store slot_chan_topic_for)

lemma ps_wf_store:
  assumes "ps_wf h ps" and "topic_wf h ps (h name) t"
  shows "ps_wf h (store_topic h name t ps)"
proof -
  have "topic_wf h (store_topic h name t ps) = topic_wf h ps"
    by (intro ext) (simp add: topic_wf_def)
  moreover have "\<forall>(k, u) \<in> set (AList.update (h name) t (registry ps)). topic_wf h ps k u"
  proof (safe)
    fix k u assume "(k, u) \<in> set (AList.update (h name) t (registry ps))"
    then have "map_of (AList.update (h name) t (registry ps)) k = Some u"
      using assms(1) by (simp add: ps_wf_def)
    then show "topic_wf h ps k u"
      using assms map_of_wf [OF assms(1)] by (auto simp: update_conv' split: if_splits)
  qed
  ultimately show ?thesis
    using assms(1) by (simp add: ps_wf_def)
qed

lemma ps_wf_next: "ps_wf h ps \<Longrightarrow> n \<ge> next_chan ps \<Longrightarrow> ps_wf h (ps\<lparr>next_chan := n\<rparr>)"
  by (fastforce simp: ps_wf_def topic_wf_def)

section \<open>\<open>Sub\<close>\<close>

text \<open>One equation for both cases of \<open>Sub\<close>: known topic and new topic.\<close>

definition subscribed :: "(string \<Rightarrow> string) \<Rightarrow> string \<Rightarrow> 'a \<Rightarrow> nat \<Rightarrow> 'a pubsub \<Rightarrow> 'a pubsub" where
  "subscribed h name run i ps =
     (let t = topic_for h ps name in
      (store_topic h name (t\<lparr>topic_chs := (topic_chs t)[i :=
         Some \<lparr>chan_id = next_chan ps, chan_active = True, chan_run = run\<rparr>]\<rparr>) ps)
         \<lparr>next_chan := Suc (next_chan ps)\<rparr>)"

lemma ps_sub_cases:
  assumes "cmd_topic cmd \<noteq> ''''" and "cmd_run cmd = Some run" and "0 \<le> max_subs ps"
  obtains i where "find_free (topic_chs (topic_for h ps (cmd_topic cmd))) = Some i"
      and "ps_sub h cmd ps = (Inr i, subscribed h (cmd_topic cmd) run i ps)"
  | ps' where "find_free (topic_chs (topic_for h ps (cmd_topic cmd))) = None"
      and "ps_sub h cmd ps = (Inl (Error TooManySubscribers), ps')"
      and "ps' = ps \<or> ps' = store_topic h (cmd_topic cmd) (topic_for h ps (cmd_topic cmd)) ps"
  using assms
  by (cases "find_free (topic_chs (topic_for h ps (cmd_topic cmd)))")
     (auto simp: ps_sub_def ps_topic_def topic_for_def subscribed_def Let_def split: option.splits)

lemma slot_chan_subscribed:
  assumes "find_free (topic_chs (topic_for h ps name)) = Some i"
  shows "slot_chan (subscribed h name run i ps) =
    (slot_chan ps)(h name := (slot_chan ps (h name))
       (i \<mapsto> \<lparr>chan_id = next_chan ps, chan_active = True, chan_run = run\<rparr>))"
  using find_free_Some [OF assms]
  by (intro ext) (auto simp: subscribed_def Let_def slot_chan_store slot_chan_topic_for nth_list_update)

lemma subscribed_wf:
  assumes "ps_wf h ps"
  shows "ps_wf h (subscribed h name run i ps)"
proof -
  let ?ps = "ps\<lparr>next_chan := Suc (next_chan ps)\<rparr>" and ?t = "topic_for h ps name"
  let ?u = "?t\<lparr>topic_chs := (topic_chs ?t)[i :=
     Some \<lparr>chan_id = next_chan ps, chan_active = True, chan_run = run\<rparr>]\<rparr>"
  have "topic_wf h ps (h name) ?t" by (rule topic_for_wf [OF assms])
  then have "topic_wf h ?ps (h name) ?u"
    by (auto simp: topic_wf_def dest!: set_update_subset_insert [THEN subsetD] intro: less_SucI)
  with ps_wf_next [OF assms, of "Suc (next_chan ps)"] have "ps_wf h (store_topic h name ?u ?ps)"
    by (intro ps_wf_store) auto
  then show ?thesis by (simp add: subscribed_def Let_def store_topic_next)
qed

lemma ps_sub_wf [wf_intros]:
  assumes "ps_wf h ps"
  shows "ps_wf h (snd (ps_sub h cmd ps))"
proof (cases "cmd_topic cmd = '''' \<or> cmd_run cmd = None")
  case True
  then show ?thesis using assms by (auto simp: ps_sub_def)
next
  case False
  then obtain run where run: "cmd_run cmd = Some run" and ne: "cmd_topic cmd \<noteq> ''''" by auto
  have "0 \<le> max_subs ps" using assms by (simp add: ps_wf_def)
  have "ps_wf h (store_topic h (cmd_topic cmd) (topic_for h ps (cmd_topic cmd)) ps)"
    by (rule ps_wf_store [OF assms topic_for_wf [OF assms]])
  with subscribed_wf [OF assms] ps_sub_cases [OF ne run \<open>0 \<le> max_subs ps\<close>, of h] assms
  show ?thesis by (metis snd_conv)
qed

section \<open>\<open>Unsub\<close>, \<open>Close\<close>, timeouts\<close>

lemma ps_unsub_slot:
  assumes "ps_wf h ps" and "i < nat (max_subs ps)" and "slot_chan ps (h name) i = Some c"
  shows "\<exists>ps'. ps_unsub h (int i) name ps = (Inr (), ps') \<and> ps_wf h ps' \<and>
     slot_chan ps' = (slot_chan ps)(h name := (slot_chan ps (h name))(i := None))"
proof -
  obtain t where t: "map_of (registry ps) (h name) = Some t" and i: "i < length (topic_chs t)"
      and c: "topic_chs t ! i = Some c"
    using assms(3) by (auto simp: slot_chan_def split: option.splits if_splits)
  let ?u = "t\<lparr>topic_chs := (topic_chs t)[i := None]\<rparr>"
  have "topic_wf h ps (h name) t" by (rule map_of_wf [OF assms(1) t])
  then have "topic_wf h ps (h name) ?u"
    by (auto simp: topic_wf_def dest!: set_update_subset_insert [THEN subsetD])
  then have "ps_wf h (store_topic h name ?u ps)" by (rule ps_wf_store [OF assms(1)])
  moreover have "slot_chan (store_topic h name ?u ps) =
      (slot_chan ps)(h name := (slot_chan ps (h name))(i := None))"
    using i t by (intro ext) (auto simp: slot_chan_store slot_chan_def nth_list_update update_conv')
  ultimately show ?thesis
    using t i c by (auto simp: ps_unsub_def ps_topic_def)
qed

lemma ps_unsub_nil:
  assumes "slot_chan ps (h name) i = None"
  shows "\<exists>e. ps_unsub h (int i) name ps = (Inl e, ps)"
  using assms
  by (auto simp: ps_unsub_def ps_topic_def slot_chan_def split: option.splits if_splits)

lemma slot_chan_bound: "ps_wf h ps \<Longrightarrow> slot_chan ps k i = Some c \<Longrightarrow> i < nat (max_subs ps)"
  using map_of_wf by (fastforce simp: slot_chan_def topic_wf_def split: option.splits if_splits)

lemma ps_unsub_wf [wf_intros]:
  assumes "ps_wf h ps"
  shows "ps_wf h (snd (ps_unsub h index name ps))"
proof (cases "map_of (registry ps) (h name)")
  case None
  then show ?thesis using assms by (simp add: ps_unsub_def ps_topic_def)
next
  case (Some t)
  have "topic_wf h ps (h name) t" by (rule map_of_wf [OF assms Some])
  then have "topic_wf h ps (h name) (t\<lparr>topic_chs := (topic_chs t)[nat index := None]\<rparr>)"
    by (auto simp: topic_wf_def dest!: set_update_subset_insert [THEN subsetD])
  then show ?thesis
    using assms Some by (auto simp: ps_unsub_def ps_topic_def ps_wf_store split: option.splits)
qed

lemma ps_close_wf [wf_intros]:
  assumes "ps_wf h ps"
  shows "ps_wf h (snd (ps_close h name ps))"
proof -
  have "topic_wf h (ps\<lparr>registry := r\<rparr>) = topic_wf h ps" for r
    by (intro ext) (simp add: topic_wf_def)
  moreover have "set (AList.delete (h name) (registry ps)) \<subseteq> set (registry ps)"
    by (auto simp: AList.delete_eq)
  ultimately show ?thesis
    using assms by (auto simp: ps_close_def ps_wf_def split: sum.splits)
qed

lemma ps_timeout_wf [wf_intros]:
  assumes "ps_wf h ps"
  shows "ps_wf h (ps_timeout h i name ps)"
proof (cases "map_of (registry ps) (h name)")
  case None
  then show ?thesis using assms by (simp add: ps_timeout_def ps_topic_def)
next
  case (Some t)
  let ?v = "map_option (\<lambda>c. c\<lparr>chan_active := False\<rparr>) (topic_chs t ! i)"
  show ?thesis
  proof (cases "i < length (topic_chs t)")
    case True
    have wf: "topic_wf h ps (h name) t" by (rule map_of_wf [OF assms Some])
    have "Some ch = ?v \<Longrightarrow> chan_id ch < next_chan ps" for ch
      using wf nth_mem [OF True] by (cases "topic_chs t ! i") (auto simp: topic_wf_def)
    then have "topic_wf h ps (h name) (t\<lparr>topic_chs := (topic_chs t)[i := ?v]\<rparr>)"
      using wf by (auto simp: topic_wf_def dest!: set_update_subset_insert [THEN subsetD])
    then show ?thesis
      using assms Some True by (simp add: ps_timeout_def ps_topic_def ps_wf_store)
  next
    case False
    then show ?thesis using assms Some by (simp add: ps_timeout_def ps_topic_def)
  qed
qed

lemma slot_chan_timeout:
  "slot_chan (ps_timeout h i name ps) =
     (slot_chan ps)(h name := (slot_chan ps (h name))
        (i := map_option (\<lambda>c. c\<lparr>chan_active := False\<rparr>) (slot_chan ps (h name) i)))"
  by (intro ext)
     (auto simp: ps_timeout_def ps_topic_def slot_chan_def update_conv' nth_list_update store_topic_def
           split: option.splits)

section \<open>\<open>Pub\<close>\<close>

lemma in_ps_pub:
  "(n, run) \<in> set (ps_pub h name ps) \<longleftrightarrow>
     (\<exists>i c. slot_chan ps (h name) i = Some c \<and> chan_active c \<and> chan_id c = n \<and> chan_run c = run)"
  (is "?l \<longleftrightarrow> ?r")
proof
  assume ?l
  then obtain t c where t: "map_of (registry ps) (h name) = Some t" and c: "Some c \<in> set (topic_chs t)"
      "chan_active c" "chan_id c = n" "chan_run c = run"
    by (auto simp: ps_pub_def ps_topic_def split: option.splits)
  from c(1) obtain i where "i < length (topic_chs t)" "topic_chs t ! i = Some c"
    by (metis in_set_conv_nth)
  then show ?r using t c by (auto simp: slot_chan_def intro!: exI [of _ i])
next
  assume ?r
  then obtain t i c where t: "map_of (registry ps) (h name) = Some t" and i: "i < length (topic_chs t)"
      and c: "topic_chs t ! i = Some c" "chan_active c" "chan_id c = n" "chan_run c = run"
    by (auto simp: slot_chan_def split: option.splits if_splits)
  from i c(1) have "Some c \<in> set (topic_chs t)" by (metis nth_mem)
  then show ?l using t c by (force simp: ps_pub_def ps_topic_def)
qed

section \<open>The interface, provided\<close>

abbreviation sub_run :: "(string \<Rightarrow> string) \<Rightarrow> 'a \<Rightarrow> string \<Rightarrow> ('a pubsub, pubsub_error stop, nat) step" where
  "sub_run h run name \<equiv> ps_sub h \<lparr>cmd_topic = name, cmd_run = Some run\<rparr>"

abbreviation unsub_slot :: "(string \<Rightarrow> string) \<Rightarrow> nat \<Rightarrow> string \<Rightarrow> ('a pubsub, pubsub_error stop, unit) step" where
  "unsub_slot h i name \<equiv> ps_unsub h (int i) name"

text \<open>The result of \<open>Sub\<close> for a command with a run function.\<close>

lemma sub_run_cases:
  assumes "ps_wf h ps"
  shows "case sub_run h run name ps of
      (Inr i, ps') \<Rightarrow> name \<noteq> '''' \<and> i < nat (max_subs ps) \<and> slot_chan ps (h name) i = None \<and>
         (\<forall>j < i. slot_chan ps (h name) j \<noteq> None) \<and>
         slot_chan ps' = (slot_chan ps)(h name := (slot_chan ps (h name))
           (i \<mapsto> \<lparr>chan_id = next_chan ps, chan_active = True, chan_run = run\<rparr>))
    | (Inl e, ps') \<Rightarrow> slot_chan ps' = slot_chan ps \<and>
         (if name = '''' then e = Error NoTopic
          else e = Error TooManySubscribers \<and> (\<forall>j < nat (max_subs ps). slot_chan ps (h name) j \<noteq> None))"
proof (cases "name = ''''")
  case True
  then show ?thesis by (simp add: ps_sub_def)
next
  case False
  let ?cmd = "\<lparr>cmd_topic = name, cmd_run = Some run\<rparr>" and ?chs = "topic_chs (topic_for h ps name)"
  have pre: "cmd_topic ?cmd \<noteq> ''''" "cmd_run ?cmd = Some run" "0 \<le> max_subs ps"
    using False assms by (simp_all add: ps_wf_def)
  note len = length_topic_for [OF assms, of name]
  show ?thesis
  proof (cases rule: ps_sub_cases [OF pre, of h])
    case (1 i)
    then have free: "find_free ?chs = Some i" by simp
    show ?thesis
      using 1 False find_free_Some [OF free] len slot_chan_subscribed [OF free, of run]
      by (simp add: slot_chan_topic_for)
  next
    case (2 ps')
    have "slot_chan ps' = slot_chan ps" using 2(3) store_fresh_topic by auto
    moreover have "\<forall>j < nat (max_subs ps). slot_chan ps (h name) j \<noteq> None"
      using 2(1) len find_free_None [of ?chs] by (simp add: slot_chan_topic_for)
    ultimately show ?thesis using 2(2) False by simp
  qed
qed

lemma unsub_slot_cases:
  assumes "ps_wf h ps"
  shows "case unsub_slot h i name ps of
      (Inr u, ps') \<Rightarrow> slot_chan ps (h name) i \<noteq> None \<and>
         slot_chan ps' = (slot_chan ps)(h name := (slot_chan ps (h name))(i := None))
    | (Inl e, ps') \<Rightarrow> slot_chan ps (h name) i = None \<and> ps' = ps"
proof (cases "slot_chan ps (h name) i")
  case None
  then show ?thesis using ps_unsub_nil [of ps h name i] by auto
next
  case (Some c)
  then show ?thesis
    using ps_unsub_slot [OF assms slot_chan_bound [OF assms Some] Some] by auto
qed

lemma ps_slots_eq: "slot_chan ps' = slot_chan ps \<Longrightarrow> ps_slots ps' = ps_slots ps"
  by (intro ext) (simp add: ps_slots_def)

lemma ps_slots_upd:
  "slot_chan ps' = (slot_chan ps)(k := (slot_chan ps k)(i := c)) \<Longrightarrow>
   ps_slots ps' = (ps_slots ps)(k := (ps_slots ps k)(i := map_option chan_run c))"
  by (intro ext) (simp add: ps_slots_def)

interpretation bus: subscription_bus h ps_slots "sub_run h" "unsub_slot h" "ps_wf h" for h
proof (unfold_locales, goal_cases)
  case (1 p c t i p')
  then show ?case
    using sub_run_cases [OF 1(1), where run = c and name = t] by (auto simp: ps_slots_upd) (simp add: ps_slots_def)
next
  case (2 p c t e p')
  then show ?case using sub_run_cases [OF 2(1), where run = c and name = t] by (auto intro: ps_slots_eq)
next
  case (3 p i t p')
  then show ?case
    using unsub_slot_cases [OF 3(1), where i = i and name = t] by (auto simp: ps_slots_upd) (simp add: ps_slots_def)
next
  case (4 p i t e p')
  then show ?case using unsub_slot_cases [OF 4(1), where i = i and name = t] by (auto intro: ps_slots_eq)
qed (auto intro: wf_intros)

lemma sub_run_active: "ps_wf h ps \<Longrightarrow> all_active ps \<Longrightarrow> all_active (snd (sub_run h run name ps))"
  using sub_run_cases [of h ps, where run = run and name = name] by (auto simp: all_active_def split: prod.splits sum.splits if_splits)

lemma unsub_slot_active: "ps_wf h ps \<Longrightarrow> all_active ps \<Longrightarrow> all_active (snd (unsub_slot h i name ps))"
  using unsub_slot_cases [of h ps, where i = i and name = name] by (auto simp: all_active_def split: prod.splits sum.splits if_splits)

lemma bus_steps_active:
  "ps_wf h ps \<Longrightarrow> all_active ps \<Longrightarrow> all_active (fold (bus.bus_step h) xs ps)"
proof (induction xs arbitrary: ps)
  case (Cons x xs)
  then show ?case
    using bus.bus_step_inv [of h ps x] by (cases x) (auto simp: sub_run_active unsub_slot_active)
qed simp

lemma ps_pub_slots: "all_active ps \<Longrightarrow> ps_slots ps (h name) i = Some run \<Longrightarrow> run \<in> snd ` set (ps_pub h name ps)"
proof -
  assume "all_active ps" and "ps_slots ps (h name) i = Some run"
  then obtain c where "slot_chan ps (h name) i = Some c" "chan_run c = run" "chan_active c"
    by (auto simp: ps_slots_def all_active_def)
  then have "(chan_id c, run) \<in> set (ps_pub h name ps)"
    by (auto simp: in_ps_pub)
  then show ?thesis by force
qed

lemma new_pubsub_wf: "ps_wf h new_pubsub"
  by (simp add: ps_wf_def new_pubsub_def)

lemma new_pubsub_active: "all_active new_pubsub"
  by (simp add: all_active_def slot_chan_def new_pubsub_def)

section \<open>Properties\<close>

lemma ps_pub_cong:
  "map_of (registry ps') (h name) = map_of (registry ps) (h name) \<Longrightarrow> ps_pub h name ps' = ps_pub h name ps"
  by (simp add: ps_pub_def ps_topic_def)

lemma registry_sub_other:
  "h name \<noteq> k \<Longrightarrow> map_of (registry (snd (ps_sub h \<lparr>cmd_topic = name, cmd_run = r\<rparr> ps))) k = map_of (registry ps) k"
  by (auto simp: ps_sub_def Let_def update_conv' split: option.splits sum.splits)

lemma registry_unsub_other:
  "h name \<noteq> k \<Longrightarrow> map_of (registry (snd (ps_unsub h i name ps))) k = map_of (registry ps) k"
  by (auto simp: ps_unsub_def update_conv' split: option.splits sum.splits)

lemma registry_close:
  "map_of (registry (snd (ps_close h name ps))) k = (if k = h name then None else map_of (registry ps) k)"
  by (auto simp: ps_close_def ps_topic_def delete_conv' split: option.splits)

text \<open>The subscribers of the witnesses: runs are names, the hash is the identity.\<close>

definition demo_bus :: "string pubsub" where
  "demo_bus = snd (sub_run id ''b'' ''net'' (snd (sub_run id ''a'' ''net'' new_pubsub)))"

lemma demo_bus_wf: "ps_wf id demo_bus"
  unfolding demo_bus_def by (intro ps_sub_wf new_pubsub_wf)

lemma demo_bus_active: "all_active demo_bus"
  unfolding demo_bus_def by (intro sub_run_active ps_sub_wf new_pubsub_wf new_pubsub_active)

lemma demo_bus_eq: "demo_bus =
  \<lparr>max_subs = 20,
   registry = [(''net'', \<lparr>topic_id = ''net'', topic_name = ''net'', topic_chs =
     Some \<lparr>chan_id = 0, chan_active = True, chan_run = ''a''\<rparr> #
     Some \<lparr>chan_id = 1, chan_active = True, chan_run = ''b''\<rparr> # replicate 18 None\<rparr>)],
   next_chan = 2\<rparr>"
  by code_simp

text \<open>
  \<open>Sub\<close> with a run function, on a well-formed bus: with an empty topic it is
  refused; otherwise it takes the first free slot of the topic, puts a fresh active channel there
  and changes no other slot of any topic, or, exactly when all \<open>MaxSubs\<close> slots are
  taken, returns "too many subscribers" and changes no slot. The bus stays well formed.
\<close>

theorem sub_takes_first_free:
  assumes "ps_wf h ps"
  shows "case ps_sub h \<lparr>cmd_topic = name, cmd_run = Some run\<rparr> ps of
      (Inr i, ps') \<Rightarrow> ps_wf h ps' \<and> name \<noteq> '''' \<and> i < nat (max_subs ps) \<and>
         slot_chan ps (h name) i = None \<and> (\<forall>j < i. slot_chan ps (h name) j \<noteq> None) \<and>
         slot_chan ps' = (slot_chan ps)(h name := (slot_chan ps (h name))
           (i \<mapsto> \<lparr>chan_id = next_chan ps, chan_active = True, chan_run = run\<rparr>))
    | (Inl e, ps') \<Rightarrow> ps_wf h ps' \<and> slot_chan ps' = slot_chan ps \<and>
         (if name = '''' then e = Error NoTopic
          else e = Error TooManySubscribers \<and> (\<forall>j < nat (max_subs ps). slot_chan ps (h name) j \<noteq> None))"
  using sub_run_cases [OF assms, where run = run and name = name]
    ps_sub_wf [OF assms, of "\<lparr>cmd_topic = name, cmd_run = Some run\<rparr>"]
  by (auto split: prod.splits sum.splits)

theorem sub_takes_first_free_witness:
  "fst (ps_sub id \<lparr>cmd_topic = ''net'', cmd_run = Some ''c''\<rparr> demo_bus) = Inr 2 \<and>
   slot_chan demo_bus ''net'' 2 = None"
proof -
  have "fst (ps_sub id \<lparr>cmd_topic = ''net'', cmd_run = Some ''c''\<rparr> demo_bus) = Inr 2"
    by code_simp
  with sub_takes_first_free [OF demo_bus_wf, of "''net''" "''c''"] show ?thesis
    by (auto split: prod.splits)
qed

text \<open>
  \<open>Unsub\<close> of an index on a registered topic: outside \<open>0..MaxSubs\<close> it reports
  the index, on an empty slot it reports that, both without any change; at exactly
  \<open>MaxSubs\<close>, which its bounds check lets through, it panics; on a taken slot it empties
  that slot and no other.
\<close>

theorem unsub_by_index:
  assumes "ps_wf h ps" and "map_of (registry ps) (h name) \<noteq> None"
  shows "if index < 0 \<or> max_subs ps < index then ps_unsub h index name ps = (Inl (Error (IndexOutOfRange index)), ps)
    else if index = max_subs ps then ps_unsub h index name ps = (Inl Panic, ps)
    else if slot_chan ps (h name) (nat index) = None then ps_unsub h index name ps = (Inl (Error (NilChannel index)), ps)
    else fst (ps_unsub h index name ps) = Inr () \<and>
      slot_chan (snd (ps_unsub h index name ps)) =
        (slot_chan ps)(h name := (slot_chan ps (h name))(nat index := None))"
proof -
  obtain t where t: "map_of (registry ps) (h name) = Some t" using assms(2) by auto
  have len: "int (length (topic_chs t)) = max_subs ps"
    using map_of_wf [OF assms(1) t] assms(1) by (simp add: topic_wf_def ps_wf_def)
  show ?thesis
  proof (cases "index < 0 \<or> max_subs ps \<le> index \<or> slot_chan ps (h name) (nat index) = None")
    case True
    then show ?thesis
      using t len by (auto simp: ps_unsub_def ps_topic_def slot_chan_def split: option.splits if_splits)
  next
    case False
    then show ?thesis
      using unsub_slot_cases [OF assms(1), where i = "nat index" and name = name]
      by (auto split: prod.splits sum.splits)
  qed
qed

theorem unsub_by_index_witness:
  "fst (ps_unsub id 20 ''net'' demo_bus) = Inl Panic \<and> fst (ps_unsub id 1 ''net'' demo_bus) = Inr ()"
  using unsub_by_index [OF demo_bus_wf, of "''net''" 20] unsub_by_index [OF demo_bus_wf, of "''net''" 1]
  by (simp add: demo_bus_eq slot_chan_def)



text \<open>
  A cancel function used twice cancels somebody else: if a subscriber cancels its slot and
  the next \<open>Sub\<close> on the topic is given that slot again, the first subscriber's second
  call returns no error and empties the slot of the new subscriber.
\<close>

theorem stale_cancel_hits_successor:
  assumes "ps_wf h ps" and "ps_unsub h (int i) name ps = (Inr (), ps')"
    and "ps_sub h \<lparr>cmd_topic = name, cmd_run = Some run\<rparr> ps' = (Inr i, ps'')"
  shows "slot_chan ps'' (h name) i \<noteq> None \<and> fst (ps_unsub h (int i) name ps'') = Inr () \<and>
    slot_chan (snd (ps_unsub h (int i) name ps'')) (h name) i = None"
proof -
  have wf': "ps_wf h ps'" using ps_unsub_wf [OF assms(1), of "int i" name] assms(2) by simp
  have wf'': "ps_wf h ps''" using ps_sub_wf [OF wf', of "\<lparr>cmd_topic = name, cmd_run = Some run\<rparr>"] assms(3) by simp
  have "slot_chan ps'' (h name) i \<noteq> None"
    using sub_run_cases [OF wf', where run = run and name = name] assms(3) by simp
  then show ?thesis
    using unsub_slot_cases [OF wf'', where i = i and name = name] by (auto split: prod.splits sum.splits)
qed

theorem stale_cancel_hits_successor_witness:
  "fst (ps_unsub id 0 ''net'' (snd (ps_sub id \<lparr>cmd_topic = ''net'', cmd_run = Some ''c''\<rparr>
     (snd (ps_unsub id 0 ''net'' demo_bus))))) = Inr ()"
proof -
  have 1: "ps_unsub id (int 0) ''net'' demo_bus = (Inr (), snd (ps_unsub id 0 ''net'' demo_bus))"
    by code_simp
  have 2: "ps_sub id \<lparr>cmd_topic = ''net'', cmd_run = Some ''c''\<rparr> (snd (ps_unsub id 0 ''net'' demo_bus)) =
      (Inr 0, snd (ps_sub id \<lparr>cmd_topic = ''net'', cmd_run = Some ''c''\<rparr> (snd (ps_unsub id 0 ''net'' demo_bus))))"
    by code_simp
  from stale_cancel_hits_successor [OF demo_bus_wf 1 2] show ?thesis by simp
qed

text \<open>
  A subscriber that times out is not served any more, but it is not unsubscribed: its slot
  stays taken, so it counts against \<open>MaxSubs\<close> until somebody cancels it. All other
  subscribers are still served.
\<close>

theorem timeout_keeps_slot:
  assumes "ps_wf h ps"
  shows "ps_slots (ps_timeout h i name ps) = ps_slots ps \<and>
    set (ps_pub h name (ps_timeout h i name ps)) =
      {(chan_id c, chan_run c) |c j. slot_chan ps (h name) j = Some c \<and> chan_active c \<and> j \<noteq> i}"
  (is "?slots \<and> ?pub")
proof
  show ?slots
    by (intro ext) (auto simp: ps_slots_def slot_chan_timeout option.map_comp comp_def)
  show ?pub
    by (auto simp: in_ps_pub slot_chan_timeout split: if_splits) metis+
qed

theorem timeout_keeps_slot_witness:
  "set (ps_pub id ''net'' (ps_timeout id 0 ''net'' demo_bus)) = {(1, ''b'')} \<and>
   ps_slots (ps_timeout id 0 ''net'' demo_bus) ''net'' 0 = Some ''a''"
  using timeout_keeps_slot [OF demo_bus_wf, of 0 "''net''"]
  by (simp add: demo_bus_eq ps_slots_def slot_chan_def ps_timeout_def ps_topic_def ps_pub_def store_topic_def)

text \<open>
  Topics do not interfere: subscribing to, cancelling on or closing a topic whose name hashes
  differently does not change whom a \<open>Pub\<close> on this topic reaches, and after
  \<open>Close\<close> of a topic a \<open>Pub\<close> on it reaches nobody.
\<close>

theorem topics_independent:
  assumes "h other \<noteq> h name"
  shows "ps_pub h name (snd (ps_sub h \<lparr>cmd_topic = other, cmd_run = r\<rparr> ps)) = ps_pub h name ps \<and>
    ps_pub h name (snd (ps_unsub h index other ps)) = ps_pub h name ps \<and>
    ps_pub h name (snd (ps_close h other ps)) = ps_pub h name ps \<and>
    ps_pub h name (snd (ps_close h name ps)) = []"
proof (intro conjI)
  show "ps_pub h name (snd (ps_sub h \<lparr>cmd_topic = other, cmd_run = r\<rparr> ps)) = ps_pub h name ps"
    using assms by (intro ps_pub_cong registry_sub_other)
  show "ps_pub h name (snd (ps_unsub h index other ps)) = ps_pub h name ps"
    using assms by (intro ps_pub_cong registry_unsub_other)
  show "ps_pub h name (snd (ps_close h other ps)) = ps_pub h name ps"
    using assms by (intro ps_pub_cong) (simp add: registry_close)
  show "ps_pub h name (snd (ps_close h name ps)) = []"
    using registry_close [of h name ps "h name"] by (simp add: ps_pub_def ps_topic_def)
qed

theorem topics_independent_witness:
  "ps_pub id ''net'' (snd (ps_close id ''proxy'' demo_bus)) = [(0, ''a''), (1, ''b'')] \<and>
   ps_pub id ''net'' (snd (ps_close id ''net'' demo_bus)) = []"
proof -
  have "id ''proxy'' \<noteq> id ''net''" by simp
  from topics_independent [where h = id, OF this, of None demo_bus 0] show ?thesis
    by (simp add: demo_bus_eq ps_pub_def ps_topic_def)
qed

end
