(* ===== verification/Machines.thy ===== *)
theory Machines
  imports Prelude
begin

text \<open>
  Goroutines that interleave are modelled by a function from an event and a state to the next state,
  \<open>None\<close> when the event cannot happen. This theory holds what all of them share: executions,
  reachable states, and the ways their properties are proved, as locales over the step function: a
  set of states that no step leaves (\<open>preserved\<close>), an invariant of the reachable states
  (\<open>invariant\<close>), a rank that bounds the steps left (\<open>ranked\<close>), progress to final states
  (\<open>ending\<close>), and a quantity that events add to (\<open>counting\<close>).
\<close>

section \<open>Executions\<close>

fun exec :: "('e \<Rightarrow> 's \<Rightarrow> 's option) \<Rightarrow> 'e list \<Rightarrow> 's \<Rightarrow> 's option" where
  "exec step [] s = Some s"
| "exec step (e # es) s = (case step e s of None \<Rightarrow> None | Some s' \<Rightarrow> exec step es s')"

inductive reach :: "('e \<Rightarrow> 's \<Rightarrow> 's option) \<Rightarrow> 's \<Rightarrow> 's \<Rightarrow> bool" for step s0 where
  reach_init: "reach step s0 s0"
| reach_next: "reach step s0 s \<Longrightarrow> step e s = Some s' \<Longrightarrow> reach step s0 s'"

lemma exec_ConsE:
  assumes "exec step (e # es) s = Some s'"
  obtains s1 where "step e s = Some s1" and "exec step es s1 = Some s'"
  using assms by (auto split: option.splits)

lemma exec_append:
  "exec step (es @ fs) s = (case exec step es s of None \<Rightarrow> None | Some s' \<Rightarrow> exec step fs s')"
  by (induction es arbitrary: s) (auto split: option.splits)

lemma reach_exec: "reach step s0 s \<Longrightarrow> exec step es s = Some s' \<Longrightarrow> reach step s0 s'"
  by (induction es arbitrary: s) (auto split: option.splits intro: reach_next)

lemmas exec_reach = reach_exec [OF reach_init]

text \<open>The reachable states are the ends of the executions.\<close>

lemma reach_iff_exec: "reach step s0 s \<longleftrightarrow> (\<exists>es. exec step es s0 = Some s)"
proof
  show "reach step s0 s \<Longrightarrow> \<exists>es. exec step es s0 = Some s"
  proof (induction rule: reach.induct)
    case reach_init
    have "exec step [] s0 = Some s0" by simp
    then show ?case by blast
  next
    case (reach_next s e s')
    then obtain es where "exec step es s0 = Some s" by blast
    then have "exec step (es @ [e]) s0 = Some s'" using reach_next.hyps(2) by (simp add: exec_append)
    then show ?case by blast
  qed
qed (blast intro: exec_reach)

section \<open>How their properties are proved\<close>

locale preserved =
  fixes step :: "'e \<Rightarrow> 's \<Rightarrow> 's option" and I :: "'s \<Rightarrow> bool"
  assumes step: "I s \<Longrightarrow> step e s = Some s' \<Longrightarrow> I s'"
begin

lemma after: "exec step es s = Some s' \<Longrightarrow> I s \<Longrightarrow> I s'"
  by (induction es arbitrary: s) (auto split: option.splits intro: step)

end

locale invariant = preserved +
  fixes s0 :: 's
  assumes init: "I s0"
begin

lemma reachable: "reach step s0 s \<Longrightarrow> I s"
  by (induction rule: reach.induct) (auto intro: init step)

end

text \<open>Every \<open>counted\<close> event lowers the rank, and no other raises it.\<close>

locale ranked = preserved +
  fixes rank :: "'s \<Rightarrow> nat" and counted :: "'e \<Rightarrow> bool"
  assumes descends: "I s \<Longrightarrow> step e s = Some s' \<Longrightarrow> rank s' + of_bool (counted e) \<le> rank s"
begin

lemma bounded: "exec step es s = Some s' \<Longrightarrow> I s \<Longrightarrow> length (filter counted es) + rank s' \<le> rank s"
proof (induction es arbitrary: s)
  case (Cons e es)
  from Cons.prems(1) obtain s1 where s1: "step e s = Some s1" "exec step es s1 = Some s'" by (rule exec_ConsE)
  have "length (filter counted es) + rank s' \<le> rank s1"
    using Cons.IH [OF s1(2)] step [OF Cons.prems(2) s1(1)] .
  then show ?case using descends [OF Cons.prems(2) s1(1)] by (cases "counted e") auto
qed simp

end

text \<open>Where only final states are without a counted event, some execution ends in a final state.\<close>

locale ending = ranked +
  fixes final :: "'s \<Rightarrow> bool"
  assumes progress: "I s \<Longrightarrow> \<not> final s \<Longrightarrow> \<exists>e s'. counted e \<and> step e s = Some s'"
begin

lemma can_end: "I s \<Longrightarrow> \<exists>es s'. exec step es s = Some s' \<and> final s' \<and> length es \<le> rank s"
proof (induction "rank s" arbitrary: s rule: less_induct)
  case less
  show ?case
  proof (cases "final s")
    case True
    then have "exec step [] s = Some s \<and> final s \<and> length ([] :: 'a list) \<le> rank s" by simp
    then show ?thesis by blast
  next
    case False
    then obtain e s1 where s1: "counted e" "step e s = Some s1" using progress [OF less.prems] by blast
    then have rank: "Suc (rank s1) \<le> rank s" using descends [OF less.prems s1(2)] by simp
    then obtain es s' where "exec step es s1 = Some s'" "final s'" "length es \<le> rank s1"
      using less.hyps [of s1] step [OF less.prems s1(2)] by auto
    then have "exec step (e # es) s = Some s' \<and> final s' \<and> length (e # es) \<le> rank s" using s1(2) rank by simp
    then show ?thesis by blast
  qed
qed

end

locale counting = preserved +
  fixes count :: "'s \<Rightarrow> 'n :: comm_monoid_add" and weight :: "'e \<Rightarrow> 'n"
  assumes counts: "I s \<Longrightarrow> step e s = Some s' \<Longrightarrow> count s' = count s + weight e"
begin

lemma total: "exec step es s = Some s' \<Longrightarrow> I s \<Longrightarrow> count s' = count s + sum_list (map weight es)"
proof (induction es arbitrary: s)
  case (Cons e es)
  from Cons.prems(1) obtain s1 where s1: "step e s = Some s1" "exec step es s1 = Some s'" by (rule exec_ConsE)
  show ?case using Cons.IH [OF s1(2) step [OF Cons.prems(2) s1(1)]] counts [OF Cons.prems(2) s1(1)]
    by (simp add: add.assoc)
qed simp

end

text \<open>A sum that counts the events of a kind.\<close>

lemma sum_list_of_bool: "sum_list (map (\<lambda>e. of_bool (P e)) es) = (of_nat (length (filter P es)) :: 'n :: semiring_1)"
  by (induction es) (simp_all add: algebra_simps)

end
