(* ===== verification/Channel.thy ===== *)
theory Channel
  imports Machines
begin

text \<open>
  The goroutines of one subscription channel, \<open>pubsub/channel.go\<close>: publishers that call
  \<open>send\<close>, callers of \<open>stop\<close>, the loop goroutine of \<open>run\<close>, and the
  goroutine the loop starts for each message. \<open>sendc\<close> and \<open>stopc\<close> are
  unbuffered: an operation on them happens together with the loop, or blocks. A goroutine is its
  program counter; a step of the system is one atomic step of one goroutine, in any interleaving.
\<close>

section \<open>State\<close>

text \<open>
  \<open>active\<close> and \<open>has_ch\<close> are the fields of the struct (\<open>has_ch\<close>:
  \<open>c.ch\<close> is not nil); \<open>out_closed\<close> is the state of the channel object that
  \<open>run\<close> made; \<open>loop\<close> says that the loop goroutine has not returned. The last
  three fields are history: successful calls of \<open>close\<close>, messages accepted by
  \<open>sendc\<close>, and messages the subscriber received.
\<close>

datatype 'm goroutine =
    SendCheck 'm        \<comment> \<open>\<open>send\<close>: before \<open>c.isActive()\<close>\<close>
  | SendHandOver 'm     \<comment> \<open>\<open>send\<close>: at \<open>c.sendc <- m\<close>\<close>
  | FwdOut 'm           \<comment> \<open>forwarder: about to evaluate \<open>c.out()\<close>\<close>
  | FwdSelect 'm bool   \<comment> \<open>forwarder: in the select; is the channel it got non-nil?\<close>
  | StopCheck           \<comment> \<open>\<open>stop\<close>: before \<open>c.isActive()\<close>\<close>
  | StopSync            \<comment> \<open>\<open>stop\<close>: at \<open>c.stopc <- struct{}{}\<close>\<close>
  | StopDeactivate      \<comment> \<open>\<open>stop\<close>: before \<open>c.setIsActive(false)\<close>\<close>
  | StopClose           \<comment> \<open>\<open>stop\<close>: before closing and removing \<open>c.ch\<close>\<close>
  | Returned

record 'm chan_state =
  active :: bool
  has_ch :: bool
  out_closed :: bool
  loop :: bool
  threads :: "'m goroutine list"
  closes :: nat
  accepted :: "'m list"
  received :: "'m list"

text \<open>After \<open>newChannel\<close> and \<open>run\<close>.\<close>

definition chan_running :: "'m chan_state" where
  "chan_running = \<lparr>active = True, has_ch = True, out_closed = False, loop = True, threads = [],
     closes = 0, accepted = [], received = []\<rparr>"

section \<open>Steps\<close>

definition set_thread :: "nat \<Rightarrow> 'm goroutine \<Rightarrow> 'm chan_state \<Rightarrow> 'm chan_state" where
  "set_thread i g s = s\<lparr>threads := (threads s)[i := g]\<rparr>"

definition spawn :: "'m goroutine \<Rightarrow> 'm chan_state \<Rightarrow> 'm chan_state" where
  "spawn g s = s\<lparr>threads := threads s @ [g]\<rparr>"

text \<open>
  \<open>send\<close>. Handing over to \<open>sendc\<close> needs the loop, which starts a forwarder for
  the message.
\<close>

fun send_step :: "nat \<Rightarrow> 'm goroutine \<Rightarrow> 'm chan_state \<Rightarrow> 'm chan_state option" where
  "send_step i (SendCheck m) s = Some (set_thread i (if active s then SendHandOver m else Returned) s)"
| "send_step i (SendHandOver m) s =
     (if loop s then Some (spawn (FwdOut m) (set_thread i Returned (s\<lparr>accepted := accepted s @ [m]\<rparr>)))
      else None)"
| "send_step i g s = None"

text \<open>
  \<open>stop\<close>. \<open>closeChanSafe\<close> swallows the panic of closing a nil or closed
  channel.
\<close>

fun stop_step :: "nat \<Rightarrow> 'm goroutine \<Rightarrow> 'm chan_state \<Rightarrow> 'm chan_state option" where
  "stop_step i StopCheck s = Some (set_thread i (if active s then StopSync else Returned) s)"
| "stop_step i StopSync s =
     (if loop s then Some (set_thread i StopDeactivate (s\<lparr>loop := False\<rparr>)) else None)"
| "stop_step i StopDeactivate s = Some (set_thread i StopClose (s\<lparr>active := False\<rparr>))"
| "stop_step i StopClose s =
     Some (set_thread i Returned
       (if has_ch s \<and> \<not> out_closed s
        then s\<lparr>has_ch := False, out_closed := True, closes := Suc (closes s)\<rparr>
        else s\<lparr>has_ch := False\<rparr>))"
| "stop_step i g s = None"

text \<open>
  The forwarder. In the select it delivers when the subscriber receives; a send on a closed
  channel panics, which the deferred function turns into a call of \<open>stop\<close>; so does the
  timeout of one second, which can come first at any time.
\<close>

datatype fwd_choice = Deliver | Timeout

fun fwd_step :: "nat \<Rightarrow> fwd_choice \<Rightarrow> 'm goroutine \<Rightarrow> 'm chan_state \<Rightarrow> 'm chan_state option" where
  "fwd_step i ch (FwdOut m) s = Some (set_thread i (FwdSelect m (has_ch s)) s)"
| "fwd_step i Deliver (FwdSelect m True) s =
     (if out_closed s then Some (set_thread i StopCheck s)
      else Some (set_thread i Returned (s\<lparr>received := received s @ [m]\<rparr>)))"
| "fwd_step i Deliver (FwdSelect m False) s = None"
| "fwd_step i Timeout (FwdSelect m b) s = Some (set_thread i StopCheck s)"
| "fwd_step i ch g s = None"

text \<open>
  The system: somebody calls \<open>send\<close> or \<open>stop\<close>, or goroutine \<open>i\<close>
  takes its next step.
\<close>

datatype 'm chan_event = CallSend 'm | CallStop | Run nat fwd_choice

fun chan_step :: "'m chan_event \<Rightarrow> 'm chan_state \<Rightarrow> 'm chan_state option" where
  "chan_step (CallSend m) s = Some (spawn (SendCheck m) s)"
| "chan_step CallStop s = Some (spawn StopCheck s)"
| "chan_step (Run i ch) s =
     (if i < length (threads s) then
        (case threads s ! i of
           SendCheck m \<Rightarrow> send_step i (threads s ! i) s
         | SendHandOver m \<Rightarrow> send_step i (threads s ! i) s
         | FwdOut m \<Rightarrow> fwd_step i ch (threads s ! i) s
         | FwdSelect m b \<Rightarrow> fwd_step i ch (threads s ! i) s
         | Returned \<Rightarrow> None
         | _ \<Rightarrow> stop_step i (threads s ! i) s)
      else None)"

abbreviation chan_exec :: "'m chan_event list \<Rightarrow> 'm chan_state \<Rightarrow> 'm chan_state option" where
  "chan_exec \<equiv> exec chan_step"

abbreviation chan_reach :: "'m chan_state \<Rightarrow> bool" where
  "chan_reach \<equiv> reach chan_step chan_running"

section \<open>One lemma for all steps\<close>

text \<open>What a step of goroutine \<open>i\<close> does, by the goroutine's program counter.\<close>

lemma chan_step_cases [consumes 1, case_names spawn send_check hand_over fwd_out closed deliver
    timeout stop_check sync deactivate close]:
  assumes "chan_step e s = Some s'"
  obtains g where "s' = spawn g s" and "(\<exists>m. g = SendCheck m) \<or> g = StopCheck"
  | i m where "i < length (threads s)" "threads s ! i = SendCheck m"
      "s' = set_thread i (if active s then SendHandOver m else Returned) s"
  | i m where "i < length (threads s)" "threads s ! i = SendHandOver m" "loop s"
      "s' = spawn (FwdOut m) (set_thread i Returned (s\<lparr>accepted := accepted s @ [m]\<rparr>))"
  | i m where "i < length (threads s)" "threads s ! i = FwdOut m" "s' = set_thread i (FwdSelect m (has_ch s)) s"
  | i m where "i < length (threads s)" "threads s ! i = FwdSelect m True" "out_closed s"
      "s' = set_thread i StopCheck s"
  | i m where "i < length (threads s)" "threads s ! i = FwdSelect m True" "\<not> out_closed s"
      "s' = set_thread i Returned (s\<lparr>received := received s @ [m]\<rparr>)"
  | i m b where "i < length (threads s)" "threads s ! i = FwdSelect m b" "s' = set_thread i StopCheck s"
  | i where "i < length (threads s)" "threads s ! i = StopCheck"
      "s' = set_thread i (if active s then StopSync else Returned) s"
  | i where "i < length (threads s)" "threads s ! i = StopSync" "loop s"
      "s' = set_thread i StopDeactivate (s\<lparr>loop := False\<rparr>)"
  | i where "i < length (threads s)" "threads s ! i = StopDeactivate"
      "s' = set_thread i StopClose (s\<lparr>active := False\<rparr>)"
  | i where "i < length (threads s)" "threads s ! i = StopClose"
      "s' = set_thread i Returned
        (if has_ch s \<and> \<not> out_closed s
         then s\<lparr>has_ch := False, out_closed := True, closes := Suc (closes s)\<rparr>
         else s\<lparr>has_ch := False\<rparr>)"
proof (cases e)
  case (Run i ch)
  with assms have i: "i < length (threads s)" by (auto split: if_splits)
  show ?thesis
  proof (cases "threads s ! i")
    case (FwdSelect m b)
    then show ?thesis using assms Run i that by (cases ch; cases b) (auto split: if_splits)
  qed (use assms Run i that in \<open>auto split: if_splits\<close>)
qed (use assms that in \<open>auto\<close>)

end
