(* ===== verification/Channel_Props.thy ===== *)
theory Channel_Props
  imports Channel
begin

text \<open>
  What holds of every interleaving of the goroutines of a subscription channel: the output
  channel is closed once and nothing is received afterwards, no message is received twice, which
  goroutines can block, and that a second \<open>stop\<close> can block for ever.
\<close>

section \<open>Lemmas\<close>

lemma sum_list_update:
  fixes f :: "'b \<Rightarrow> 'c :: comm_monoid_add"
  assumes "i < length xs"
  shows "sum_list (map f (xs[i := x])) + f (xs ! i) = sum_list (map f xs) + f x"
  using assms by (induction xs arbitrary: i) (auto simp: nth_Cons ac_simps split: nat.splits)

text \<open>The number of goroutines at a program counter.\<close>

definition at_pc :: "'m goroutine \<Rightarrow> 'm chan_state \<Rightarrow> nat" where
  "at_pc g s = sum_list (map (\<lambda>g'. of_bool (g' = g)) (threads s))"

definition chan_inv :: "'m chan_state \<Rightarrow> bool" where
  "chan_inv s \<longleftrightarrow>
     at_pc StopDeactivate s + at_pc StopClose s + closes s = of_bool (\<not> loop s) \<and>
     (out_closed s \<longleftrightarrow> closes s = 1) \<and> (has_ch s \<longleftrightarrow> \<not> out_closed s) \<and>
     (active s \<longleftrightarrow> loop s \<or> at_pc StopDeactivate s = 1)"

lemma at_pc_spawn [simp]: "at_pc g (spawn g' s) = at_pc g s + of_bool (g' = g)"
  by (simp add: at_pc_def spawn_def)

lemma at_pc_set:
  "i < length (threads s) \<Longrightarrow>
   at_pc g (set_thread i g' s) + of_bool (threads s ! i = g) = at_pc g s + of_bool (g' = g)"
  using sum_list_update [of i "threads s" "\<lambda>g'. of_bool (g' = g) :: nat" g']
  unfolding at_pc_def set_thread_def by simp

lemma set_thread_fields [simp]:
  "active (set_thread i g s) = active s" "has_ch (set_thread i g s) = has_ch s"
  "out_closed (set_thread i g s) = out_closed s" "loop (set_thread i g s) = loop s"
  "closes (set_thread i g s) = closes s" "accepted (set_thread i g s) = accepted s"
  "received (set_thread i g s) = received s" "threads (set_thread i g s) = (threads s)[i := g]"
  by (simp_all add: set_thread_def)

lemma spawn_fields [simp]:
  "active (spawn g s) = active s" "has_ch (spawn g s) = has_ch s"
  "out_closed (spawn g s) = out_closed s" "loop (spawn g s) = loop s"
  "closes (spawn g s) = closes s" "accepted (spawn g s) = accepted s"
  "received (spawn g s) = received s" "threads (spawn g s) = threads s @ [g]"
  by (simp_all add: spawn_def)

lemma at_pc_threads: "threads s = threads s' \<Longrightarrow> at_pc g s = at_pc g s'"
  by (simp add: at_pc_def)

lemma at_pc_pos: "i < length (threads s) \<Longrightarrow> threads s ! i = g \<Longrightarrow> 0 < at_pc g s"
  unfolding at_pc_def by (rule ccontr) (auto simp: sum_list_eq_0_iff)

lemma chan_inv_set:
  assumes "chan_inv s" and "i < length (threads s)"
    and "threads s ! i \<notin> {StopDeactivate, StopClose}" and "g \<notin> {StopDeactivate, StopClose}"
    and "threads t = threads s" "active t = active s" "has_ch t = has_ch s" "out_closed t = out_closed s"
      "loop t = loop s" "closes t = closes s"
  shows "chan_inv (set_thread i g t)"
  using assms at_pc_set [of i t StopDeactivate g] at_pc_set [of i t StopClose g]
    at_pc_threads [OF assms(5), of StopDeactivate] at_pc_threads [OF assms(5), of StopClose]
  by (simp add: chan_inv_def)

lemma chan_inv_spawn: "chan_inv s \<Longrightarrow> g \<notin> {StopDeactivate, StopClose} \<Longrightarrow> chan_inv (spawn g s)"
  by (simp add: chan_inv_def)

lemma chan_step_inv:
  assumes "chan_step e s = Some s'" and "chan_inv s"
  shows "chan_inv s'"
  using assms(1)
proof (cases rule: chan_step_cases)
  case (sync i)
  let ?t = "s\<lparr>loop := False\<rparr>"
  have "at_pc g ?t = at_pc g s" for g by (simp add: at_pc_def)
  then show ?thesis
    using sync assms(2) at_pc_set [of i ?t StopDeactivate StopDeactivate] at_pc_set [of i ?t StopClose StopDeactivate]
    by (simp add: chan_inv_def)
next
  case (deactivate i)
  let ?t = "s\<lparr>active := False\<rparr>"
  have "at_pc g ?t = at_pc g s" for g by (simp add: at_pc_def)
  then show ?thesis
    using deactivate assms(2) at_pc_set [of i ?t StopDeactivate StopClose] at_pc_set [of i ?t StopClose StopClose]
      at_pc_pos [of i s]
    by (auto simp: chan_inv_def split: if_splits)
next
  case (close i)
  have pos: "0 < at_pc StopClose s" using at_pc_pos close by metis
  then have t: "\<not> out_closed s" "has_ch s" "\<not> loop s" "closes s = 0" "at_pc StopDeactivate s = 0"
    using assms(2) by (cases "loop s"; auto simp: chan_inv_def)+
  let ?t = "s\<lparr>has_ch := False, out_closed := True, closes := Suc (closes s)\<rparr>"
  have "at_pc g ?t = at_pc g s" for g by (simp add: at_pc_def)
  then show ?thesis
    using close t pos assms(2) at_pc_set [of i ?t StopDeactivate Returned] at_pc_set [of i ?t StopClose Returned]
    by (auto simp: chan_inv_def split: if_splits)
qed (use assms(2) in \<open>auto intro!: chan_inv_set chan_inv_spawn\<close>)

interpretation channel: invariant chan_step chan_inv chan_running
  by unfold_locales (rule chan_step_inv, simp_all add: chan_running_def chan_inv_def at_pc_def)

text \<open>Messages held by forwarders.\<close>

fun held :: "'m goroutine \<Rightarrow> 'm multiset" where
  "held (FwdOut m) = {#m#}"
| "held (FwdSelect m b) = {#m#}"
| "held g = {#}"

definition in_flight :: "'m chan_state \<Rightarrow> 'm multiset" where
  "in_flight s = sum_list (map held (threads s))"

lemma in_flight_set:
  "i < length (threads s) \<Longrightarrow> in_flight (set_thread i g s) + held (threads s ! i) = in_flight s + held g"
  unfolding in_flight_def set_thread_def by (simp add: sum_list_update)

lemma in_flight_spawn [simp]: "in_flight (spawn g s) = in_flight s + held g"
  by (simp add: in_flight_def)

definition msg_inv :: "'m chan_state \<Rightarrow> bool" where
  "msg_inv s \<longleftrightarrow> mset (received s) + in_flight s \<subseteq># mset (accepted s)"

lemma msg_inv_set:
  assumes "msg_inv s" and "i < length (threads s)" and "held g \<subseteq># held (threads s ! i)"
    and "threads t = threads s" "accepted t = accepted s" "received t = received s"
  shows "msg_inv (set_thread i g t)"
proof -
  have fl: "in_flight t = in_flight s" using assms(4) by (simp add: in_flight_def)
  have "in_flight (set_thread i g t) + held (threads s ! i) = in_flight s + held g"
    using in_flight_set [of i t g] assms(2,4) fl by simp
  then have "in_flight (set_thread i g t) + held (threads s ! i) \<subseteq># in_flight s + held (threads s ! i)"
    using assms(3) by simp
  then have "mset (received s) + in_flight (set_thread i g t) \<subseteq># mset (received s) + in_flight s"
    by simp
  then show ?thesis
    using assms(1,5,6) unfolding msg_inv_def by (metis set_thread_fields(6,7) subset_mset.order_trans)
qed

lemma chan_step_messages:
  assumes "chan_step e s = Some s'" and "msg_inv s"
  shows "msg_inv s'"
  using assms(1)
proof (cases rule: chan_step_cases)
  case (hand_over i m)
  let ?t = "s\<lparr>accepted := accepted s @ [m]\<rparr>"
  have "in_flight ?t = in_flight s" by (simp add: in_flight_def)
  then show ?thesis
    using hand_over assms(2) in_flight_set [of i ?t Returned] by (simp add: msg_inv_def)
next
  case (deliver i m)
  let ?t = "s\<lparr>received := received s @ [m]\<rparr>"
  have "in_flight ?t = in_flight s" by (simp add: in_flight_def)
  then have "in_flight s = add_mset m (in_flight s')"
    using deliver in_flight_set [of i ?t Returned] by simp
  then show ?thesis
    using deliver assms(2) by (simp add: msg_inv_def)
next
  case (spawn g)
  then show ?thesis using assms(2) by (auto simp: msg_inv_def)
qed (use assms(2) in \<open>auto intro!: msg_inv_set\<close>)

interpretation messages: invariant chan_step msg_inv chan_running
  by unfold_locales (rule chan_step_messages, simp_all add: chan_running_def msg_inv_def in_flight_def)

text \<open>A goroutine keeps its index; the loop does not come back.\<close>

lemma chan_step_length: "chan_step e s = Some s' \<Longrightarrow> length (threads s) \<le> length (threads s')"
  by (erule chan_step_cases) auto

lemma chan_step_loop: "chan_step e s = Some s' \<Longrightarrow> loop s' \<Longrightarrow> loop s"
  by (erule chan_step_cases) (auto split: if_splits)

lemma chan_step_closed:
  "chan_step e s = Some s' \<Longrightarrow> out_closed s \<Longrightarrow> out_closed s' \<and> received s' = received s"
  by (erule chan_step_cases) auto

definition needs_loop :: "'m goroutine \<Rightarrow> bool" where
  "needs_loop g \<longleftrightarrow> g = StopSync \<or> (\<exists>m. g = SendHandOver m)"

lemma chan_step_blocked:
  assumes "chan_step e s = Some s'" and "\<not> loop s" and "i < length (threads s)" and "needs_loop (threads s ! i)"
  shows "threads s' ! i = threads s ! i"
  using assms by (elim chan_step_cases) (auto simp: nth_append nth_list_update needs_loop_def)

definition blocked :: "nat \<Rightarrow> 'm goroutine \<Rightarrow> 'm chan_state \<Rightarrow> bool" where
  "blocked i g s \<longleftrightarrow> \<not> loop s \<and> i < length (threads s) \<and> threads s ! i = g \<and> needs_loop g"

interpretation blocked: preserved chan_step "blocked i g" for i g
proof
  fix s s' and e
  assume "blocked i g s" and e: "chan_step e s = Some s'"
  then show "blocked i g s'"
    using chan_step_loop [OF e] chan_step_length [OF e] chan_step_blocked [OF e, of i] by (auto simp: blocked_def)
qed

lemma chan_exec_blocked:
  "chan_exec es s = Some s' \<Longrightarrow> \<not> loop s \<Longrightarrow> i < length (threads s) \<Longrightarrow> needs_loop (threads s ! i) \<Longrightarrow>
   threads s' ! i = threads s ! i"
  using blocked.after [of es s s' i "threads s ! i"] by (simp add: blocked_def)

interpretation closed_channel: preserved chan_step "\<lambda>s. out_closed s \<and> received s = ms" for ms
  by unfold_locales (use chan_step_closed in blast)

lemma chan_exec_closed:
  "chan_exec es s = Some s' \<Longrightarrow> out_closed s \<Longrightarrow> out_closed s' \<and> received s' = received s"
  using closed_channel.after by blast

section \<open>Properties\<close>

text \<open>Two messages that the subscriber does not take within a second.\<close>

definition two_timeouts :: "nat chan_event list" where
  "two_timeouts = [CallSend 1, Run 0 Deliver, Run 0 Deliver, CallSend 2, Run 2 Deliver, Run 2 Deliver,
     Run 1 Deliver, Run 3 Deliver, Run 1 Timeout, Run 3 Timeout, Run 1 Timeout, Run 3 Timeout]"

lemma two_timeouts_eq: "chan_exec two_timeouts chan_running = Some
   \<lparr>active = True, has_ch = True, out_closed = False, loop = True,
    threads = [Returned, StopSync, Returned, StopSync], closes = 0, accepted = [1, 2], received = []\<rparr>"
  by code_simp

text \<open>
  C26: In every reachable state of the channel's goroutines the output channel has been closed at
  most once, it is closed only after the loop has ended, and while the loop runs the channel is
  active and has its output channel. Once it is closed, it stays closed and the subscriber
  receives nothing more, whatever the goroutines do.
\<close>

theorem channel_closed_once:
  assumes "chan_reach s"
  shows "closes s \<le> 1 \<and> (out_closed s \<longleftrightarrow> closes s = 1) \<and> (loop s \<longrightarrow> active s \<and> has_ch s \<and> \<not> out_closed s) \<and>
    (\<forall>es s'. chan_exec es s = Some s' \<longrightarrow> out_closed s \<longrightarrow> out_closed s' \<and> received s' = received s)"
  using channel.reachable [OF assms] chan_exec_closed
  by (cases "loop s") (auto simp: chan_inv_def)

theorem channel_closed_once_witness:
  "\<exists>s. chan_exec (two_timeouts @ [Run 1 Deliver, Run 1 Deliver, Run 1 Deliver]) chan_running = Some s \<and>
     closes s = 1 \<and> out_closed s"
proof -
  define s :: "nat chan_state" where "s = \<lparr>active = False, has_ch = False, out_closed = True, loop = False,
    threads = [Returned, Returned, Returned, StopSync], closes = 1, accepted = [1, 2], received = []\<rparr>"
  have ex: "chan_exec (two_timeouts @ [Run 1 Deliver, Run 1 Deliver, Run 1 Deliver]) chan_running = Some s"
    unfolding s_def by code_simp
  have "chan_reach s" by (rule exec_reach [OF ex])
  from channel_closed_once [OF this] ex show ?thesis by (auto simp: s_def)
qed

text \<open>
  C27: No message reaches the subscriber twice or out of nowhere: in every reachable state the
  messages received are, with multiplicity, among those handed to the loop by \<open>send\<close>.
\<close>

theorem channel_no_duplicates:
  assumes "chan_reach s"
  shows "mset (received s) \<subseteq># mset (accepted s)"
  using messages.reachable [OF assms] unfolding msg_inv_def
  by (metis mset_subset_eq_add_left subset_mset.order_trans)

theorem channel_no_duplicates_witness:
  "\<exists>s. chan_exec [CallSend (7 :: nat), Run 0 Deliver, Run 0 Deliver, Run 1 Deliver, Run 1 Deliver] chan_running = Some s \<and>
     received s = [7] \<and> mset (received s) \<subseteq># mset (accepted s)"
proof -
  define s :: "nat chan_state" where "s = \<lparr>active = True, has_ch = True, out_closed = False, loop = True,
    threads = [Returned, Returned], closes = 0, accepted = [7], received = [7]\<rparr>"
  have ex: "chan_exec [CallSend (7 :: nat), Run 0 Deliver, Run 0 Deliver, Run 1 Deliver, Run 1 Deliver] chan_running = Some s"
    unfolding s_def by code_simp
  have "chan_reach s" by (rule exec_reach [OF ex])
  from channel_no_duplicates [OF this] ex show ?thesis by (auto simp: s_def)
qed

text \<open>
  The order of messages is not kept: two messages handed to the channel in one order can
  reach the subscriber in the other, since each has a goroutine of its own.
\<close>

theorem channel_reorders:
  "\<exists>es s. chan_exec es chan_running = Some s \<and> accepted s = [m, n] \<and> received s = [n, m]"
proof -
  let ?es = "[CallSend m, Run 0 Deliver, Run 0 Deliver, CallSend n, Run 2 Deliver, Run 2 Deliver,
     Run 1 Deliver, Run 3 Deliver, Run 3 Deliver, Run 1 Deliver]"
  show ?thesis
    by (rule exI [of _ ?es]) (simp add: chan_running_def spawn_def set_thread_def numeral_eq_Suc)
qed

text \<open>
  What can block. A goroutine that has not returned cannot take its next step exactly when
  the loop has ended and it is about to hand something to it: a \<open>send\<close> at
  \<open>c.sendc <- m\<close> or a \<open>stop\<close> at \<open>c.stopc <- struct{}{}\<close>. And then
  it blocks for ever: whatever the other goroutines do, it stays there.
\<close>

theorem channel_blocked_for_ever:
  assumes "i < length (threads s)" and "threads s ! i \<noteq> Returned"
  shows "((\<forall>ch. chan_step (Run i ch) s = None) \<longleftrightarrow>
      \<not> loop s \<and> (threads s ! i = StopSync \<or> (\<exists>m. threads s ! i = SendHandOver m))) \<and>
    (\<forall>es s'. (\<forall>ch. chan_step (Run i ch) s = None) \<longrightarrow> chan_exec es s = Some s' \<longrightarrow>
      threads s' ! i = threads s ! i)"
proof -
  have iff: "(\<forall>ch. chan_step (Run i ch) s = None) \<longleftrightarrow>
      \<not> loop s \<and> (threads s ! i = StopSync \<or> (\<exists>m. threads s ! i = SendHandOver m))"
  proof (cases "threads s ! i")
    case (FwdSelect m b)
    have "chan_step (Run i Timeout) s \<noteq> None" using FwdSelect assms(1) by simp
    then show ?thesis using FwdSelect by (auto simp del: chan_step.simps)
  qed (use assms in auto)
  have "threads s' ! i = threads s ! i"
    if "\<forall>ch. chan_step (Run i ch) s = None" and ex: "chan_exec es s = Some s'" for es s'
    using chan_exec_blocked [OF ex, of i] assms(1) that(1) unfolding iff by (auto simp: needs_loop_def)
  then show ?thesis using iff by blast
qed

theorem channel_blocked_for_ever_witness:
  "\<exists>s. chan_exec (two_timeouts @ [Run 1 Deliver]) chan_running = Some s \<and>
     (\<forall>ch. chan_step (Run 3 ch) s = None) \<and>
     (\<forall>es s'. chan_exec es s = Some s' \<longrightarrow> threads s' ! 3 = StopSync)"
proof -
  define s :: "nat chan_state" where "s = \<lparr>active = True, has_ch = True, out_closed = False, loop = False,
    threads = [Returned, StopDeactivate, Returned, StopSync], closes = 0, accepted = [1, 2], received = []\<rparr>"
  have ex: "chan_exec (two_timeouts @ [Run 1 Deliver]) chan_running = Some s"
    unfolding s_def by code_simp
  have 3: "threads s ! 3 = StopSync" by (simp add: s_def)
  have "3 < length (threads s)" "threads s ! 3 \<noteq> Returned" by (simp_all add: s_def)
  from channel_blocked_for_ever [OF this] 3 ex show ?thesis by (auto simp: s_def)
qed

text \<open>
  Two concurrent calls of \<open>stop\<close> that have both seen the channel active (two
  messages that time out, or a timeout and an \<open>Unsub\<close>): however the execution goes on,
  at least one of them never gets past \<open>c.stopc <- struct{}{}\<close>.
\<close>

theorem second_stop_hangs:
  assumes "i \<noteq> j" and "i < length (threads s)" and "j < length (threads s)"
    and "threads s ! i = StopSync" and "threads s ! j = StopSync" and "chan_exec es s = Some s'"
  shows "threads s' ! i = StopSync \<or> threads s' ! j = StopSync"
  using assms
proof (induction es arbitrary: s)
  case (Cons e es)
  then obtain t where t: "chan_step e s = Some t" "chan_exec es t = Some s'" by (auto split: option.splits)
  have len: "i < length (threads t)" "j < length (threads t)"
    using Cons.prems chan_step_length [OF t(1)] by auto
  show ?case
  proof (cases "threads t ! i = StopSync \<and> threads t ! j = StopSync")
    case True
    then show ?thesis using Cons.IH [of t] Cons.prems t(2) len by auto
  next
    case False
    have "\<not> loop t \<and> (threads t ! i = StopSync \<or> threads t ! j = StopSync)"
      using t(1) False Cons.prems(1-5)
      by (elim chan_step_cases) (auto simp: nth_append nth_list_update split: if_splits)
    then show ?thesis
      using chan_exec_blocked [OF t(2)] len by (auto simp: needs_loop_def)
  qed
qed simp

theorem second_stop_hangs_witness:
  "\<exists>s. chan_exec two_timeouts chan_running = Some s \<and>
     (\<forall>es s'. chan_exec es s = Some s' \<longrightarrow> threads s' ! 1 = StopSync \<or> threads s' ! 3 = StopSync)"
proof -
  define s :: "nat chan_state" where "s = \<lparr>active = True, has_ch = True, out_closed = False, loop = True,
    threads = [Returned, StopSync, Returned, StopSync], closes = 0, accepted = [1, 2], received = []\<rparr>"
  have "chan_exec two_timeouts chan_running = Some s" by (simp add: two_timeouts_eq s_def)
  moreover have "threads s' ! 1 = StopSync \<or> threads s' ! 3 = StopSync" if "chan_exec es s = Some s'" for es s'
    by (rule second_stop_hangs [OF _ _ _ _ _ that]) (simp_all add: s_def)
  ultimately show ?thesis by blast
qed

end
