(* ===== verification/Gonet.thy ===== *)
theory Gonet
  imports Prelude
begin

text \<open>
  The text functions of Go's \<open>strconv\<close> and \<open>net\<close> packages that the program uses:
  \<open>Itoa\<close>, \<open>Atoi\<close>, \<open>JoinHostPort\<close>, \<open>SplitHostPort\<close>,
  \<open>ParseIP\<close>, \<open>IP.To4\<close> and \<open>IP.String\<close>. The textual form of IPv6
  addresses is a parameter (\<open>ipv6_text\<close>); that of IPv4 addresses is written out.
\<close>

section \<open>Numbers\<close>

definition digit :: "nat \<Rightarrow> char" where
  "digit d = char_of (48 + d)"

definition is_digit :: "char \<Rightarrow> bool" where
  "is_digit c \<longleftrightarrow> 48 \<le> (of_char c :: nat) \<and> (of_char c :: nat) \<le> 57"

definition digit_val :: "char \<Rightarrow> nat" where
  "digit_val c = of_char c - 48"

fun itoa :: "nat \<Rightarrow> string" where
  "itoa n = (if n < 10 then [digit n] else itoa (n div 10) @ [digit (n mod 10)])"

declare itoa.simps [simp del]

fun digits_val :: "nat \<Rightarrow> string \<Rightarrow> nat option" where
  "digits_val acc [] = Some acc"
| "digits_val acc (c # cs) = (if is_digit c then digits_val (acc * 10 + digit_val c) cs else None)"

definition max_int64 :: int where
  "max_int64 = 9223372036854775807"

definition atoi :: "string \<Rightarrow> int option" where
  "atoi s =
     (let neg = (s \<noteq> [] \<and> hd s = CHR ''-'');
          ds = (if s \<noteq> [] \<and> (hd s = CHR ''-'' \<or> hd s = CHR ''+'') then tl s else s) in
      if ds = [] then None
      else (case digits_val 0 ds of
              None \<Rightarrow> None
            | Some n \<Rightarrow>
                if neg then (if int n \<le> max_int64 + 1 then Some (- int n) else None)
                else (if int n \<le> max_int64 then Some (int n) else None)))"

lemma of_char_digit: "d < 10 \<Longrightarrow> (of_char (digit d) :: nat) = 48 + d"
  by (simp add: digit_def)

lemma is_digit_digit [simp]: "d < 10 \<Longrightarrow> is_digit (digit d)"
  by (simp add: is_digit_def of_char_digit)

lemma digit_val_digit [simp]: "d < 10 \<Longrightarrow> digit_val (digit d) = d"
  by (simp add: digit_val_def of_char_digit)

lemma itoa_digits: "\<forall>c \<in> set (itoa n). is_digit c"
proof (induction n rule: itoa.induct)
  case (1 n)
  then show ?case by (subst itoa.simps) auto
qed

lemma itoa_nonempty [simp]: "itoa n \<noteq> []"
  by (subst itoa.simps) simp

lemma digits_val_snoc:
  "digits_val acc (cs @ [c]) = (case digits_val acc cs of None \<Rightarrow> None
     | Some v \<Rightarrow> if is_digit c then Some (v * 10 + digit_val c) else None)"
  by (induction cs arbitrary: acc) auto

lemma digits_val_itoa [simp]: "digits_val 0 (itoa n) = Some n"
proof (induction n rule: itoa.induct)
  case (1 n)
  show ?case
  proof (cases "n < 10")
    case True
    then show ?thesis by (subst itoa.simps) simp
  next
    case False
    then have "digits_val 0 (itoa (n div 10) @ [digit (n mod 10)]) = Some n"
      using 1 by (simp add: digits_val_snoc)
    then show ?thesis using False by (subst itoa.simps) simp
  qed
qed

lemma not_digit_simps [simp]:
  "\<not> is_digit CHR ''.''" "\<not> is_digit CHR '':''" "\<not> is_digit CHR ''-''" "\<not> is_digit CHR ''+''"
  "\<not> is_digit CHR ''[''" "\<not> is_digit CHR '']''" "\<not> is_digit CHR ''%''"
  by (simp_all add: is_digit_def of_char_def)

lemma itoa_sign: "hd (itoa n) \<noteq> CHR ''-''" "hd (itoa n) \<noteq> CHR ''+''"
  using itoa_digits [of n] hd_in_set [OF itoa_nonempty [of n]] not_digit_simps(3,4) by metis+

lemma atoi_itoa: "int n \<le> max_int64 \<Longrightarrow> atoi (itoa n) = Some (int n)"
  by (simp add: atoi_def itoa_sign Let_def)

section \<open>Host and port\<close>

text \<open>\<open>net.JoinHostPort\<close>: a host with a colon or a percent sign is bracketed.\<close>

definition join_host_port :: "string \<Rightarrow> string \<Rightarrow> string" where
  "join_host_port host port =
     (if CHR '':'' \<in> set host \<or> CHR ''%'' \<in> set host then ''['' @ host @ '']:'' @ port else host @ '':'' @ port)"

text \<open>The index of the last colon, and of the first closing bracket.\<close>

fun last_colon :: "string \<Rightarrow> nat option" where
  "last_colon [] = None"
| "last_colon (c # cs) =
     (case last_colon cs of Some i \<Rightarrow> Some (Suc i) | None \<Rightarrow> if c = CHR '':'' then Some 0 else None)"

fun first_index :: "char \<Rightarrow> string \<Rightarrow> nat option" where
  "first_index c [] = None"
| "first_index c (d # ds) = (if d = c then Some 0 else map_option Suc (first_index c ds))"

definition split_host_port :: "string \<Rightarrow> (string \<times> string) option" where
  "split_host_port s =
     (case last_colon s of
        None \<Rightarrow> None
      | Some i \<Rightarrow>
          if hd s = CHR ''['' then
            (case first_index (CHR '']'') s of
               None \<Rightarrow> None
             | Some e \<Rightarrow>
                 if Suc e \<noteq> i then None
                 else if CHR ''['' \<in> set (drop 1 s) \<or> CHR '']'' \<in> set (drop (Suc e) s) then None
                 else Some (take (e - 1) (drop 1 s), drop (Suc i) s))
          else if CHR '':'' \<in> set (take i s) \<or> CHR ''['' \<in> set s \<or> CHR '']'' \<in> set s then None
          else Some (take i s, drop (Suc i) s))"

lemma last_colon_append:
  "CHR '':'' \<notin> set port \<Longrightarrow> last_colon (host @ CHR '':'' # port) = Some (length host)"
proof (induction host)
  case Nil
  then have "last_colon port = None" by (induction port) auto
  then show ?case by simp
qed simp

lemma first_index_append: "c \<notin> set xs \<Longrightarrow> first_index c (xs @ c # ys) = Some (length xs)"
  by (induction xs) auto

definition plain_text :: "string \<Rightarrow> bool" where
  "plain_text s \<longleftrightarrow> CHR ''['' \<notin> set s \<and> CHR '']'' \<notin> set s"

text \<open>Splitting undoes joining for hosts without brackets and ports without colons.\<close>

lemma split_join_host_port:
  assumes "plain_text host" and "plain_text port" and "CHR '':'' \<notin> set port"
  shows "split_host_port (join_host_port host port) = Some (host, port)"
proof (cases "CHR '':'' \<in> set host \<or> CHR ''%'' \<in> set host")
  case True
  let ?s = "CHR ''['' # host @ CHR '']'' # CHR '':'' # port"
  have "last_colon ((CHR ''['' # host @ [CHR '']'']) @ CHR '':'' # port) = Some (length (CHR ''['' # host @ [CHR '']'']))"
    by (rule last_colon_append [OF assms(3)])
  then have i: "last_colon ?s = Some (Suc (Suc (length host)))" by simp
  have "first_index CHR '']'' ((CHR ''['' # host) @ CHR '']'' # CHR '':'' # port) = Some (length (CHR ''['' # host))"
    using assms(1) by (intro first_index_append) (simp add: plain_text_def)
  then have e: "first_index CHR '']'' ?s = Some (Suc (length host))" by simp
  have "split_host_port ?s = Some (host, port)"
    unfolding split_host_port_def i e using assms by (simp add: plain_text_def)
  then show ?thesis using True by (simp add: join_host_port_def)
next
  case False
  have "hd (host @ CHR '':'' # port) \<noteq> CHR ''[''"
    using assms(1) by (cases host) (auto simp: plain_text_def)
  then show ?thesis
    using False assms last_colon_append [OF assms(3), of host]
    by (simp add: join_host_port_def split_host_port_def plain_text_def)
qed

section \<open>IP addresses\<close>

text \<open>
  An address is 4 or 16 bytes. \<open>to4\<close> recognises IPv4 addresses in both forms;
  \<open>ParseIP\<close> returns the 16 byte form.
\<close>

definition v4_prefix :: bytes where
  "v4_prefix = replicate 10 0 @ [255, 255]"

definition to4 :: "bytes \<Rightarrow> bytes option" where
  "to4 ip =
     (if length ip = 4 then Some ip
      else if length ip = 16 \<and> take 12 ip = v4_prefix then Some (drop 12 ip)
      else None)"

record ipv6_text =
  v6_string :: "bytes \<Rightarrow> string"
  v6_parse :: "string \<Rightarrow> bytes option"

fun ipv4_string :: "bytes \<Rightarrow> string" where
  "ipv4_string [a, b, c, d] =
     itoa (unat a) @ ''.'' @ itoa (unat b) @ ''.'' @ itoa (unat c) @ ''.'' @ itoa (unat d)"
| "ipv4_string _ = ''''"

definition ip_string :: "ipv6_text \<Rightarrow> bytes \<Rightarrow> string" where
  "ip_string v6 ip = (case to4 ip of Some ip4 \<Rightarrow> ipv4_string ip4 | None \<Rightarrow> v6_string v6 ip)"

text \<open>
  \<open>parseIPv4\<close>: four decimal numbers up to 255 with dots between them and nothing after
  them. \<open>k\<close> octets are still to come.
\<close>

fun parse_octets :: "nat \<Rightarrow> bool \<Rightarrow> string \<Rightarrow> bytes option" where
  "parse_octets 0 dot s = (if s = [] then Some [] else None)"
| "parse_octets (Suc k) dot s =
     (if s = [] \<or> dot \<and> hd s \<noteq> CHR ''.'' then None
      else
        (let s' = (if dot then tl s else s); ds = takeWhile is_digit s' in
         if ds = [] then None
         else (case digits_val 0 ds of
                 None \<Rightarrow> None
               | Some n \<Rightarrow>
                   if 255 < n then None
                   else map_option ((#) (word_of_nat n)) (parse_octets k True (dropWhile is_digit s')))))"

definition parse_ipv4 :: "string \<Rightarrow> bytes option" where
  "parse_ipv4 s = map_option ((@) v4_prefix) (parse_octets 4 False s)"

fun parse_ip :: "ipv6_text \<Rightarrow> string \<Rightarrow> bytes option" where
  "parse_ip v6 s =
     (case List.find (\<lambda>c. c = CHR ''.'' \<or> c = CHR '':'') s of
        None \<Rightarrow> None
      | Some c \<Rightarrow> if c = CHR ''.'' then parse_ipv4 s else v6_parse v6 s)"

declare parse_ip.simps [simp del]

text \<open>
  What the documentation of \<open>net.IP\<close> says of IPv6 text: parsing the text of an address
  gives the address back, the text has colons, the first before any dot, and no brackets or
  percent sign, and an address has 16 bytes.
\<close>

definition ipv6_text_ok :: "ipv6_text \<Rightarrow> bool" where
  "ipv6_text_ok v6 \<longleftrightarrow>
     (\<forall>ip. length ip = 16 \<longrightarrow> to4 ip = None \<longrightarrow>
        v6_parse v6 (v6_string v6 ip) = Some ip \<and> plain_text (v6_string v6 ip) \<and>
        List.find (\<lambda>c. c = CHR ''.'' \<or> c = CHR '':'') (v6_string v6 ip) = Some CHR '':'') \<and>
     (\<forall>s ip. v6_parse v6 s = Some ip \<longrightarrow> length ip = 16)"

lemma takeWhile_itoa:
  assumes "rest = [] \<or> \<not> is_digit (hd rest)"
  shows "takeWhile is_digit (itoa n @ rest) = itoa n" "dropWhile is_digit (itoa n @ rest) = rest"
  using assms itoa_digits [of n] by (cases rest; auto simp: takeWhile_append dropWhile_append)+

lemma unat_byte: "unat (b :: byte) \<le> 255"
  using unsigned_less [where ?'a = nat, of b] by simp

lemma parse_octets_dot:
  assumes "rest = [] \<or> \<not> is_digit (hd rest)"
  shows "parse_octets (Suc k) True (CHR ''.'' # itoa (unat b) @ rest) = map_option ((#) b) (parse_octets k True rest)"
  using takeWhile_itoa [OF assms] unat_byte [of b] by (simp add: Let_def not_less)

lemma parse_octets_first:
  assumes "rest = [] \<or> \<not> is_digit (hd rest)"
  shows "parse_octets (Suc k) False (itoa (unat b) @ rest) = map_option ((#) b) (parse_octets k True rest)"
  using takeWhile_itoa [OF assms] unat_byte [of b] by (simp add: Let_def not_less)

lemma parse_ipv4_string: "length ip = 4 \<Longrightarrow> parse_ipv4 (ipv4_string ip) = Some (v4_prefix @ ip)"
proof -
  assume "length ip = 4"
  then obtain a b c d where ip: "ip = [a, b, c, d]"
    by (auto simp: numeral_eq_Suc length_Suc_conv)
  have "parse_octets (Suc (Suc (Suc (Suc 0)))) False (ipv4_string ip) = Some [a, b, c, d]"
    using parse_octets_dot [where rest = "[]" and b = d and k = 0]
    by (simp add: ip parse_octets_first parse_octets_dot del: parse_octets.simps(2))
  then have "parse_octets 4 False (ipv4_string ip) = Some [a, b, c, d]"
    by (simp add: numeral_eq_Suc del: parse_octets.simps)
  then show ?thesis by (simp add: parse_ipv4_def ip)
qed

lemma find_ipv4_string:
  assumes "length ip = 4"
  shows "List.find (\<lambda>c. c = CHR ''.'' \<or> c = CHR '':'') (ipv4_string ip) = Some CHR ''.''"
proof -
  obtain a b c d where ip: "ip = [a, b, c, d]" using assms by (auto simp: numeral_eq_Suc length_Suc_conv)
  let ?P = "\<lambda>c. c = CHR ''.'' \<or> c = CHR '':''"
  have app: "\<forall>c \<in> set xs. \<not> P c \<Longrightarrow> List.find P (xs @ ys) = List.find P ys" for P :: "char \<Rightarrow> bool" and xs ys
    by (induction xs) auto
  have "\<forall>c \<in> set (itoa (unat a)). \<not> ?P c"
    using itoa_digits [of "unat a"] not_digit_simps(1,2) by blast
  then show ?thesis by (simp add: ip app)
qed

lemma length_v4_prefix [simp]: "length v4_prefix = 12"
  by (simp add: v4_prefix_def)

lemma to4_prefix [simp]: "length ip = 4 \<Longrightarrow> to4 (v4_prefix @ ip) = Some ip"
  by (simp add: to4_def)

lemma to4_Some: "to4 ip = Some ip4 \<Longrightarrow> length ip4 = 4 \<and> (ip = ip4 \<or> ip = v4_prefix @ ip4)"
  by (auto simp: to4_def split: if_splits) (metis append_take_drop_id)

text \<open>The text of an address parses to the address, in its 16 byte form.\<close>

lemma parse_ip_string:
  assumes "ipv6_text_ok v6" and "length ip = 4 \<or> length ip = 16"
  shows "parse_ip v6 (ip_string v6 ip) = Some (case to4 ip of Some ip4 \<Rightarrow> v4_prefix @ ip4 | None \<Rightarrow> ip)"
proof (cases "to4 ip")
  case None
  then have "length ip = 16" using assms(2) by (auto simp: to4_def)
  then show ?thesis
    using assms(1) None by (simp add: ip_string_def parse_ip.simps ipv6_text_ok_def)
next
  case (Some ip4)
  then have "length ip4 = 4" using to4_Some by blast
  then show ?thesis
    using Some by (simp add: ip_string_def parse_ip.simps find_ipv4_string parse_ipv4_string)
qed

end
