(* ===== verification/Node.thy ===== *)
theory Node
  imports Gonet
begin

text \<open>
  Package \<open>node\<close>, \<open>node.go\<close> and \<open>tunnel.go\<close>. Nodes and tunnels are
  used through pointers, and tunnels are shared between nodes by \<open>CopyTunnels\<close>, so both
  live in an explicit heap: a reference is an index into \<open>heap_tunnels\<close> or
  \<open>heap_nodes\<close>. Every method runs under the locks of the objects it touches and is one
  step. SHA-1 is the argument \<open>sha1\<close>, and \<open>net.ResolveTCPAddr\<close> followed by
  \<open>String\<close> the argument \<open>resolve\<close> (it may ask the name server).
\<close>

section \<open>State\<close>

record tunnel =
  tunnel_id :: string
  tunnel_target :: string
  tunnel_copies :: int

record node =
  node_id :: string
  node_baddr :: string
  node_paddr :: string
  node_is_local :: bool
  node_to_be_traced :: bool
  node_stopped :: bool
  node_active :: bool
  node_tunnels :: "(string \<times> nat) list"

record node_heap =
  heap_tunnels :: "tunnel list"
  heap_nodes :: "node list"

definition empty_heap :: node_heap where
  "empty_heap = \<lparr>heap_tunnels = [], heap_nodes = []\<rparr>"

section \<open>Tunnels\<close>

definition sha1_hash :: "(bytes \<Rightarrow> string) \<Rightarrow> bytes list \<Rightarrow> string" where
  "sha1_hash sha1 images = sha1 (concat images)"

definition new_tunnel :: "(bytes \<Rightarrow> string) \<Rightarrow> string \<Rightarrow> node_heap \<Rightarrow> nat \<times> node_heap" where
  "new_tunnel sha1 target hp =
     (length (heap_tunnels hp),
      hp\<lparr>heap_tunnels := heap_tunnels hp @
        [\<lparr>tunnel_id = sha1_hash sha1 [bytes_of target], tunnel_target = target, tunnel_copies = 1\<rparr>]\<rparr>)"

definition copies_of :: "node_heap \<Rightarrow> nat \<Rightarrow> int" where
  "copies_of hp t = tunnel_copies (heap_tunnels hp ! t)"

definition tunnel_copy :: "nat \<Rightarrow> node_heap \<Rightarrow> nat \<times> node_heap" where
  "tunnel_copy t hp = (length (heap_tunnels hp), hp\<lparr>heap_tunnels := heap_tunnels hp @ [heap_tunnels hp ! t]\<rparr>)"

definition set_copies :: "nat \<Rightarrow> int \<Rightarrow> node_heap \<Rightarrow> node_heap" where
  "set_copies t c hp = hp\<lparr>heap_tunnels := (heap_tunnels hp)[t := (heap_tunnels hp ! t)\<lparr>tunnel_copies := c\<rparr>]\<rparr>"

section \<open>Nodes\<close>

datatype node_error = NoBAddr | NoPAddr | NoTunnel string | AlreadyConnected | Unreachable

definition new_node ::
    "(bytes \<Rightarrow> string) \<Rightarrow> (string \<Rightarrow> string option) \<Rightarrow> string \<Rightarrow> string \<Rightarrow> string \<Rightarrow> bool \<Rightarrow>
     (node_heap, node_error, nat) step" where
  "new_node sha1 resolve host pport bport is_local hp =
     (case resolve (join_host_port host bport) of
        None \<Rightarrow> (Inl NoBAddr, hp)
      | Some baddr \<Rightarrow>
         (case resolve (join_host_port host pport) of
            None \<Rightarrow> (Inl NoPAddr, hp)
          | Some paddr \<Rightarrow>
              (Inr (length (heap_nodes hp)),
               hp\<lparr>heap_nodes := heap_nodes hp @
                 [\<lparr>node_id = sha1_hash sha1 [bytes_of host, bytes_of bport, bytes_of pport],
                   node_baddr = baddr, node_paddr = paddr, node_is_local = is_local,
                   node_to_be_traced = False, node_stopped = False, node_active = False,
                   node_tunnels = []\<rparr>]\<rparr>)))"

definition the_node :: "node_heap \<Rightarrow> nat \<Rightarrow> node" where
  "the_node hp n = heap_nodes hp ! n"

definition upd_node :: "nat \<Rightarrow> (node \<Rightarrow> node) \<Rightarrow> node_heap \<Rightarrow> node_heap" where
  "upd_node n f hp = hp\<lparr>heap_nodes := (heap_nodes hp)[n := f (heap_nodes hp ! n)]\<rparr>"

definition set_is_active :: "nat \<Rightarrow> bool \<Rightarrow> node_heap \<Rightarrow> node_heap" where
  "set_is_active n b hp = upd_node n (\<lambda>x. x\<lparr>node_active := b\<rparr>) hp"

definition is_active :: "node_heap \<Rightarrow> nat \<Rightarrow> bool" where
  "is_active hp n = node_active (the_node hp n)"

text \<open>\<open>CopyTunnels\<close> copies pointers: afterwards both nodes use the same tunnels.\<close>

definition copy_tunnels :: "nat \<Rightarrow> nat \<Rightarrow> node_heap \<Rightarrow> node_heap" where
  "copy_tunnels n into hp =
     upd_node into (\<lambda>x. x\<lparr>node_tunnels :=
       fold (\<lambda>(k, t) al. AList.update k t al) (node_tunnels (the_node hp n)) (node_tunnels x)\<rparr>) hp"

definition workload :: "node_heap \<Rightarrow> nat \<Rightarrow> int" where
  "workload hp n = sum_list (map (\<lambda>(k, t). copies_of hp t) (node_tunnels (the_node hp n)))"

definition add_tunnel :: "nat \<Rightarrow> nat \<Rightarrow> node_heap \<Rightarrow> node_heap" where
  "add_tunnel n t hp =
     (let hp = set_is_active n True hp;
          target = tunnel_target (heap_tunnels hp ! t) in
      (case map_of (node_tunnels (the_node hp n)) target of
         Some t' \<Rightarrow> set_copies t' (copies_of hp t' + 1) hp
       | None \<Rightarrow> upd_node n (\<lambda>x. x\<lparr>node_tunnels := AList.update target t (node_tunnels x)\<rparr>) hp))"

text \<open>\<open>PPort\<close> and \<open>BPort\<close>; the error of \<open>SplitHostPort\<close> is ignored.\<close>

definition port_of :: "string \<Rightarrow> string" where
  "port_of addr = (case split_host_port addr of None \<Rightarrow> '''' | Some (host, port) \<Rightarrow> port)"

definition node_pport :: "node_heap \<Rightarrow> nat \<Rightarrow> string" where
  "node_pport hp n = port_of (node_paddr (the_node hp n))"

definition node_bport :: "node_heap \<Rightarrow> nat \<Rightarrow> string" where
  "node_bport hp n = port_of (node_baddr (the_node hp n))"

definition tunnels :: "node_heap \<Rightarrow> nat \<Rightarrow> (string \<times> nat) list" where
  "tunnels hp n = node_tunnels (the_node hp n)"

text \<open>\<open>RemoveTunnel\<close>; its second argument \<open>acknoledged\<close> is not used by the code.\<close>

definition remove_tunnel :: "nat \<Rightarrow> string \<Rightarrow> bool \<Rightarrow> (node_heap, node_error, unit) step" where
  "remove_tunnel n target acknoledged hp =
     (case map_of (node_tunnels (the_node hp n)) target of
        None \<Rightarrow> (Inl (NoTunnel target), hp)
      | Some t \<Rightarrow>
          if copies_of hp t = 1 then
            (Inr (), upd_node n (\<lambda>x. x\<lparr>node_tunnels := AList.delete target (node_tunnels x)\<rparr>) hp)
          else (Inr (), set_copies t (copies_of hp t - 1) hp))"

definition find_tunnel :: "node_heap \<Rightarrow> nat \<Rightarrow> string \<Rightarrow> node_error + nat" where
  "find_tunnel hp n target =
     (case map_of (node_tunnels (the_node hp n)) target of None \<Rightarrow> Inl (NoTunnel target) | Some t \<Rightarrow> Inr t)"

text \<open>\<open>Close\<close> of a node: closing \<open>stop\<close> a second time panics.\<close>

definition close_node :: "nat \<Rightarrow> (node_heap, node_error stop, unit) step" where
  "close_node n hp =
     (let hp = set_is_active n False hp in
      if node_stopped (the_node hp n) then (Inl Panic, hp)
      else (Inr (), upd_node n (\<lambda>x. x\<lparr>node_stopped := True\<rparr>) hp))"

text \<open>\<open>Ping\<close>; whether the address can be dialled is the argument.\<close>

definition ping :: "(string \<Rightarrow> bool) \<Rightarrow> node_heap \<Rightarrow> nat \<Rightarrow> node_error + unit" where
  "ping reachable hp n =
     (if is_active hp n then Inl AlreadyConnected
      else if reachable (node_baddr (the_node hp n)) then Inr () else Inl Unreachable)"

end
