(* ===== verification/Ledger.thy ===== *)
theory Ledger
  imports Prelude
begin

text \<open>
  The contract between the nodes, which count the connections they are charged with, and the
  network, which feeds them the tunnel events of the proxies: a ledger of open connections per
  target. What follows from it for whole sequences of events is proved here once; package
  \<open>node\<close> provides the ledger (\<open>Node_Props\<close>), package \<open>booster\<close> uses it.
\<close>

datatype tunnel_event = Opened string | Ended string

text \<open>Added minus removed, per target.\<close>

fun event_balance :: "tunnel_event list \<Rightarrow> string \<Rightarrow> int" where
  "event_balance [] t = 0"
| "event_balance (Opened u # es) t = of_bool (u = t) + event_balance es t"
| "event_balance (Ended u # es) t = event_balance es t - of_bool (u = t)"

fun event_total :: "tunnel_event list \<Rightarrow> int" where
  "event_total [] = 0"
| "event_total (Opened u # es) = 1 + event_total es"
| "event_total (Ended u # es) = event_total es - 1"

text \<open>No connection is reported as ended before it was reported as opened.\<close>

fun in_sequence :: "(string \<Rightarrow> int) \<Rightarrow> tunnel_event list \<Rightarrow> bool" where
  "in_sequence c [] = True"
| "in_sequence c (Opened t # es) = in_sequence (c(t := c t + 1)) es"
| "in_sequence c (Ended t # es) = (0 < c t \<and> in_sequence (c(t := c t - 1)) es)"

locale tunnel_ledger =
  fixes count :: "'s \<Rightarrow> string \<Rightarrow> int"
    and total :: "'s \<Rightarrow> int"
    and open_one :: "string \<Rightarrow> 's \<Rightarrow> 's"
    and close_one :: "string \<Rightarrow> ('s, 'e, unit) step"
    and inv :: "'s \<Rightarrow> bool"
  assumes count_nonneg: "inv s \<Longrightarrow> 0 \<le> count s t"
    and open_inv: "inv s \<Longrightarrow> inv (open_one t s)"
    and open_count: "inv s \<Longrightarrow> count (open_one t s) = (count s)(t := count s t + 1)"
    and open_total: "inv s \<Longrightarrow> total (open_one t s) = total s + 1"
    and close_inv: "inv s \<Longrightarrow> inv (snd (close_one t s))"
    and close_known: "inv s \<Longrightarrow> 0 < count s t \<Longrightarrow> \<exists>s'. close_one t s = (Inr (), s') \<and>
        count s' = (count s)(t := count s t - 1) \<and> total s' = total s - 1"
    and close_unknown: "inv s \<Longrightarrow> count s t = 0 \<Longrightarrow> \<exists>e. close_one t s = (Inl e, s)"
begin

fun apply_event :: "tunnel_event \<Rightarrow> 's \<Rightarrow> 's" where
  "apply_event (Opened t) s = open_one t s"
| "apply_event (Ended t) s = snd (close_one t s)"

lemma apply_event_inv: "inv s \<Longrightarrow> inv (apply_event e s)"
  by (cases e) (simp_all add: open_inv close_inv)

lemma apply_events_inv: "inv s \<Longrightarrow> inv (fold apply_event es s)"
  by (induction es arbitrary: s) (simp_all add: apply_event_inv)

lemma in_sequence_exact:
  assumes "inv s" and "in_sequence (count s) es"
  shows "count (fold apply_event es s) t = count s t + event_balance es t \<and>
    total (fold apply_event es s) = total s + event_total es"
  using assms
proof (induction es arbitrary: s)
  case (Cons e es)
  have inv: "inv (apply_event e s)" by (rule apply_event_inv [OF Cons.prems(1)])
  show ?case
  proof (cases e)
    case (Opened u)
    then show ?thesis
      using Cons.IH [OF inv] Cons.prems open_count [OF Cons.prems(1), of u] open_total [OF Cons.prems(1), of u]
      by (auto simp: fun_upd_def)
  next
    case (Ended u)
    then obtain s' where "close_one u s = (Inr (), s')" "count s' = (count s)(u := count s u - 1)" "total s' = total s - 1"
      using close_known [OF Cons.prems(1), of u] Cons.prems(2) by auto
    then show ?thesis using Cons.IH [OF inv] Cons.prems(2) Ended by (auto simp: fun_upd_def)
  qed
qed simp

text \<open>In any order the ledger never shows less than it should, and never a negative count.\<close>

lemma never_below:
  assumes "inv s"
  shows "count s t + event_balance es t \<le> count (fold apply_event es s) t"
  using assms
proof (induction es arbitrary: s)
  case (Cons e es)
  note IH = Cons.IH [OF apply_event_inv [OF Cons.prems, of e]]
  show ?case
  proof (cases e)
    case (Opened u)
    then show ?thesis using IH open_count [OF Cons.prems, of u] by (auto split: if_splits)
  next
    case (Ended u)
    show ?thesis
    proof (cases "0 < count s u")
      case True
      then show ?thesis using IH close_known [OF Cons.prems True] Ended by (auto split: if_splits)
    next
      case False
      then have "count s u = 0" using count_nonneg [OF Cons.prems, of u] by simp
      then show ?thesis using IH close_unknown [OF Cons.prems, of u] Ended by auto
    qed
  qed
qed simp

text \<open>An end that overtakes its beginning is lost, and the connection stays on the ledger.\<close>

lemma overtaken_end:
  assumes "inv s" and "count s t = 0"
  shows "count (fold apply_event [Ended t, Opened t] s) t = 1"
proof -
  obtain e where "close_one t s = (Inl e, s)" using close_unknown [OF assms] by blast
  then show ?thesis using open_count [OF assms(1), of t] assms(2) by simp
qed

end

end
