(* ===== verification/Node_Props.thy ===== *)
theory Node_Props
  imports Node Ledger
begin

text \<open>
  The invariant of the node heap, the effect of each operation on the number of connections a
  node is charged with, per target and in total, and the interface of a tunnel ledger that the
  network relies on.
\<close>

section \<open>Invariant\<close>

definition node_wf :: "tunnel list \<Rightarrow> node \<Rightarrow> bool" where
  "node_wf ts x \<longleftrightarrow> distinct (keys (node_tunnels x)) \<and>
     (\<forall>(k, t) \<in> set (node_tunnels x). t < length ts \<and> tunnel_target (ts ! t) = k)"

definition heap_wf :: "node_heap \<Rightarrow> bool" where
  "heap_wf hp \<longleftrightarrow> (\<forall>t \<in> set (heap_tunnels hp). 1 \<le> tunnel_copies t) \<and>
     (\<forall>x \<in> set (heap_nodes hp). node_wf (heap_tunnels hp) x)"

definition node_ref :: "node_heap \<Rightarrow> nat \<Rightarrow> bool" where
  "node_ref hp n \<longleftrightarrow> n < length (heap_nodes hp)"

definition tunnel_ref :: "node_heap \<Rightarrow> nat \<Rightarrow> bool" where
  "tunnel_ref hp t \<longleftrightarrow> t < length (heap_tunnels hp)"

definition tunnel_count :: "node_heap \<Rightarrow> nat \<Rightarrow> string \<Rightarrow> int" where
  "tunnel_count hp n target =
     (case map_of (node_tunnels (the_node hp n)) target of None \<Rightarrow> 0 | Some t \<Rightarrow> copies_of hp t)"

section \<open>Reading after writing\<close>

named_theorems heap_simps "reading the node heap after an update"

lemma the_node_upd [heap_simps]:
  "node_ref hp n \<Longrightarrow> the_node (upd_node n f hp) m = (if m = n then f (the_node hp n) else the_node hp m)"
  by (simp add: the_node_def upd_node_def node_ref_def)

lemma heap_tunnels_upd [simp]: "heap_tunnels (upd_node n f hp) = heap_tunnels hp"
  by (simp add: upd_node_def)

lemma heap_nodes_set_copies [simp]: "heap_nodes (set_copies t c hp) = heap_nodes hp"
  by (simp add: set_copies_def)

lemma the_node_set_copies [simp]: "the_node (set_copies t c hp) n = the_node hp n"
  by (simp add: the_node_def)

lemma copies_of_upd [simp]: "copies_of (upd_node n f hp) t = copies_of hp t"
  by (simp add: copies_of_def)

lemma node_ref_simps [simp]:
  "node_ref (upd_node m f hp) n = node_ref hp n" "node_ref (set_copies t c hp) n = node_ref hp n"
  "node_ref (set_is_active m b hp) n = node_ref hp n"
  by (simp_all add: node_ref_def upd_node_def set_is_active_def)

lemma copies_of_set_copies [heap_simps]:
  "tunnel_ref hp t \<Longrightarrow> copies_of (set_copies t c hp) u = (if u = t then c else copies_of hp u)"
  by (simp add: copies_of_def set_copies_def tunnel_ref_def)

lemma heap_tunnels_active [simp]: "heap_tunnels (set_is_active n b hp) = heap_tunnels hp"
  by (simp add: set_is_active_def)

lemma copies_of_active [simp]: "copies_of (set_is_active n b hp) t = copies_of hp t"
  by (simp add: set_is_active_def)

lemma node_tunnels_active [simp]:
  "node_tunnels (the_node (set_is_active n b hp) m) = node_tunnels (the_node hp m)"
  by (cases "n < length (heap_nodes hp)")
     (auto simp: set_is_active_def upd_node_def the_node_def nth_list_update list_update_beyond)

lemma heap_tunnels_new_tunnel [simp]:
  "heap_tunnels (snd (new_tunnel sha1 target hp)) =
     heap_tunnels hp @ [\<lparr>tunnel_id = sha1_hash sha1 [bytes_of target], tunnel_target = target, tunnel_copies = 1\<rparr>]"
  "fst (new_tunnel sha1 target hp) = length (heap_tunnels hp)"
  "heap_nodes (snd (new_tunnel sha1 target hp)) = heap_nodes hp"
  "the_node (snd (new_tunnel sha1 target hp)) n = the_node hp n"
  "node_ref (snd (new_tunnel sha1 target hp)) n = node_ref hp n"
  by (simp_all add: new_tunnel_def the_node_def node_ref_def)

section \<open>Well-formedness is kept\<close>

lemma heap_wf_node: "heap_wf hp \<Longrightarrow> node_ref hp n \<Longrightarrow> node_wf (heap_tunnels hp) (the_node hp n)"
  by (simp add: heap_wf_def node_ref_def the_node_def)

lemma heap_wf_lookup:
  assumes "heap_wf hp" and "node_ref hp n" and "map_of (node_tunnels (the_node hp n)) k = Some t"
  shows "tunnel_ref hp t" and "tunnel_target (heap_tunnels hp ! t) = k" and "1 \<le> copies_of hp t"
  using heap_wf_node [OF assms(1,2)] map_of_SomeD [OF assms(3)] assms(1)
  by (auto simp: node_wf_def tunnel_ref_def copies_of_def heap_wf_def)

lemma heap_wf_upd:
  assumes "heap_wf hp" and "node_ref hp n \<Longrightarrow> node_wf (heap_tunnels hp) (f (the_node hp n))"
  shows "heap_wf (upd_node n f hp)"
proof (cases "node_ref hp n")
  case True
  then show ?thesis
    using assms unfolding heap_wf_def upd_node_def the_node_def
    by (auto dest!: set_update_subset_insert [THEN subsetD])
next
  case False
  then show ?thesis using assms(1) by (simp add: upd_node_def node_ref_def list_update_beyond)
qed

lemma node_wf_cong: "node_tunnels x = node_tunnels y \<Longrightarrow> node_wf ts x = node_wf ts y"
  by (simp add: node_wf_def)

lemma node_active_keeps: "node_tunnels (x\<lparr>node_active := b\<rparr>) = node_tunnels x"
  by simp

lemma heap_wf_active [wf_intros]: "heap_wf hp \<Longrightarrow> heap_wf (set_is_active n b hp)"
  unfolding set_is_active_def
  by (rule heap_wf_upd) (simp_all add: node_wf_cong [OF node_active_keeps] heap_wf_node)

lemma heap_wf_set_copies:
  assumes "heap_wf hp" and "1 \<le> c"
  shows "heap_wf (set_copies t c hp)"
proof (cases "t < length (heap_tunnels hp)")
  case True
  have "node_wf (heap_tunnels (set_copies t c hp)) x" if "node_wf (heap_tunnels hp) x" for x
    using that True by (force simp: node_wf_def set_copies_def nth_list_update)
  moreover have "\<forall>u \<in> set (heap_tunnels (set_copies t c hp)). 1 \<le> tunnel_copies u"
    using assms True by (auto simp: set_copies_def heap_wf_def dest!: set_update_subset_insert [THEN subsetD])
  ultimately show ?thesis using assms(1) by (simp add: heap_wf_def)
next
  case False
  then show ?thesis using assms(1) by (simp add: set_copies_def list_update_beyond)
qed

lemma heap_wf_new_tunnel [wf_intros]:
  assumes "heap_wf hp"
  shows "heap_wf (snd (new_tunnel sha1 target hp))"
proof -
  have "node_wf (heap_tunnels hp @ ts) x" if "node_wf (heap_tunnels hp) x" for x ts
    using that by (fastforce simp: node_wf_def nth_append)
  then show ?thesis using assms by (auto simp: heap_wf_def)
qed

lemma set_AList_update: "set (AList.update k v al) \<subseteq> insert (k, v) (set al)"
  by (induction al) auto

lemma set_AList_delete: "set (AList.delete k al) \<subseteq> set al"
  by (auto simp: AList.delete_eq)

lemma heap_wf_add_tunnel [wf_intros]:
  assumes "heap_wf hp" and "tunnel_ref hp t"
  shows "heap_wf (add_tunnel n t hp)"
proof -
  let ?hp = "set_is_active n True hp" and ?k = "tunnel_target (heap_tunnels hp ! t)"
  have wf: "heap_wf ?hp" by (rule heap_wf_active [OF assms(1)])
  show ?thesis
  proof (cases "map_of (node_tunnels (the_node hp n)) ?k")
    case None
    have "node_wf (heap_tunnels ?hp) ((the_node ?hp n)\<lparr>node_tunnels := AList.update ?k t (node_tunnels (the_node ?hp n))\<rparr>)"
      if "node_ref ?hp n"
      using heap_wf_node [OF wf that] assms(2) set_AList_update [of ?k t "node_tunnels (the_node ?hp n)"]
      by (fastforce simp: node_wf_def tunnel_ref_def)
    then show ?thesis
      using None heap_wf_upd [OF wf, of n] by (simp add: add_tunnel_def Let_def)
  next
    case (Some t')
    have "1 \<le> copies_of hp t' + 1" if "t' < length (heap_tunnels hp)"
      using assms(1) nth_mem [OF that] by (fastforce simp: heap_wf_def copies_of_def)
    moreover have "set_copies t' c ?hp = ?hp" if "\<not> t' < length (heap_tunnels hp)" for c
      using that by (simp add: set_copies_def list_update_beyond)
    ultimately show ?thesis
      using Some wf heap_wf_set_copies [OF wf] by (cases "t' < length (heap_tunnels hp)") (auto simp: add_tunnel_def Let_def)
  qed
qed

lemma heap_wf_remove_tunnel [wf_intros]:
  assumes "heap_wf hp" and "node_ref hp n"
  shows "heap_wf (snd (remove_tunnel n target ack hp))"
proof (cases "map_of (node_tunnels (the_node hp n)) target")
  case None
  then show ?thesis using assms by (simp add: remove_tunnel_def)
next
  case (Some t)
  have "node_wf (heap_tunnels hp) ((the_node hp n)\<lparr>node_tunnels := AList.delete target (node_tunnels (the_node hp n))\<rparr>)"
    using heap_wf_node [OF assms] set_AList_delete [of target "node_tunnels (the_node hp n)"]
    by (fastforce simp: node_wf_def)
  then have "heap_wf (upd_node n (\<lambda>x. x\<lparr>node_tunnels := AList.delete target (node_tunnels x)\<rparr>) hp)"
    by (intro heap_wf_upd [OF assms(1)])
  moreover have "heap_wf (set_copies t (copies_of hp t - 1) hp)" if "copies_of hp t \<noteq> 1"
    using heap_wf_lookup(3) [OF assms Some] that by (intro heap_wf_set_copies [OF assms(1)]) auto
  ultimately show ?thesis using Some by (simp add: remove_tunnel_def)
qed

lemma node_wf_fold_update:
  assumes "node_wf ts x" and "\<forall>(k, t) \<in> set al. t < length ts \<and> tunnel_target (ts ! t) = k"
  shows "node_wf ts (x\<lparr>node_tunnels := fold (\<lambda>(k, t) al. AList.update k t al) al (node_tunnels x)\<rparr>)"
  using assms
proof (induction al arbitrary: x)
  case (Cons kt al)
  obtain k t where kt: "kt = (k, t)" by (cases kt)
  have "node_wf ts (x\<lparr>node_tunnels := AList.update k t (node_tunnels x)\<rparr>)"
    using Cons.prems set_AList_update [of k t "node_tunnels x"] by (fastforce simp: node_wf_def kt)
  from Cons.IH [OF this] Cons.prems(2) show ?case by (simp add: kt)
qed simp

lemma heap_wf_copy_tunnels [wf_intros]:
  assumes "heap_wf hp" and "node_ref hp n"
  shows "heap_wf (copy_tunnels n into hp)"
  unfolding copy_tunnels_def
proof (rule heap_wf_upd [OF assms(1)])
  assume "node_ref hp into"
  then show "node_wf (heap_tunnels hp) ((the_node hp into)\<lparr>node_tunnels :=
      fold (\<lambda>(k, t) al. AList.update k t al) (node_tunnels (the_node hp n)) (node_tunnels (the_node hp into))\<rparr>)"
    using heap_wf_node [OF assms] by (intro node_wf_fold_update heap_wf_node [OF assms(1)]) (auto simp: node_wf_def)
qed

lemma heap_wf_close_node [wf_intros]: "heap_wf hp \<Longrightarrow> heap_wf (snd (close_node n hp))"
  unfolding close_node_def Let_def
  by (auto intro!: heap_wf_upd heap_wf_active simp: node_wf_cong [of "_\<lparr>node_stopped := True\<rparr>"] dest: heap_wf_node [rotated])

lemma heap_wf_new_node [wf_intros]: "heap_wf hp \<Longrightarrow> heap_wf (snd (new_node sha1 resolve host pport bport loc hp))"
  by (auto simp: new_node_def heap_wf_def node_wf_def split: option.splits)

section \<open>Counting\<close>

text \<open>What \<open>AddTunnel(NewTunnel(target))\<close> does, as one operation.\<close>

definition open_tunnel :: "(bytes \<Rightarrow> string) \<Rightarrow> nat \<Rightarrow> string \<Rightarrow> node_heap \<Rightarrow> node_heap" where
  "open_tunnel sha1 n target hp = (let (t, hp') = new_tunnel sha1 target hp in add_tunnel n t hp')"

lemma open_tunnel_eq:
  "open_tunnel sha1 n target hp = add_tunnel n (length (heap_tunnels hp)) (snd (new_tunnel sha1 target hp))"
  by (simp add: open_tunnel_def case_prod_unfold)

lemma open_tunnel_wf [wf_intros]: "heap_wf hp \<Longrightarrow> heap_wf (open_tunnel sha1 n target hp)"
  by (auto simp: open_tunnel_eq tunnel_ref_def intro!: wf_intros)

lemma copies_of_new_tunnel:
  "t < length (heap_tunnels hp) \<Longrightarrow> copies_of (snd (new_tunnel sha1 target hp)) t = copies_of hp t"
  by (simp add: copies_of_def nth_append)

lemma the_node_active [heap_simps]:
  "node_ref hp n \<Longrightarrow> the_node (set_is_active n b hp) m =
     (if m = n then (the_node hp n)\<lparr>node_active := b\<rparr> else the_node hp m)"
  by (simp add: set_is_active_def heap_simps)

lemma open_tunnel_cases:
  assumes "heap_wf hp" and "node_ref hp n"
  obtains t where "map_of (node_tunnels (the_node hp n)) target = Some t" and "tunnel_ref hp t"
      and "\<And>m. node_tunnels (the_node (open_tunnel sha1 n target hp) m) = node_tunnels (the_node hp m)"
      and "\<And>u. tunnel_ref hp u \<Longrightarrow>
        copies_of (open_tunnel sha1 n target hp) u = (if u = t then copies_of hp t + 1 else copies_of hp u)"
  | "map_of (node_tunnels (the_node hp n)) target = None"
      and "\<And>m. node_tunnels (the_node (open_tunnel sha1 n target hp) m) =
        (if m = n then node_tunnels (the_node hp n) @ [(target, length (heap_tunnels hp))]
         else node_tunnels (the_node hp m))"
      and "\<And>u. tunnel_ref hp u \<Longrightarrow> copies_of (open_tunnel sha1 n target hp) u = copies_of hp u"
      and "copies_of (open_tunnel sha1 n target hp) (length (heap_tunnels hp)) = 1"
proof (cases "map_of (node_tunnels (the_node hp n)) target")
  case None
  then have upd: "AList.update target t (node_tunnels (the_node hp n)) = node_tunnels (the_node hp n) @ [(target, t)]" for t
    by (intro update_new) (simp add: map_of_eq_None_iff)
  show ?thesis
    by (rule that(2) [OF None]; use None assms(2) in
      \<open>simp add: open_tunnel_eq add_tunnel_def Let_def heap_simps copies_of_new_tunnel tunnel_ref_def upd\<close>)
      (simp add: copies_of_def)
next
  case (Some t)
  have t: "tunnel_ref hp t" by (rule heap_wf_lookup(1) [OF assms Some])
  then have t': "tunnel_ref (set_is_active n True (snd (new_tunnel sha1 target hp))) t"
    by (simp add: tunnel_ref_def)
  show ?thesis
    by (rule that(1) [OF Some t]; use Some t t' assms(2) in
      \<open>simp add: open_tunnel_eq add_tunnel_def Let_def heap_simps copies_of_new_tunnel tunnel_ref_def\<close>)
qed

lemma sum_copies_change:
  fixes f :: "nat \<Rightarrow> int"
  assumes "distinct (map snd al)"
  shows "sum_list (map (\<lambda>(k, u). if u = t then c else f u) al) =
     sum_list (map (\<lambda>(k, u). f u) al) + (if t \<in> snd ` set al then c - f t else 0)"
  using assms by (induction al) (auto simp: image_iff)

lemma node_wf_distinct_refs:
  assumes "node_wf ts x"
  shows "distinct (map snd (node_tunnels x))"
proof -
  have "map fst (node_tunnels x) = map (\<lambda>t. tunnel_target (ts ! t)) (map snd (node_tunnels x))"
    using assms by (auto simp: node_wf_def)
  then show ?thesis
    using assms unfolding node_wf_def by (metis distinct_map)
qed

lemma sum_delete:
  fixes f :: "nat \<Rightarrow> int"
  assumes "distinct (keys al)" and "map_of al k = Some t"
  shows "sum_list (map (\<lambda>(k, u). f u) (AList.delete k al)) = sum_list (map (\<lambda>(k, u). f u) al) - f t"
  using assms
proof (induction al)
  case (Cons x al)
  obtain k' u where x: "x = (k', u)" by (cases x)
  show ?case
  proof (cases "k' = k")
    case True
    then have "k \<notin> fst ` set al" using Cons.prems(1) by (simp add: x)
    then show ?thesis using True Cons.prems(2) by (simp add: x delete_idem)
  next
    case False
    then show ?thesis using Cons by (simp add: x)
  qed
qed simp

lemma refs_in_heap: "heap_wf hp \<Longrightarrow> node_ref hp m \<Longrightarrow> (k, u) \<in> set (node_tunnels (the_node hp m)) \<Longrightarrow> tunnel_ref hp u"
  using heap_wf_node by (fastforce simp: node_wf_def tunnel_ref_def)

lemma workload_cong:
  assumes "node_tunnels (the_node hp' m) = node_tunnels (the_node hp m)"
    and "\<And>k u. (k, u) \<in> set (node_tunnels (the_node hp m)) \<Longrightarrow> copies_of hp' u = f u"
  shows "workload hp' m = sum_list (map (\<lambda>(k, u). f u) (node_tunnels (the_node hp m)))"
  unfolding workload_def assms(1) by (rule arg_cong [of _ _ sum_list]) (auto simp: assms(2))

lemma workload_open:
  assumes "heap_wf hp" and "node_ref hp n"
  shows "workload (open_tunnel sha1 n target hp) n = workload hp n + 1"
  using assms
proof (cases rule: open_tunnel_cases [where target = target and ?sha1.0 = sha1])
  case (1 t)
  have "workload (open_tunnel sha1 n target hp) n =
      sum_list (map (\<lambda>(k, u). if u = t then copies_of hp t + 1 else copies_of hp u) (node_tunnels (the_node hp n)))"
    by (rule workload_cong) (use 1 refs_in_heap [OF assms] in auto)
  also have "\<dots> = workload hp n + 1"
    using map_of_SomeD [OF 1(1)] node_wf_distinct_refs [OF heap_wf_node [OF assms]]
    by (subst sum_copies_change) (force simp: workload_def)+
  finally show ?thesis .
next
  case 2
  have "sum_list (map (\<lambda>(k, u). copies_of (open_tunnel sha1 n target hp) u) (node_tunnels (the_node hp n))) =
      sum_list (map (\<lambda>(k, u). copies_of hp u) (node_tunnels (the_node hp n)))"
    by (rule arg_cong [of _ _ sum_list]) (use 2(3) refs_in_heap [OF assms] in auto)
  then show ?thesis by (simp add: workload_def 2)
qed

lemma lookup_inj:
  assumes "heap_wf hp" and "node_ref hp n" and "map_of (node_tunnels (the_node hp n)) k = Some t"
    and "map_of (node_tunnels (the_node hp n)) k' = Some t'"
  shows "t = t' \<longleftrightarrow> k = k'"
  using heap_wf_lookup(2) [OF assms(1-3)] heap_wf_lookup(2) [OF assms(1,2,4)] assms(3,4) by (metis option.inject)

lemma count_open:
  assumes "heap_wf hp" and "node_ref hp n"
  shows "tunnel_count (open_tunnel sha1 n target hp) n =
    (tunnel_count hp n)(target := tunnel_count hp n target + 1)"
  using assms
proof (cases rule: open_tunnel_cases [where target = target and ?sha1.0 = sha1])
  case (1 t)
  show ?thesis
  proof (intro ext)
    fix k
    show "tunnel_count (open_tunnel sha1 n target hp) n k =
        ((tunnel_count hp n)(target := tunnel_count hp n target + 1)) k"
    proof (cases "map_of (node_tunnels (the_node hp n)) k")
      case None
      then show ?thesis using 1(1) by (auto simp: tunnel_count_def 1(3))
    next
      case (Some u)
      then show ?thesis
        using 1(1) heap_wf_lookup(1) [OF assms Some] lookup_inj [OF assms Some 1(1)]
        by (auto simp: tunnel_count_def 1(3,4))
    qed
  qed
next
  case 2
  show ?thesis
  proof (intro ext)
    fix k
    show "tunnel_count (open_tunnel sha1 n target hp) n k =
        ((tunnel_count hp n)(target := tunnel_count hp n target + 1)) k"
    proof (cases "map_of (node_tunnels (the_node hp n)) k")
      case None
      then show ?thesis
        using 2(1) 2(4) by (simp add: tunnel_count_def 2(2) map_add_def)
    next
      case (Some u)
      moreover from Some have "k \<noteq> target" using 2(1) by auto
      ultimately show ?thesis
        using 2(3) [OF heap_wf_lookup(1) [OF assms Some]] by (simp add: tunnel_count_def 2(2) map_add_def)
    qed
  qed
qed

lemma remove_tunnel_known:
  assumes "heap_wf hp" and "node_ref hp n" and "map_of (node_tunnels (the_node hp n)) target = Some t"
  obtains hp' where "remove_tunnel n target ack hp = (Inr (), hp')"
    and "workload hp' n = workload hp n - 1"
    and "tunnel_count hp' n = (tunnel_count hp n)(target := tunnel_count hp n target - 1)"
proof (cases "copies_of hp t = 1")
  case True
  let ?hp = "upd_node n (\<lambda>x. x\<lparr>node_tunnels := AList.delete target (node_tunnels x)\<rparr>) hp"
  have "distinct (keys (node_tunnels (the_node hp n)))"
    using heap_wf_node [OF assms(1,2)] by (simp add: node_wf_def)
  then have "workload ?hp n = workload hp n - 1"
    using assms(2,3) True by (simp add: workload_def heap_simps sum_delete)
  moreover have "tunnel_count ?hp n = (tunnel_count hp n)(target := tunnel_count hp n target - 1)"
    using assms(2,3) True by (intro ext) (simp add: tunnel_count_def heap_simps delete_conv' split: option.split)
  ultimately show ?thesis using assms(3) True that [of ?hp] by (simp add: remove_tunnel_def)
next
  case False
  let ?hp = "set_copies t (copies_of hp t - 1) hp"
  have t: "tunnel_ref hp t" by (rule heap_wf_lookup(1) [OF assms])
  have "workload ?hp n =
      sum_list (map (\<lambda>(k, u). if u = t then copies_of hp t - 1 else copies_of hp u) (node_tunnels (the_node hp n)))"
    by (rule workload_cong) (use t in \<open>auto simp: heap_simps\<close>)
  also have "\<dots> = workload hp n - 1"
    using map_of_SomeD [OF assms(3)] node_wf_distinct_refs [OF heap_wf_node [OF assms(1,2)]]
    by (subst sum_copies_change) (force simp: workload_def)+
  finally have wl: "workload ?hp n = workload hp n - 1" .
  have "tunnel_count ?hp n k = ((tunnel_count hp n)(target := tunnel_count hp n target - 1)) k" for k
  proof (cases "map_of (node_tunnels (the_node hp n)) k")
    case None
    then show ?thesis using assms(3) by (auto simp: tunnel_count_def)
  next
    case (Some u)
    then show ?thesis
      using assms(3) t lookup_inj [OF assms(1,2) Some assms(3)] by (auto simp: tunnel_count_def heap_simps)
  qed
  then have "tunnel_count ?hp n = (tunnel_count hp n)(target := tunnel_count hp n target - 1)" by (rule ext)
  then show ?thesis using assms(3) False wl that [of ?hp] by (simp add: remove_tunnel_def)
qed

section \<open>The ledger, provided\<close>

lemma tunnel_count_nonneg:
  assumes "heap_wf hp" and "node_ref hp n"
  shows "0 \<le> tunnel_count hp n t"
proof (cases "map_of (node_tunnels (the_node hp n)) t")
  case (Some u)
  then show ?thesis using heap_wf_lookup(3) [OF assms Some] by (simp add: tunnel_count_def)
qed (simp add: tunnel_count_def)

lemma tunnel_count_pos:
  assumes "heap_wf hp" and "node_ref hp n" and "0 < tunnel_count hp n t"
  obtains u where "map_of (node_tunnels (the_node hp n)) t = Some u"
  using assms(3) by (auto simp: tunnel_count_def split: option.splits)

lemma node_ref_open [simp]: "node_ref (open_tunnel sha1 m target hp) n = node_ref hp n"
  by (simp add: open_tunnel_eq add_tunnel_def Let_def split: option.splits)

lemma node_ref_remove [simp]: "node_ref (snd (remove_tunnel m target ack hp)) n = node_ref hp n"
  by (simp add: remove_tunnel_def split: option.splits)

interpretation node_ledger: tunnel_ledger "\<lambda>hp. tunnel_count hp n" "\<lambda>hp. workload hp n" "open_tunnel sha1 n"
    "\<lambda>t. remove_tunnel n t ack" "\<lambda>hp. heap_wf hp \<and> node_ref hp n" for n sha1 ack
proof (unfold_locales, goal_cases)
  case (6 hp t)
  then obtain u where "map_of (node_tunnels (the_node hp n)) t = Some u" by (auto elim: tunnel_count_pos)
  with 6 show ?case by (auto elim: remove_tunnel_known [where ack = ack])
next
  case (7 hp t)
  have "map_of (node_tunnels (the_node hp n)) t = None"
  proof (rule ccontr)
    assume "map_of (node_tunnels (the_node hp n)) t \<noteq> None"
    then obtain u where u: "map_of (node_tunnels (the_node hp n)) t = Some u" by auto
    then show False using heap_wf_lookup(3) [of hp n t u] 7 by (simp add: tunnel_count_def)
  qed
  then show ?case by (simp add: remove_tunnel_def)
qed (auto simp: tunnel_count_nonneg count_open workload_open intro: wf_intros)

section \<open>Properties\<close>

definition demo_sha1 :: "bytes \<Rightarrow> string" where
  "demo_sha1 bs = string_of bs"

definition demo_heap :: node_heap where
  "demo_heap = snd (new_node demo_sha1 Some ''10.0.0.2'' ''1080'' ''4884'' False
     (snd (new_node demo_sha1 Some ''localhost'' ''1080'' ''4884'' True empty_heap)))"

lemma empty_heap_wf: "heap_wf empty_heap"
  by (simp add: heap_wf_def empty_heap_def)

lemma demo_heap_wf: "heap_wf demo_heap"
  unfolding demo_heap_def by (intro wf_intros empty_heap_wf)

lemma demo_heap_refs: "node_ref demo_heap 0" "node_ref demo_heap 1" "node_ref demo_heap (Suc 0)"
  by (simp_all add: demo_heap_def node_ref_def new_node_def empty_heap_def)

text \<open>
  Every operation of the package keeps the node heap well formed: every tunnel has at least
  one copy, a node's map has one entry per target, and every entry points to a tunnel for that
  target. (\<open>AddTunnel\<close> of an existing tunnel, \<open>RemoveTunnel\<close>,
  \<open>CopyTunnels\<close>, \<open>SetIsActive\<close>, \<open>Close\<close>, \<open>New\<close>,
  \<open>NewTunnel\<close>.)
\<close>

theorem node_operations_keep_invariant:
  assumes "heap_wf hp" and "node_ref hp n" and "tunnel_ref hp t"
  shows "heap_wf (add_tunnel n t hp) \<and> heap_wf (snd (remove_tunnel n target ack hp)) \<and>
    heap_wf (copy_tunnels n m hp) \<and> heap_wf (set_is_active n b hp) \<and> heap_wf (snd (close_node n hp)) \<and>
    heap_wf (snd (new_node sha1 resolve host pport bport loc hp)) \<and> heap_wf (snd (new_tunnel sha1 target hp))"
  using assms by (intro conjI wf_intros)

theorem node_operations_keep_invariant_witness:
  "heap_wf (snd (remove_tunnel 1 ''a:1'' True (open_tunnel demo_sha1 1 ''a:1'' demo_heap)))"
proof -
  have "heap_wf (open_tunnel demo_sha1 1 ''a:1'' demo_heap)" by (intro wf_intros demo_heap_wf)
  moreover have "tunnel_ref (open_tunnel demo_sha1 1 ''a:1'' demo_heap) 0" by code_simp
  ultimately show ?thesis
    using node_operations_keep_invariant [of "open_tunnel demo_sha1 1 ''a:1'' demo_heap" 1 0 "''a:1''" True]
    by (simp add: demo_heap_refs)
qed

text \<open>
  C22: The workload of a node counts connections: \<open>AddTunnel\<close> of a new tunnel raises the
  count of its target and the workload by one; \<open>RemoveTunnel\<close> lowers both by one when
  the target has a tunnel, and otherwise returns an error and changes nothing.
\<close>

theorem workload_counts_connections:
  assumes "heap_wf hp" and "node_ref hp n"
  shows "tunnel_count (open_tunnel sha1 n target hp) n = (tunnel_count hp n)(target := tunnel_count hp n target + 1) \<and>
    workload (open_tunnel sha1 n target hp) n = workload hp n + 1 \<and>
    (if tunnel_count hp n target = 0 then remove_tunnel n target ack hp = (Inl (NoTunnel target), hp)
     else fst (remove_tunnel n target ack hp) = Inr () \<and>
       workload (snd (remove_tunnel n target ack hp)) n = workload hp n - 1 \<and>
       tunnel_count (snd (remove_tunnel n target ack hp)) n = (tunnel_count hp n)(target := tunnel_count hp n target - 1))"
proof (intro conjI)
  show "tunnel_count (open_tunnel sha1 n target hp) n = (tunnel_count hp n)(target := tunnel_count hp n target + 1)"
    by (rule count_open [OF assms])
  show "workload (open_tunnel sha1 n target hp) n = workload hp n + 1"
    by (rule workload_open [OF assms])
  show "if tunnel_count hp n target = 0 then remove_tunnel n target ack hp = (Inl (NoTunnel target), hp)
     else fst (remove_tunnel n target ack hp) = Inr () \<and>
       workload (snd (remove_tunnel n target ack hp)) n = workload hp n - 1 \<and>
       tunnel_count (snd (remove_tunnel n target ack hp)) n = (tunnel_count hp n)(target := tunnel_count hp n target - 1)"
  proof (cases "map_of (node_tunnels (the_node hp n)) target")
    case None
    then show ?thesis by (simp add: tunnel_count_def remove_tunnel_def)
  next
    case (Some t)
    then have "tunnel_count hp n target \<noteq> 0"
      using heap_wf_lookup(3) [OF assms Some] by (simp add: tunnel_count_def)
    with assms Some show ?thesis
      by (auto elim: remove_tunnel_known [where ack = ack])
  qed
qed

theorem workload_counts_connections_witness:
  "workload (open_tunnel demo_sha1 1 ''a:1'' demo_heap) 1 = workload demo_heap 1 + 1 \<and>
   remove_tunnel 1 ''a:1'' True demo_heap = (Inl (NoTunnel ''a:1''), demo_heap)"
proof -
  have "tunnel_count demo_heap 1 ''a:1'' = 0" by code_simp
  with workload_counts_connections [OF demo_heap_wf demo_heap_refs(2), of demo_sha1 "''a:1''" True]
  show ?thesis by simp
qed

lemma fold_update_all:
  "distinct (keys al) \<Longrightarrow> map_of (fold (\<lambda>(k, t) al. AList.update k t al) al bl) k =
     (case map_of al k of None \<Rightarrow> map_of bl k | Some t \<Rightarrow> Some t)"
  by (induction al arbitrary: bl) (auto simp: update_conv' map_of_eq_None_iff image_iff split: option.splits)

lemma copy_tunnels_lookup:
  assumes "heap_wf hp" and "node_ref hp n" and "node_ref hp into" and "n \<noteq> into"
    and "node_tunnels (the_node hp into) = []"
  shows "map_of (node_tunnels (the_node (copy_tunnels n into hp) into)) k = map_of (node_tunnels (the_node hp n)) k \<and>
    the_node (copy_tunnels n into hp) n = the_node hp n"
  using assms heap_wf_node [OF assms(1,2)]
  by (auto simp: copy_tunnels_def heap_simps fold_update_all node_wf_def split: option.splits)

text \<open>
  \<open>CopyTunnels\<close> shares tunnels: after the tunnels of a node have been copied into a
  node without tunnels (as on reconnecting), a connection added to the new node for a target the
  old node has a tunnel for is also charged to the old node, and the other way around.
\<close>

theorem copied_tunnels_are_shared:
  assumes "heap_wf hp" and "node_ref hp n" and "node_ref hp into" and "n \<noteq> into"
    and "node_tunnels (the_node hp into) = []" and "tunnel_count hp n target \<noteq> 0"
  shows "tunnel_count (open_tunnel sha1 into target (copy_tunnels n into hp)) n target = tunnel_count hp n target + 1 \<and>
    tunnel_count (open_tunnel sha1 n target (copy_tunnels n into hp)) into target = tunnel_count hp n target + 1"
proof -
  let ?hp = "copy_tunnels n into hp"
  obtain t where t: "map_of (node_tunnels (the_node hp n)) target = Some t"
    using assms(6) by (auto simp: tunnel_count_def split: option.splits)
  have wf: "heap_wf ?hp" using assms(1,2) by (rule heap_wf_copy_tunnels)
  have refs: "node_ref ?hp n" "node_ref ?hp into" using assms(2,3) by (simp_all add: copy_tunnels_def)
  have look: "map_of (node_tunnels (the_node ?hp into)) target = Some t"
      "map_of (node_tunnels (the_node ?hp n)) target = Some t"
    using copy_tunnels_lookup [OF assms(1-5)] t by auto
  have copies: "copies_of ?hp t = tunnel_count hp n target"
    using t by (simp add: tunnel_count_def copy_tunnels_def)
  have "tunnel_count (open_tunnel sha1 m target ?hp) m' target = copies_of ?hp t + 1"
    if "m \<in> {n, into}" and "m' \<in> {n, into}" for m m'
  proof -
    have ref: "node_ref ?hp m" and m: "map_of (node_tunnels (the_node ?hp m)) target = Some t"
        and m': "map_of (node_tunnels (the_node ?hp m')) target = Some t"
      using that refs look by auto
    from wf ref show ?thesis
    proof (cases rule: open_tunnel_cases [where target = target and ?sha1.0 = sha1])
      case (1 u)
      then show ?thesis using m m' by (simp add: tunnel_count_def 1(3,4))
    qed (use m in simp)
  qed
  then show ?thesis using copies by simp
qed

theorem copied_tunnels_are_shared_witness:
  "tunnel_count (open_tunnel demo_sha1 1 ''a:1'' (copy_tunnels 0 1 (open_tunnel demo_sha1 0 ''a:1'' demo_heap))) 0 ''a:1'' = 2"
proof -
  let ?hp = "open_tunnel demo_sha1 0 ''a:1'' demo_heap"
  have wf: "heap_wf ?hp" by (intro wf_intros demo_heap_wf)
  have "node_tunnels (the_node ?hp 1) = []" and one: "tunnel_count ?hp 0 ''a:1'' = 1" by code_simp+
  then show ?thesis
    using copied_tunnels_are_shared [OF wf, of 0 1 "''a:1''" demo_sha1] by (simp add: demo_heap_refs)
qed

lemma new_node_ref:
  assumes "new_node sha1 resolve host pport bport loc hp = (Inr n, hp')"
  shows "n = length (heap_nodes hp) \<and> (\<exists>x. heap_nodes hp' = heap_nodes hp @ [x] \<and>
    node_id x = sha1_hash sha1 [bytes_of host, bytes_of bport, bytes_of pport])"
  using assms by (auto simp: new_node_def split: option.splits)

text \<open>
  The identifier of a node does not separate host and ports: the hash is taken of the host,
  the booster port and the proxy port without separators, so two nodes whose three parts
  concatenate to the same string get the same identifier.
\<close>

theorem node_identifiers_collide:
  assumes "host @ bport @ pport = host' @ bport' @ pport'"
    and "new_node sha1 resolve host pport bport loc hp = (Inr n, hp1)"
    and "new_node sha1 resolve host' pport' bport' loc' hp1 = (Inr n', hp2)"
  shows "n \<noteq> n' \<and> node_id (the_node hp2 n) = node_id (the_node hp2 n')"
proof -
  have "bytes_of host @ bytes_of bport @ bytes_of pport = bytes_of host' @ bytes_of bport' @ bytes_of pport'"
    using assms(1) by (metis bytes_of_def map_append)
  then have same: "sha1_hash sha1 [bytes_of host, bytes_of bport, bytes_of pport] =
      sha1_hash sha1 [bytes_of host', bytes_of bport', bytes_of pport']"
    by (simp add: sha1_hash_def)
  obtain x where x: "n = length (heap_nodes hp)" "heap_nodes hp1 = heap_nodes hp @ [x]"
      "node_id x = sha1_hash sha1 [bytes_of host, bytes_of bport, bytes_of pport]"
    using new_node_ref [OF assms(2)] by blast
  obtain y where y: "n' = length (heap_nodes hp1)" "heap_nodes hp2 = heap_nodes hp1 @ [y]"
      "node_id y = sha1_hash sha1 [bytes_of host', bytes_of bport', bytes_of pport']"
    using new_node_ref [OF assms(3)] by blast
  have "the_node hp2 n = x" "the_node hp2 n' = y" "n \<noteq> n'"
    using x(1,2) y(1,2) by (simp_all add: the_node_def nth_append)
  then show ?thesis using x(3) y(3) same by simp
qed

theorem node_identifiers_collide_witness:
  "node_id (the_node (snd (new_node demo_sha1 Some ''10.0.0.1'' ''80'' ''123'' False
      (snd (new_node demo_sha1 Some ''10.0.0.1'' ''380'' ''12'' False demo_heap)))) 2) =
   node_id (the_node (snd (new_node demo_sha1 Some ''10.0.0.1'' ''80'' ''123'' False
      (snd (new_node demo_sha1 Some ''10.0.0.1'' ''380'' ''12'' False demo_heap)))) 3)"
proof -
  let ?one = "new_node demo_sha1 Some ''10.0.0.1'' ''380'' ''12'' False demo_heap"
  let ?two = "new_node demo_sha1 Some ''10.0.0.1'' ''80'' ''123'' False (snd ?one)"
  have 1: "?one = (Inr 2, snd ?one)" and 2: "?two = (Inr 3, snd ?two)" by code_simp+
  from node_identifiers_collide [OF _ 1 2] show ?thesis by simp
qed

end
