(* ===== verification/Dispatcher.thy ===== *)
theory Dispatcher
  imports Node
begin

text \<open>
  Package \<open>node\<close>, \<open>dispatcher.go\<close>: the load balancer \<open>GetNodeBalanced\<close>
  and the dial loop built on it. What \<open>Nodes()\<close> returns is a root reference and the
  list of remote references, in the order of the network's map iteration.
\<close>

section \<open>The balancer\<close>

datatype balancer_error = NoSuitableNode

fun is_in :: "string \<Rightarrow> string list \<Rightarrow> bool" where
  "is_in i [] = False"
| "is_in i (v # vs) = (if i = v then True else is_in i vs)"

text \<open>
  The loop of \<open>GetNodeBalanced\<close>: the candidate and the total workload of the active
  nodes so far.
\<close>

fun balance_loop :: "node_heap \<Rightarrow> string list \<Rightarrow> nat list \<Rightarrow> nat option \<Rightarrow> int \<Rightarrow> nat option \<times> int" where
  "balance_loop hp exc [] c twl = (c, twl)"
| "balance_loop hp exc (e # es) c twl =
     (if \<not> is_active hp e then balance_loop hp exc es c twl
      else
        (let ewl = workload hp e; twl' = twl + ewl in
         if is_in (node_id (the_node hp e)) exc then balance_loop hp exc es c twl'
         else
           (let c' = (case c of None \<Rightarrow> e | Some c \<Rightarrow> c);
                cwl = workload hp c' in
            balance_loop hp exc es (Some (if ewl < cwl then e else c')) twl')))"

definition get_node_balanced ::
    "node_heap \<Rightarrow> nat \<times> nat list \<Rightarrow> string list \<Rightarrow> nat \<times> balancer_error option" where
  "get_node_balanced hp view exc =
     (let (root, nodes) = view;
          tr = workload hp root;
          (c, twl) = balance_loop hp exc nodes None 0;
          root_excluded = is_in (node_id (the_node hp root)) exc in
      (case c of
         None \<Rightarrow> if root_excluded then (root, Some NoSuitableNode) else (root, None)
       | Some c \<Rightarrow>
           if workload hp c > tr - twl then (if root_excluded then (c, None) else (root, None))
           else (c, None)))"

text \<open>
  The closure of \<open>nodeFinderFunc\<close>: \<open>ids\<close> is its captured list of the nodes
  tried so far.
\<close>

definition node_finder ::
    "node_heap \<Rightarrow> nat \<times> nat list \<Rightarrow> (string list, balancer_error, nat) step" where
  "node_finder hp view ids =
     (case get_node_balanced hp view ids of
        (n, None) \<Rightarrow> (Inr n, ids @ [node_id (the_node hp n)])
      | (n, Some e) \<Rightarrow> (Inl e, ids))"

section \<open>Dialling\<close>

datatype gateway = LocalGateway | Socks5Gateway string

text \<open>\<open>proxy.SOCKS5\<close> only builds the dialer and never fails.\<close>

definition dialer_for_node :: "node_heap \<Rightarrow> nat \<Rightarrow> gateway" where
  "dialer_for_node hp n =
     (if node_is_local (the_node hp n) then LocalGateway else Socks5Gateway (node_paddr (the_node hp n)))"

text \<open>
  The world around a dial: what \<open>Nodes()\<close> and the nodes look like at iteration
  \<open>i\<close> (they change while the loop runs), the outcome of the connection attempt at that
  iteration, and \<open>ctx.Err()\<close> right after it.
\<close>

record ('c, 'e) dial_world =
  w_view :: "nat \<Rightarrow> nat \<times> nat list"
  w_heap :: "nat \<Rightarrow> node_heap"
  w_dial :: "nat \<Rightarrow> gateway \<Rightarrow> 'e + 'c"
  w_ctx_err :: "nat \<Rightarrow> 'e option"

datatype 'e dial_error = BalancerFailed | DialFailed 'e

text \<open>
  The loop of \<open>DialContext\<close>, from iteration \<open>i\<close> with the node to try. The
  result is the pair the code returns, connection and error, each possibly nil; the second
  component is the list of the nodes tried. \<open>None\<close>: out of fuel.
  When the dial error is the context's error the code returns \<open>nil, err\<close>, where
  \<open>err\<close> is that of \<open>dialerForNode\<close>, which was nil.
\<close>

fun dial_loop ::
    "nat \<Rightarrow> ('c, 'e) dial_world \<Rightarrow> nat \<Rightarrow> nat \<Rightarrow> string list \<Rightarrow>
     (('c option \<times> 'e dial_error option) \<times> string list) option" where
  "dial_loop 0 w i n ids = None"
| "dial_loop (Suc fuel) w i n ids =
     (case w_dial w i (dialer_for_node (w_heap w i) n) of
        Inr conn \<Rightarrow> Some ((Some conn, None), ids)
      | Inl cerr \<Rightarrow>
          if w_ctx_err w i = Some cerr then Some ((None, None), ids)
          else
            (case node_finder (w_heap w (Suc i)) (w_view w (Suc i)) ids of
               (Inl _, ids') \<Rightarrow> Some ((None, Some (DialFailed cerr)), ids')
             | (Inr n', ids') \<Rightarrow> dial_loop fuel w (Suc i) n' ids'))"

definition dial_context ::
    "nat \<Rightarrow> ('c, 'e) dial_world \<Rightarrow> (('c option \<times> 'e dial_error option) \<times> string list) option" where
  "dial_context fuel w =
     (case node_finder (w_heap w 0) (w_view w 0) [] of
        (Inl _, ids) \<Rightarrow> Some ((None, Some BalancerFailed), ids)
      | (Inr n, ids) \<Rightarrow> dial_loop fuel w 0 n ids)"

text \<open>
  \<open>socks5Dialer.DialContext\<close>: the dial runs in its own goroutine, and whichever comes
  first is returned, the context's end or the dial's outcome. In the first case nobody receives
  from \<open>errc\<close> and \<open>connc\<close> any more, and the goroutine (with the connection, if
  it made one) blocks for ever on its send: the third component says whether it is left behind.
\<close>

datatype first_event = CtxDone | DialDone

definition socks5_dial :: "first_event \<Rightarrow> 'e \<Rightarrow> 'e + 'c \<Rightarrow> 'c option \<times> 'e option \<times> ('e + 'c) option" where
  "socks5_dial first ctx_err outcome =
     (case first of
        CtxDone \<Rightarrow> (None, Some ctx_err, Some outcome)
      | DialDone \<Rightarrow> (case outcome of Inl e \<Rightarrow> (None, Some e, None) | Inr c \<Rightarrow> (Some c, None, None)))"

section \<open>The interface\<close>

text \<open>
  The \<open>Noder\<close> the dispatcher is built on. \<open>view\<close> is \<open>Nodes()\<close>; its
  promise is that the remote nodes it lists exist and are active.
\<close>

locale noder =
  fixes view :: "'s \<Rightarrow> nat \<times> nat list"
    and heap :: "'s \<Rightarrow> node_heap"
    and inv :: "'s \<Rightarrow> bool"
  assumes listed_active: "inv s \<Longrightarrow> n \<in> set (snd (view s)) \<Longrightarrow> is_active (heap s) n"
    and listed_exist: "inv s \<Longrightarrow> n \<in> insert (fst (view s)) (set (snd (view s))) \<Longrightarrow> n < length (heap_nodes (heap s))"
begin

abbreviation ids_of :: "'s \<Rightarrow> string set" where
  "ids_of s \<equiv> (\<lambda>n. node_id (the_node (heap s) n)) ` insert (fst (view s)) (set (snd (view s)))"

end

end
