(* ===== verification/Dispatcher_Props.thy ===== *)
theory Dispatcher_Props
  imports Dispatcher Node_Props
begin

text \<open>
  The load balancer against a reference definition without a loop, when it fails, and the dial
  loop: it ends, tries no node twice, fails only after having tried every node, and the one case
  in which it returns neither a connection nor an error.
\<close>

section \<open>Lemmas\<close>

lemma is_in_iff [simp]: "is_in i ids \<longleftrightarrow> i \<in> set ids"
  by (induction ids) auto

text \<open>The candidates: active and not excluded. The reference choice is the first of least workload.\<close>

definition candidates :: "node_heap \<Rightarrow> string list \<Rightarrow> nat list \<Rightarrow> nat list" where
  "candidates hp exc nodes = filter (\<lambda>n. is_active hp n \<and> node_id (the_node hp n) \<notin> set exc) nodes"

fun first_least :: "(nat \<Rightarrow> int) \<Rightarrow> nat list \<Rightarrow> nat option" where
  "first_least f [] = None"
| "first_least f (x # xs) =
     (case first_least f xs of None \<Rightarrow> Some x | Some y \<Rightarrow> Some (if f y < f x then y else x))"

definition active_load :: "node_heap \<Rightarrow> nat list \<Rightarrow> int" where
  "active_load hp nodes = sum_list (map (workload hp) (filter (is_active hp) nodes))"

lemma first_least_None [simp]: "first_least f xs = None \<longleftrightarrow> xs = []"
  by (cases xs) (auto split: option.splits)

lemma first_least_Some:
  "first_least f xs = Some y \<Longrightarrow> y \<in> set xs \<and> (\<forall>x \<in> set xs. f y \<le> f x)"
  by (induction xs arbitrary: y) (fastforce split: option.splits if_splits)+

lemma balance_loop_eq:
  "balance_loop hp exc nodes c twl =
     (case c of
        None \<Rightarrow> first_least (workload hp) (candidates hp exc nodes)
      | Some c \<Rightarrow> first_least (workload hp) (c # candidates hp exc nodes),
      twl + active_load hp nodes)"
proof (induction nodes arbitrary: c twl)
  case Nil
  then show ?case by (simp add: candidates_def active_load_def split: option.splits)
next
  case (Cons e es)
  show ?case
    by (auto simp: Cons Let_def candidates_def active_load_def split: option.splits)
qed

lemma get_node_balanced_eq:
  "get_node_balanced hp (root, nodes) exc =
     (let root_excluded = node_id (the_node hp root) \<in> set exc in
      (case first_least (workload hp) (candidates hp exc nodes) of
         None \<Rightarrow> (root, if root_excluded then Some NoSuitableNode else None)
       | Some c \<Rightarrow> (if \<not> root_excluded \<and> workload hp root - active_load hp nodes < workload hp c then root else c, None)))"
  by (auto simp: get_node_balanced_def balance_loop_eq Let_def split: option.splits)

lemma get_node_balanced_fresh:
  assumes "get_node_balanced hp view exc = (n, None)"
  shows "node_id (the_node hp n) \<notin> set exc \<and> n \<in> insert (fst view) (set (snd view))"
proof -
  obtain root nodes where v: "view = (root, nodes)" by (cases view)
  show ?thesis
    using assms unfolding v get_node_balanced_eq
    by (auto simp: Let_def candidates_def dest!: first_least_Some split: option.splits if_splits)
qed

lemma get_node_balanced_fails:
  "snd (get_node_balanced hp (root, nodes) exc) \<noteq> None \<longleftrightarrow>
     node_id (the_node hp root) \<in> set exc \<and>
     (\<forall>n \<in> set nodes. is_active hp n \<longrightarrow> node_id (the_node hp n) \<in> set exc)"
proof -
  have "candidates hp exc nodes = [] \<longleftrightarrow> (\<forall>n \<in> set nodes. is_active hp n \<longrightarrow> node_id (the_node hp n) \<in> set exc)"
    by (auto simp: candidates_def filter_empty_conv)
  then show ?thesis
    by (cases "first_least (workload hp) (candidates hp exc nodes)") (auto simp: get_node_balanced_eq Let_def)
qed

lemma node_finder_Inr:
  assumes "node_finder hp view ids = (Inr n, ids')"
  shows "ids' = ids @ [node_id (the_node hp n)] \<and> node_id (the_node hp n) \<notin> set ids \<and>
    n \<in> insert (fst view) (set (snd view))"
  using assms get_node_balanced_fresh
  by (auto simp: node_finder_def split: prod.splits option.splits)

lemma node_finder_Inl:
  assumes "node_finder hp view ids = (Inl e, ids')"
  shows "ids' = ids \<and> snd (get_node_balanced hp view ids) \<noteq> None"
  using assms by (auto simp: node_finder_def split: prod.splits option.splits)

context noder
begin

text \<open>On a \<open>Noder\<close> the dispatcher gives up only when every listed node was tried.\<close>

lemma gives_up_iff:
  assumes "inv s"
  shows "snd (get_node_balanced (heap s) (view s) exc) \<noteq> None \<longleftrightarrow> ids_of s \<subseteq> set exc"
proof -
  obtain root nodes where v: "view s = (root, nodes)" by (cases "view s")
  show ?thesis
    using listed_active [OF assms] unfolding v get_node_balanced_fails by auto
qed

lemma choice_exists:
  assumes "inv s" and "get_node_balanced (heap s) (view s) exc = (n, None)"
  shows "n < length (heap_nodes (heap s)) \<and> node_id (the_node (heap s) n) \<notin> set exc \<and>
    (n = fst (view s) \<or> is_active (heap s) n)"
  using get_node_balanced_fresh [OF assms(2)] listed_exist [OF assms(1)] listed_active [OF assms(1)] by auto

end

section \<open>The dial loop\<close>

definition world_ids :: "('c, 'e) dial_world \<Rightarrow> nat \<Rightarrow> string set" where
  "world_ids w i = (\<lambda>n. node_id (the_node (w_heap w i) n)) ` insert (fst (w_view w i)) (set (snd (w_view w i)))"

lemma dial_loop_ends:
  assumes "finite I" and "\<And>i. world_ids w i \<subseteq> I" and "set ids \<subseteq> I" and "distinct ids"
    and "card I < length ids + fuel"
  shows "dial_loop fuel w i n ids \<noteq> None"
  using assms(3-5)
proof (induction fuel arbitrary: i n ids)
  case 0
  then show ?case using card_mono [OF assms(1), of "set ids"] by (simp add: distinct_card)
next
  case (Suc fuel)
  have "dial_loop fuel w (Suc i) n' ids' \<noteq> None"
    if "node_finder (w_heap w (Suc i)) (w_view w (Suc i)) ids = (Inr n', ids')" for n' ids'
  proof (rule Suc.IH)
    show "set ids' \<subseteq> I" using node_finder_Inr [OF that] Suc.prems(1) assms(2) [of "Suc i"] by (auto simp: world_ids_def)
    show "distinct ids'" "card I < length ids' + fuel"
      using node_finder_Inr [OF that] Suc.prems(2,3) by auto
  qed
  then show ?case by (auto split: sum.splits prod.splits)
qed

lemma dial_loop_step [consumes 1, case_names connected cancelled exhausted retry]:
  assumes "dial_loop (Suc fuel) w i n ids = Some (res, tried)"
  obtains c where "w_dial w i (dialer_for_node (w_heap w i) n) = Inr c" "res = (Some c, None)" "tried = ids"
  | cerr where "w_dial w i (dialer_for_node (w_heap w i) n) = Inl cerr" "w_ctx_err w i = Some cerr"
      "res = (None, None)" "tried = ids"
  | cerr where "w_dial w i (dialer_for_node (w_heap w i) n) = Inl cerr" "w_ctx_err w i \<noteq> Some cerr"
      "snd (get_node_balanced (w_heap w (Suc i)) (w_view w (Suc i)) ids) \<noteq> None"
      "res = (None, Some (DialFailed cerr))" "tried = ids"
  | cerr n' where "w_dial w i (dialer_for_node (w_heap w i) n) = Inl cerr" "w_ctx_err w i \<noteq> Some cerr"
      "node_finder (w_heap w (Suc i)) (w_view w (Suc i)) ids = (Inr n', ids @ [node_id (the_node (w_heap w (Suc i)) n')])"
      "node_id (the_node (w_heap w (Suc i)) n') \<notin> set ids"
      "dial_loop fuel w (Suc i) n' (ids @ [node_id (the_node (w_heap w (Suc i)) n')]) = Some (res, tried)"
proof (cases "w_dial w i (dialer_for_node (w_heap w i) n)")
  case (Inr c)
  then show ?thesis using assms that(1) by auto
next
  case (Inl cerr)
  show ?thesis
  proof (cases "w_ctx_err w i = Some cerr")
    case True
    then show ?thesis using assms Inl that(2) by auto
  next
    case False
    obtain r ids' where nf: "node_finder (w_heap w (Suc i)) (w_view w (Suc i)) ids = (r, ids')" by fastforce
    show ?thesis
    proof (cases r)
      case r: (Inl e)
      show ?thesis
        using that(3) [OF Inl False] node_finder_Inl [OF nf [unfolded r]] assms Inl False nf r by auto
    next
      case r: (Inr n')
      show ?thesis
        using that(4) [OF Inl False] node_finder_Inr [OF nf [unfolded r]] assms Inl False nf r by auto
    qed
  qed
qed

lemma dial_loop_distinct:
  assumes "distinct ids" and "dial_loop fuel w i n ids = Some (res, tried)"
  shows "distinct tried \<and> set ids \<subseteq> set tried"
  using assms
proof (induction fuel arbitrary: i n ids)
  case (Suc fuel)
  from Suc.prems(2) show ?case
  proof (cases rule: dial_loop_step)
    case (retry cerr n')
    then show ?thesis using Suc.IH [OF _ retry(5)] Suc.prems(1) by auto
  qed (use Suc.prems in auto)
qed simp

text \<open>How the loop ends: the last attempt, at iteration \<open>j\<close> with node \<open>m\<close>.\<close>

definition last_attempt ::
    "('c, 'e) dial_world \<Rightarrow> nat \<Rightarrow> nat \<Rightarrow> 'c option \<times> 'e dial_error option \<Rightarrow> string list \<Rightarrow> bool" where
  "last_attempt w j m res tried \<longleftrightarrow>
     (case w_dial w j (dialer_for_node (w_heap w j) m) of
        Inr c \<Rightarrow> res = (Some c, None)
      | Inl cerr \<Rightarrow>
          if w_ctx_err w j = Some cerr then res = (None, None)
          else res = (None, Some (DialFailed cerr)) \<and>
            snd (get_node_balanced (w_heap w (Suc j)) (w_view w (Suc j)) tried) \<noteq> None)"

lemma dial_loop_last:
  assumes "dial_loop fuel w i n ids = Some (res, tried)" and "length ids = Suc i"
    and "last ids = node_id (the_node (w_heap w i) n)"
  shows "\<exists>j m. length tried = Suc j \<and> last tried = node_id (the_node (w_heap w j) m) \<and> last_attempt w j m res tried"
  using assms
proof (induction fuel arbitrary: i n ids)
  case (Suc fuel)
  from Suc.prems(1) show ?case
  proof (cases rule: dial_loop_step)
    case (retry cerr n')
    then show ?thesis using Suc.IH [OF retry(5)] Suc.prems(2) by simp
  qed (rule exI [of _ i], rule exI [of _ n], use Suc.prems in \<open>simp add: last_attempt_def\<close>)+
qed simp

lemma first_node: "\<exists>n. node_finder hp view [] = (Inr n, [node_id (the_node hp n)])"
proof -
  have "snd (get_node_balanced hp view []) = None"
    using get_node_balanced_fails [of hp "fst view" "snd view" "[]"] by auto
  then show ?thesis
    by (cases "get_node_balanced hp view []") (simp add: node_finder_def)
qed

lemma dial_context_last:
  assumes "dial_context fuel w = Some (res, tried)"
  shows "\<exists>j m. length tried = Suc j \<and> last tried = node_id (the_node (w_heap w j) m) \<and> last_attempt w j m res tried"
proof -
  obtain n where "node_finder (w_heap w 0) (w_view w 0) [] = (Inr n, [node_id (the_node (w_heap w 0) n)])"
    using first_node by blast
  then show ?thesis
    using assms dial_loop_last [of fuel w 0 n _ res tried] by (simp add: dial_context_def)
qed

lemma dial_loop_tried:
  assumes "\<And>i. world_ids w i \<subseteq> I" and "set ids \<subseteq> I" and "dial_loop fuel w i n ids = Some (res, tried)"
  shows "set tried \<subseteq> I"
  using assms(2,3)
proof (induction fuel arbitrary: i n ids)
  case (Suc fuel)
  from Suc.prems(2) show ?case
  proof (cases rule: dial_loop_step)
    case (retry cerr n')
    have "node_id (the_node (w_heap w (Suc i)) n') \<in> I"
      using node_finder_Inr [OF retry(3)] assms(1) [of "Suc i"] by (auto simp: world_ids_def)
    then show ?thesis using Suc.IH [OF _ retry(5)] Suc.prems(1) by simp
  qed (use Suc.prems in auto)
qed simp

section \<open>Dials that do not connect\<close>

definition listed :: "('c, 'e) dial_world \<Rightarrow> nat \<Rightarrow> nat \<Rightarrow> bool" where
  "listed w j m \<longleftrightarrow> m \<in> insert (fst (w_view w j)) (set (snd (w_view w j)))"

text \<open>What a dial without a connection tried, it tried in vain.\<close>

lemma dial_loop_failed:
  assumes "dial_loop fuel w i n ids = Some ((None, e), tried)" and "\<And>j. w_ctx_err w j = None" and "listed w i n"
    and "x = node_id (the_node (w_heap w i) n) \<or> x \<in> set tried \<and> x \<notin> set ids"
  shows "\<exists>j m err. listed w j m \<and> node_id (the_node (w_heap w j) m) = x \<and>
    w_dial w j (dialer_for_node (w_heap w j) m) = Inl err"
  using assms(1,3,4)
proof (induction fuel arbitrary: i n ids)
  case (Suc fuel)
  from Suc.prems(1) show ?case
  proof (cases rule: dial_loop_step)
    case (connected c)
    then show ?thesis by simp
  next
    case (cancelled cerr)
    then show ?thesis using assms(2) by simp
  next
    case (exhausted cerr)
    then show ?thesis using Suc.prems(2,3) by auto
  next
    case (retry cerr n')
    have "listed w (Suc i) n'" using node_finder_Inr [OF retry(3)] by (simp add: listed_def)
    then show ?thesis using Suc.IH [OF retry(5)] Suc.prems(2,3) retry(1) by auto
  qed
qed simp

lemma dial_context_failed:
  assumes "dial_context fuel w = Some ((None, e), tried)" and "\<And>j. w_ctx_err w j = None" and "x \<in> set tried"
  shows "\<exists>j m err. listed w j m \<and> node_id (the_node (w_heap w j) m) = x \<and>
    w_dial w j (dialer_for_node (w_heap w j) m) = Inl err"
proof -
  obtain n where n: "node_finder (w_heap w 0) (w_view w 0) [] = (Inr n, [node_id (the_node (w_heap w 0) n)])"
    using first_node by blast
  then have "dial_loop fuel w 0 n [node_id (the_node (w_heap w 0) n)] = Some ((None, e), tried)"
    using assms(1) by (simp add: dial_context_def)
  moreover have "listed w 0 n" using node_finder_Inr [OF n] by (simp add: listed_def)
  ultimately show ?thesis using dial_loop_failed [OF _ assms(2), where x = x] assms(3) by fastforce
qed

text \<open>A node that is always offered, and through which every attempt connects, makes the dial connect.\<close>

lemma dial_context_connects:
  assumes "finite I" and "\<And>i. world_ids w i \<subseteq> I" and "card I \<le> fuel" and "\<And>j. w_ctx_err w j = None"
    and "\<And>j. \<exists>m. listed w j m \<and> (m = fst (w_view w j) \<or> is_active (w_heap w j) m) \<and> node_id (the_node (w_heap w j) m) = x"
    and "\<And>j m. listed w j m \<Longrightarrow> node_id (the_node (w_heap w j) m) = x \<Longrightarrow>
      \<exists>c. w_dial w j (dialer_for_node (w_heap w j) m) = Inr c"
  shows "\<exists>c tried j m. dial_context fuel w = Some ((Some c, None), tried) \<and>
    w_dial w j (dialer_for_node (w_heap w j) m) = Inr c"
proof -
  obtain n where n: "node_finder (w_heap w 0) (w_view w 0) [] = (Inr n, [node_id (the_node (w_heap w 0) n)])"
    using first_node by blast
  have "set [node_id (the_node (w_heap w 0) n)] \<subseteq> I"
    using node_finder_Inr [OF n] assms(2) [of 0] by (auto simp: world_ids_def)
  then have "dial_context fuel w \<noteq> None"
    using dial_loop_ends [OF assms(1,2), of "[node_id (the_node (w_heap w 0) n)]" fuel 0 n] assms(3) n
    by (simp add: dial_context_def)
  then obtain conn err tried where d: "dial_context fuel w = Some ((conn, err), tried)" by auto
  obtain j m where last: "last_attempt w j m (conn, err) tried"
    using dial_context_last [OF d] by blast
  show ?thesis
  proof (cases conn)
    case (Some c)
    then have "err = None" "w_dial w j (dialer_for_node (w_heap w j) m) = Inr c"
      using last assms(4) by (auto simp: last_attempt_def split: sum.splits)
    then show ?thesis using d Some by blast
  next
    case None
    then have gives_up: "snd (get_node_balanced (w_heap w (Suc j)) (w_view w (Suc j)) tried) \<noteq> None"
      using last assms(4) by (auto simp: last_attempt_def split: sum.splits)
    obtain k where "listed w (Suc j) k" "k = fst (w_view w (Suc j)) \<or> is_active (w_heap w (Suc j)) k"
        "node_id (the_node (w_heap w (Suc j)) k) = x"
      using assms(5) by blast
    then have "x \<in> set tried"
      using gives_up get_node_balanced_fails [of "w_heap w (Suc j)" "fst (w_view w (Suc j))" "snd (w_view w (Suc j))" tried]
      by (auto simp: listed_def)
    from dial_context_failed [OF d [unfolded None] assms(4) this] assms(6) show ?thesis by force
  qed
qed

section \<open>Properties\<close>

text \<open>
  Three nodes: the local one, and two remote ones that are active and carry one and no
  connection.
\<close>

definition demo_net :: node_heap where
  "demo_net = set_is_active 2 True (open_tunnel demo_sha1 1 ''a:1''
     (snd (new_node demo_sha1 Some ''10.0.0.3'' ''1080'' ''4884'' False demo_heap)))"

definition demo_view :: "nat \<times> nat list" where
  "demo_view = (0, [1, 2])"

text \<open>A world in which every attempt fails with error 7; \<open>ctx\<close> is the context's error at each iteration.\<close>

definition demo_world :: "(nat \<Rightarrow> nat option) \<Rightarrow> (string, nat) dial_world" where
  "demo_world ctx = \<lparr>w_view = (\<lambda>i. demo_view), w_heap = (\<lambda>i. demo_net), w_dial = (\<lambda>i g. Inl 7), w_ctx_err = ctx\<rparr>"

lemma demo_world_ids: "world_ids (demo_world ctx) i = {''localhost48841080'', ''10.0.0.248841080'', ''10.0.0.348841080''}"
proof -
  have "node_id (the_node demo_net 0) = ''localhost48841080''" "node_id (the_node demo_net 1) = ''10.0.0.248841080''"
      "node_id (the_node demo_net 2) = ''10.0.0.348841080''"
    by code_simp+
  then show ?thesis by (simp add: world_ids_def demo_world_def demo_view_def)
qed

text \<open>
  C6: \<open>GetNodeBalanced\<close> returns an active remote node of least workload among those not
  excluded, unless the local node is not excluded and carries less by itself (its workload minus
  that of the active remote nodes), in which case it returns the local node. Without such a
  remote node it returns the local node, with an error exactly when that is excluded too; with
  one it never returns an error and never an excluded node.
\<close>

theorem balancer_choice:
  assumes "get_node_balanced hp (root, nodes) exc = (n, err)"
  shows "if candidates hp exc nodes = []
    then n = root \<and> (err = None \<longleftrightarrow> node_id (the_node hp root) \<notin> set exc)
    else err = None \<and> node_id (the_node hp n) \<notin> set exc \<and>
      (\<exists>c \<in> set (candidates hp exc nodes).
         (\<forall>x \<in> set (candidates hp exc nodes). workload hp c \<le> workload hp x) \<and>
         n = (if node_id (the_node hp root) \<notin> set exc \<and> workload hp root - active_load hp nodes < workload hp c
              then root else c))"
proof (cases "first_least (workload hp) (candidates hp exc nodes)")
  case None
  then show ?thesis using assms by (auto simp: get_node_balanced_eq Let_def split: if_splits)
next
  case (Some c)
  then have ne: "candidates hp exc nodes \<noteq> []" by auto
  have c: "c \<in> set (candidates hp exc nodes)" "\<forall>x \<in> set (candidates hp exc nodes). workload hp c \<le> workload hp x"
    using first_least_Some [OF Some] by auto
  then have "node_id (the_node hp c) \<notin> set exc" by (simp add: candidates_def)
  moreover have "err = None" "n = (if node_id (the_node hp root) \<notin> set exc \<and>
      workload hp root - active_load hp nodes < workload hp c then root else c)"
    using assms Some by (auto simp: get_node_balanced_eq Let_def split: if_splits)
  ultimately show ?thesis using ne c by (auto intro!: bexI [of _ c])
qed

theorem balancer_choice_witness:
  "get_node_balanced demo_net demo_view [''localhost48841080''] = (2, None) \<and>
   workload demo_net 2 \<le> workload demo_net 1"
proof -
  have eq: "get_node_balanced demo_net (0, [1, 2]) [''localhost48841080''] = (2, None)" by code_simp
  have cand: "candidates demo_net [''localhost48841080''] [1, 2] = [1, 2]" by code_simp
  have "node_id (the_node demo_net 0) = ''localhost48841080''" by code_simp
  with balancer_choice [OF eq] eq cand show ?thesis by (auto simp: demo_view_def)
qed

text \<open>
  C5: The dial loop ends and tries every node at most once: if the identifiers of the nodes the
  network offers while the loop runs all lie in a finite set, then with as much fuel as that set
  has elements the loop returns, and the nodes it tried are distinct and no more than that.
\<close>

theorem dial_terminates:
  assumes "finite I" and "\<And>i. world_ids w i \<subseteq> I" and "card I \<le> fuel"
  shows "\<exists>res tried. dial_context fuel w = Some (res, tried) \<and> distinct tried \<and> length tried \<le> card I"
proof -
  obtain n ids where nf: "node_finder (w_heap w 0) (w_view w 0) [] = (Inr n, ids)"
    using first_node by blast
  have ids: "ids = [node_id (the_node (w_heap w 0) n)]" "set ids \<subseteq> I"
    using node_finder_Inr [OF nf] assms(2) [of 0] by (auto simp: world_ids_def)
  have "dial_loop fuel w 0 n ids \<noteq> None"
    by (rule dial_loop_ends [OF assms(1,2) ids(2)]) (use ids assms(3) in auto)
  then obtain res tried where dl: "dial_loop fuel w 0 n ids = Some (res, tried)" by auto
  have "distinct tried" using dial_loop_distinct [OF _ dl] ids by simp
  moreover have "set tried \<subseteq> I" by (rule dial_loop_tried [OF assms(2) ids(2) dl])
  ultimately have "length tried \<le> card I" using card_mono [OF assms(1)] distinct_card by metis
  then show ?thesis using dl nf \<open>distinct tried\<close> by (auto simp: dial_context_def)
qed

theorem dial_terminates_witness:
  "\<exists>res tried. dial_context 3 (demo_world (\<lambda>i. None)) = Some (res, tried) \<and> distinct tried \<and> length tried \<le> 3"
  using dial_terminates [of "{''localhost48841080'', ''10.0.0.248841080'', ''10.0.0.348841080''}" "demo_world (\<lambda>i. None)" 3]
  by (simp add: demo_world_ids eval_nat_numeral)

text \<open>
  When \<open>DialContext\<close> reports a dial error, every node was tried: the last attempt
  failed with that error, and the local node and every active remote node that the network then
  offers are among those tried.
\<close>

theorem dial_error_after_all_nodes:
  assumes "dial_context fuel w = Some ((conn, Some e), tried)"
  shows "conn = None \<and> (\<exists>j m cerr root nodes. e = DialFailed cerr \<and>
    w_dial w j (dialer_for_node (w_heap w j) m) = Inl cerr \<and> w_view w (Suc j) = (root, nodes) \<and>
    node_id (the_node (w_heap w (Suc j)) root) \<in> set tried \<and>
    (\<forall>n \<in> set nodes. is_active (w_heap w (Suc j)) n \<longrightarrow> node_id (the_node (w_heap w (Suc j)) n) \<in> set tried))"
proof -
  obtain j m where la: "last_attempt w j m (conn, Some e) tried"
    using dial_context_last [OF assms] by blast
  obtain root nodes where v: "w_view w (Suc j) = (root, nodes)" by fastforce
  from la obtain cerr where "w_dial w j (dialer_for_node (w_heap w j) m) = Inl cerr" "conn = None" "e = DialFailed cerr"
      "snd (get_node_balanced (w_heap w (Suc j)) (root, nodes) tried) \<noteq> None"
    by (auto simp: last_attempt_def v split: sum.splits if_splits)
  then show ?thesis using v unfolding get_node_balanced_fails by blast
qed

theorem dial_error_after_all_nodes_witness:
  "\<exists>tried. dial_context 3 (demo_world (\<lambda>i. None)) = Some ((None, Some (DialFailed 7)), tried) \<and>
     ''localhost48841080'' \<in> set tried"
proof -
  let ?tried = "[''localhost48841080'', ''10.0.0.348841080'', ''10.0.0.248841080'']"
  have ids: "node_id (the_node demo_net 0) = ''localhost48841080''" by code_simp
  have eq: "dial_context 3 (demo_world (\<lambda>i. None)) = Some ((None, Some (DialFailed 7)), ?tried)"
    by code_simp
  from dial_error_after_all_nodes [OF eq] show ?thesis
    using eq ids by (auto simp: demo_world_def demo_view_def)
qed

text \<open>
  \<open>DialContext\<close> returns neither a connection nor an error exactly when its last
  dial, of the last node tried, failed with the context's own error, and a connection exactly when
  that dial succeeded; so a cancelled dial looks like a success without a
  connection to a caller that only checks the error.
\<close>

theorem cancelled_dial_returns_nil_nil:
  assumes "dial_context fuel w = Some ((conn, err), tried)"
  shows "\<exists>j m. length tried = Suc j \<and> last tried = node_id (the_node (w_heap w j) m) \<and>
    (conn = None \<and> err = None \<longleftrightarrow>
      (\<exists>cerr. w_dial w j (dialer_for_node (w_heap w j) m) = Inl cerr \<and> w_ctx_err w j = Some cerr)) \<and>
    (\<forall>c. conn = Some c \<longleftrightarrow> w_dial w j (dialer_for_node (w_heap w j) m) = Inr c)"
proof -
  obtain j m where la: "length tried = Suc j" "last tried = node_id (the_node (w_heap w j) m)"
      "last_attempt w j m (conn, err) tried"
    using dial_context_last [OF assms] by blast
  show ?thesis
    by (rule exI [of _ j], rule exI [of _ m]) (use la in \<open>auto simp: last_attempt_def split: sum.splits if_splits\<close>)
qed

theorem cancelled_dial_returns_nil_nil_witness:
  "dial_context 3 (demo_world (\<lambda>i. if i = 1 then Some 7 else None)) =
     Some ((None, None), [''localhost48841080'', ''10.0.0.348841080'']) \<and>
   (\<exists>m cerr. w_dial (demo_world (\<lambda>i. if i = 1 then Some 7 else None)) 1 (dialer_for_node demo_net m) = Inl cerr \<and>
     cerr = 7)"
proof -
  have eq: "dial_context 3 (demo_world (\<lambda>i. if i = 1 then Some 7 else None)) =
      Some ((None, None), [''localhost48841080'', ''10.0.0.348841080''])"
    by code_simp
  from cancelled_dial_returns_nil_nil [OF eq] show ?thesis
    using eq by (auto simp: demo_world_def)
qed

end
