(* ===== verification/Tracer.thy ===== *)
theory Tracer
  imports Prelude
begin

text \<open>
  Package \<open>tracer\<close>, \<open>tracer.go\<close>: the entities that are pinged until they are
  back online. \<open>refreshc\<close> and \<open>stopc\<close> are unbuffered, so \<open>Trace\<close>,
  \<open>Untrace\<close> and \<open>Close\<close> return only if a loop goroutine started by
  \<open>Run\<close> receives; without one they hang. A pinger is its identifier here; what its
  \<open>Ping\<close> returns is an argument of the step that ends it.
\<close>

section \<open>State\<close>

datatype tracer_status = StatusRunning | StatusStopped

text \<open>
  \<open>loops\<close> is the number of loop goroutines that have not returned; \<open>round\<close>
  counts the calls of \<open>ping()\<close> (each has a context of its own, cancelled by the next
  one); \<open>pinging\<close> are the ping goroutines that have not published yet, with their
  round; \<open>cancelled\<close> says that the context of the newest round is cancelled.
\<close>

record tracer =
  tr_status :: tracer_status
  tr_conns :: "string list"
  tr_loops :: nat
  tr_round :: nat
  tr_cancelled :: bool
  tr_pinging :: "(nat \<times> string) list"

record tracer_message =
  msg_id :: string
  msg_err :: bool

datatype tracer_error = TracerRunning

definition new_tracer :: tracer where
  "new_tracer = \<lparr>tr_status = StatusStopped, tr_conns = [], tr_loops = 0, tr_round = 0, tr_cancelled = True, tr_pinging = []\<rparr>"

section \<open>Operations\<close>

definition tr_run :: "(tracer, tracer_error stop, unit) step" where
  "tr_run t =
     (if tr_status t = StatusRunning then (Inl (Error TracerRunning), t)
      else (Inr (), t\<lparr>tr_status := StatusRunning, tr_loops := Suc (tr_loops t)\<rparr>))"

text \<open>
  \<open>refresh()\<close> inside the loop: cancel the round before, then one ping goroutine for
  each monitored entity.
\<close>

definition ping_round :: "tracer \<Rightarrow> tracer" where
  "ping_round t =
     t\<lparr>tr_round := Suc (tr_round t), tr_cancelled := False,
       tr_pinging := tr_pinging t @ map (\<lambda>i. (Suc (tr_round t), i)) (tr_conns t)\<rparr>"

definition tr_tick :: "tracer \<Rightarrow> tracer" where
  "tr_tick t = (if 0 < tr_loops t then ping_round t else t)"

definition tr_refresh :: "(tracer, tracer_error stop, unit) step" where
  "tr_refresh t = (if 0 < tr_loops t then (Inr (), ping_round t) else (Inl Hang, t))"

text \<open>Storing the pinger under its identifier (the map keeps one entry per identifier).\<close>

definition tr_trace :: "string \<Rightarrow> (tracer, tracer_error stop, unit) step" where
  "tr_trace i t = tr_refresh (t\<lparr>tr_conns := (if i \<in> set (tr_conns t) then tr_conns t else tr_conns t @ [i])\<rparr>)"

definition tr_untrace :: "string \<Rightarrow> (tracer, tracer_error stop, unit) step" where
  "tr_untrace i t = tr_refresh (t\<lparr>tr_conns := removeAll i (tr_conns t)\<rparr>)"

text \<open>\<open>Close\<close>: one loop receives from \<open>stopc\<close>, cancels its round and returns.\<close>

definition tr_close :: "(tracer, tracer_error stop, unit) step" where
  "tr_close t =
     (let t = t\<lparr>tr_status := StatusStopped\<rparr> in
      if 0 < tr_loops t then (Inr (), t\<lparr>tr_loops := tr_loops t - 1, tr_cancelled := True\<rparr>)
      else (Inl Hang, t))"

text \<open>
  Ping goroutine number \<open>k\<close> ends: it publishes a message with the outcome of
  \<open>Ping\<close>, \<open>online\<close>; a cancelled context makes the ping fail.
\<close>

definition ping_done :: "nat \<Rightarrow> bool \<Rightarrow> tracer \<Rightarrow> tracer_message option \<times> tracer" where
  "ping_done k online t =
     (if k < length (tr_pinging t) then
        (let (r, i) = tr_pinging t ! k;
             live = (r = tr_round t \<and> \<not> tr_cancelled t) in
         (Some \<lparr>msg_id = i, msg_err = \<not> (live \<and> online)\<rparr>,
          t\<lparr>tr_pinging := take k (tr_pinging t) @ drop (Suc k) (tr_pinging t)\<rparr>))
      else (None, t))"

section \<open>The interface\<close>

text \<open>
  What the network needs of a tracer that is running: it can be told which entities to watch,
  and the watched ones are exactly those it was told to watch and not told to forget since.
\<close>

datatype watch_op = Watch string | Unwatch string

fun watch_set :: "watch_op list \<Rightarrow> string set \<Rightarrow> string set" where
  "watch_set [] W = W"
| "watch_set (Watch i # ops) W = watch_set ops (insert i W)"
| "watch_set (Unwatch i # ops) W = watch_set ops (W - {i})"

locale watcher =
  fixes watched :: "'s \<Rightarrow> string set"
    and watch :: "string \<Rightarrow> ('s, 'e, unit) step"
    and unwatch :: "string \<Rightarrow> ('s, 'e, unit) step"
    and running :: "'s \<Rightarrow> bool"
  assumes watch_ok: "running s \<Longrightarrow> \<exists>s'. watch i s = (Inr (), s') \<and> running s' \<and> watched s' = insert i (watched s)"
    and unwatch_ok: "running s \<Longrightarrow> \<exists>s'. unwatch i s = (Inr (), s') \<and> running s' \<and> watched s' = watched s - {i}"
begin

fun watch_step :: "watch_op \<Rightarrow> 's \<Rightarrow> 's" where
  "watch_step (Watch i) s = snd (watch i s)"
| "watch_step (Unwatch i) s = snd (unwatch i s)"

lemma watch_steps:
  "running s \<Longrightarrow> running (fold watch_step ops s) \<and> watched (fold watch_step ops s) = watch_set ops (watched s)"
proof (induction ops arbitrary: s)
  case (Cons x ops)
  show ?case
  proof (cases x)
    case (Watch i)
    obtain s' where "watch i s = (Inr (), s')" "running s'" "watched s' = insert i (watched s)"
      using watch_ok [OF Cons.prems] by blast
    then show ?thesis using Cons.IH [of s'] Watch by simp
  next
    case (Unwatch i)
    obtain s' where "unwatch i s = (Inr (), s')" "running s'" "watched s' = watched s - {i}"
      using unwatch_ok [OF Cons.prems] by blast
    then show ?thesis using Cons.IH [of s'] Unwatch by simp
  qed
qed simp

end

section \<open>What holds of it\<close>

definition tracer_wf :: "tracer \<Rightarrow> bool" where
  "tracer_wf t \<longleftrightarrow> distinct (tr_conns t) \<and> (\<forall>(r, i) \<in> set (tr_pinging t). r \<le> tr_round t) \<and>
     (tr_status t = StatusRunning \<longrightarrow> 0 < tr_loops t) \<and> (tr_loops t = 0 \<longrightarrow> tr_cancelled t)"

lemma new_tracer_wf: "tracer_wf new_tracer"
  by (simp add: tracer_wf_def new_tracer_def)

lemma ping_round_wf: "tracer_wf t \<Longrightarrow> 0 < tr_loops t \<Longrightarrow> tracer_wf (ping_round t)"
  by (fastforce simp: tracer_wf_def ping_round_def)

lemma tr_refresh_wf: "tracer_wf t \<Longrightarrow> tracer_wf (snd (tr_refresh t))"
  by (simp add: tr_refresh_def ping_round_wf)

lemma tr_trace_wf [wf_intros]: "tracer_wf t \<Longrightarrow> tracer_wf (snd (tr_trace i t))"
  unfolding tr_trace_def by (rule tr_refresh_wf) (simp add: tracer_wf_def)

lemma tr_untrace_wf [wf_intros]: "tracer_wf t \<Longrightarrow> tracer_wf (snd (tr_untrace i t))"
  unfolding tr_untrace_def by (rule tr_refresh_wf) (simp add: tracer_wf_def distinct_removeAll)

lemma tr_run_wf [wf_intros]: "tracer_wf t \<Longrightarrow> tracer_wf (snd (tr_run t))"
  by (auto simp: tr_run_def tracer_wf_def)

lemma tr_tick_wf [wf_intros]: "tracer_wf t \<Longrightarrow> tracer_wf (tr_tick t)"
  by (simp add: tr_tick_def ping_round_wf)

lemma tr_close_wf [wf_intros]: "tracer_wf t \<Longrightarrow> tracer_wf (snd (tr_close t))"
  by (auto simp: tr_close_def tracer_wf_def Let_def)

lemma ping_done_wf [wf_intros]: "tracer_wf t \<Longrightarrow> tracer_wf (snd (ping_done k online t))"
  by (fastforce simp: ping_done_def tracer_wf_def Let_def split: prod.splits dest: in_set_takeD in_set_dropD)

interpretation tracing: watcher "\<lambda>t. set (tr_conns t)" tr_trace tr_untrace "\<lambda>t. 0 < tr_loops t"
  by unfold_locales (auto simp: tr_trace_def tr_untrace_def tr_refresh_def ping_round_def)

section \<open>Properties\<close>

definition demo_tracer :: tracer where
  "demo_tracer = snd (tr_trace ''n1'' (snd (tr_run new_tracer)))"

lemma demo_tracer_wf: "tracer_wf demo_tracer"
  unfolding demo_tracer_def by (intro wf_intros new_tracer_wf)

text \<open>
  C29: While a tracer runs, \<open>Trace\<close> and \<open>Untrace\<close> return, in any sequence, and
  at the end the next refresh pings exactly the entities that were traced and not untraced since,
  each once.
\<close>

theorem traced_entities_are_pinged:
  assumes "tracer_wf t" and "tr_status t = StatusRunning"
  shows "fst (tr_trace i t) = Inr () \<and> fst (tr_untrace i t) = Inr () \<and>
    (let t' = fold tracing.watch_step ops t in
      \<exists>new. tr_pinging (tr_tick t') = tr_pinging t' @ new \<and> distinct new \<and>
        set new = (\<lambda>i. (tr_round (tr_tick t'), i)) ` watch_set ops (set (tr_conns t)))"
proof -
  have run: "0 < tr_loops t" using assms by (simp add: tracer_wf_def)
  let ?t = "fold tracing.watch_step ops t"
  have "tracer_wf ?t"
    using assms(1)
  proof (induction ops arbitrary: t)
    case (Cons x xs)
    then show ?case by (cases x) (auto intro: wf_intros)
  qed simp
  moreover have "0 < tr_loops ?t" "set (tr_conns ?t) = watch_set ops (set (tr_conns t))"
    using tracing.watch_steps [OF run] by auto
  ultimately have "tr_pinging (tr_tick ?t) = tr_pinging ?t @ map (\<lambda>i. (Suc (tr_round ?t), i)) (tr_conns ?t)"
      "distinct (map (\<lambda>i. (Suc (tr_round ?t), i)) (tr_conns ?t))"
      "set (map (\<lambda>i. (Suc (tr_round ?t), i)) (tr_conns ?t)) =
        (\<lambda>i. (tr_round (tr_tick ?t), i)) ` watch_set ops (set (tr_conns t))"
    by (auto simp: tr_tick_def ping_round_def tracer_wf_def distinct_map inj_on_def)
  moreover have "fst (tr_trace i t) = Inr ()" "fst (tr_untrace i t) = Inr ()"
    using run by (simp_all add: tr_trace_def tr_untrace_def tr_refresh_def)
  ultimately show ?thesis unfolding Let_def by blast
qed

theorem traced_entities_are_pinged_witness:
  "tr_pinging (tr_tick (snd (tr_untrace ''n1'' (snd (tr_trace ''n2'' demo_tracer))))) \<noteq> [] \<and>
   watch_set [Watch ''n2'', Unwatch ''n1''] (set (tr_conns demo_tracer)) = {''n2''}"
proof -
  have "tr_status demo_tracer = StatusRunning" "tr_conns demo_tracer = [''n1'']" by code_simp+
  with traced_entities_are_pinged [OF demo_tracer_wf, of "''n2''" "[Watch ''n2'', Unwatch ''n1'']"]
  show ?thesis by (auto simp: Let_def)
qed

text \<open>
  Without a running loop (before \<open>Run\<close> or after \<open>Close\<close>) every call of
  \<open>Trace\<close>, \<open>Untrace\<close> or \<open>Close\<close> hangs; a call of
  \<open>Trace\<close> has stored the entity by then, although nothing pings it. After \<open>Run\<close>
  and \<open>Close\<close> of a stopped tracer there is no loop again, so closing twice hangs.
\<close>

theorem stopped_tracer_hangs:
  assumes "tracer_wf t" and "tr_loops t = 0"
  shows "fst (tr_trace i t) = Inl Hang \<and> i \<in> set (tr_conns (snd (tr_trace i t))) \<and>
    tr_pinging (snd (tr_trace i t)) = tr_pinging t \<and> fst (tr_untrace i t) = Inl Hang \<and>
    fst (tr_close t) = Inl Hang \<and>
    fst (tr_close (snd (tr_run t))) = Inr () \<and> fst (tr_close (snd (tr_close (snd (tr_run t))))) = Inl Hang"
proof -
  have "tr_status t = StatusStopped"
    using assms by (cases "tr_status t") (auto simp: tracer_wf_def)
  then show ?thesis
    using assms(2) by (auto simp: tr_trace_def tr_untrace_def tr_refresh_def tr_close_def tr_run_def Let_def)
qed

theorem stopped_tracer_hangs_witness: "fst (tr_trace ''n1'' new_tracer) = Inl Hang"
  using stopped_tracer_hangs [OF new_tracer_wf, of "''n1''"] by (simp add: new_tracer_def)

text \<open>
  A message without an error means that the entity answered in the newest round: a ping of an
  earlier round, or one that a \<open>Close\<close> cancelled, is published as an error, whatever
  the entity does. After an entity was untraced, only pings of earlier rounds can still report
  it.
\<close>

theorem only_newest_round_reports_online:
  assumes "tracer_wf t" and "ping_done k online t = (Some m, t')" and "\<not> msg_err m"
  shows "online \<and> (\<exists>r. tr_pinging t ! k = (r, msg_id m) \<and> r = tr_round t) \<and> \<not> tr_cancelled t \<and> 0 < tr_loops t \<and>
    (tr_untrace i u = (Inr (), t) \<longrightarrow> tracer_wf u \<longrightarrow> msg_id m \<noteq> i)"
proof -
  obtain r where r: "k < length (tr_pinging t)" "tr_pinging t ! k = (r, msg_id m)" "r = tr_round t"
      "\<not> tr_cancelled t" "online"
    using assms(2,3) by (auto simp: ping_done_def Let_def split: if_splits prod.splits)
  have "msg_id m \<noteq> i" if un: "tr_untrace i u = (Inr (), t)" and wf: "tracer_wf u"
  proof -
    have t: "tr_pinging t = tr_pinging u @ map (\<lambda>j. (Suc (tr_round u), j)) (removeAll i (tr_conns u))"
        "tr_round t = Suc (tr_round u)"
      using un by (auto simp: tr_untrace_def tr_refresh_def ping_round_def split: if_splits)
    have "(tr_round t, msg_id m) \<in> set (tr_pinging t)"
      using r by (metis nth_mem)
    moreover have "(tr_round t, msg_id m) \<notin> set (tr_pinging u)"
      using wf t(2) by (fastforce simp: tracer_wf_def)
    ultimately show ?thesis using t(1) by auto
  qed
  moreover have "0 < tr_loops t" using r(4) assms(1) by (auto simp: tracer_wf_def)
  ultimately show ?thesis using r by blast
qed

theorem only_newest_round_reports_online_witness:
  "fst (ping_done 0 True demo_tracer) = Some \<lparr>msg_id = ''n1'', msg_err = False\<rparr> \<and> tr_pinging demo_tracer ! 0 = (1, ''n1'')"
proof -
  have eq: "ping_done 0 True demo_tracer = (Some \<lparr>msg_id = ''n1'', msg_err = False\<rparr>, snd (ping_done 0 True demo_tracer))"
    and r: "tr_round demo_tracer = 1" by code_simp+
  from only_newest_round_reports_online [OF demo_tracer_wf eq] eq r show ?thesis
    by (metis (no_types, lifting) fst_conv tracer_message.select_convs(1) tracer_message.select_convs(2))
qed

end
