(* ===== verification/Socks5.thy ===== *)
theory Socks5
  imports Gonet Streams Netconn Pubsub Machines
begin

text \<open>
  Package \<open>socks5\<close>: the address format (\<open>ReadAddress\<close> and the encoders), the
  method negotiation (\<open>negotiate.go\<close>), the commands (\<open>connect.go\<close>,
  \<open>associate.go\<close>, \<open>bind.go\<close>), \<open>Handle\<close>, and the copying goroutines
  of \<open>ProxyData\<close>. The client's connection is a byte stream in each direction; the dialer
  is an argument that returns the pair of connection and error, each possibly nil, as the
  \<open>Dialer\<close> interface allows.
\<close>

section \<open>Constants\<close>

definition socks5Version :: byte where "socks5Version = 5"

definition socks5MethodNoAuth :: byte where "socks5MethodNoAuth = 0"
definition socks5MethodNoAcceptableMethods :: byte where "socks5MethodNoAcceptableMethods = 0xff"

definition socks5CmdConnect :: byte where "socks5CmdConnect = 1"
definition socks5CmdBind :: byte where "socks5CmdBind = 2"
definition socks5CmdAssociate :: byte where "socks5CmdAssociate = 3"

definition socks5RespSuccess :: byte where "socks5RespSuccess = 0"
definition socks5RespHostUnreachable :: byte where "socks5RespHostUnreachable = 4"
definition socks5RespCommandNotSupported :: byte where "socks5RespCommandNotSupported = 7"

definition socks5FieldReserved :: byte where "socks5FieldReserved = 0"

definition socks5IP4 :: byte where "socks5IP4 = 1"
definition socks5FQDN :: byte where "socks5FQDN = 3"
definition socks5IP6 :: byte where "socks5IP6 = 4"

definition supportedMethods :: "byte list" where "supportedMethods = [socks5MethodNoAuth]"

definition TopicTunnelEvents :: string where "TopicTunnelEvents = ''topic_tunnel_events''"
definition TopicNetUsage :: string where "TopicNetUsage = ''topic_network_usage''"

lemmas socks5_constants = socks5Version_def socks5MethodNoAuth_def socks5MethodNoAcceptableMethods_def
  socks5CmdConnect_def socks5CmdBind_def socks5CmdAssociate_def socks5RespSuccess_def
  socks5RespHostUnreachable_def socks5RespCommandNotSupported_def socks5FieldReserved_def
  socks5IP4_def socks5FQDN_def socks5IP6_def supportedMethods_def

datatype socks_error =
    ReadNegotiation io_error
  | UnsupportedVersion byte
  | ReadMethods io_error
  | WriteNegotiation io_error
  | ReadRequest io_error
  | ReadAddrType io_error
  | ReadDomainLength io_error
  | UnknownAddrType byte
  | ReadAddr io_error
  | ReadPortNumber io_error
  | UnrecognisedAddress string
  | HostTooLong string
  | PortNotANumber string
  | PortOutOfRange string
  | UnexpectedCmd byte
  | WriteResponse io_error
  | DialFailure string
  | NilConnection
  | CommandNotSupported byte

section \<open>Addresses\<close>

definition read_host :: "ipv6_text \<Rightarrow> (reader, socks_error, string) step" where
  "read_host v6 =
     and_then (on_error ReadAddrType (read_full 1)) (\<lambda>t.
       let atype = hd t;
           rest = (\<lambda>n. and_then (on_error ReadAddr (read_full n)) (\<lambda>buf.
             done_with (if atype = socks5FQDN then string_of buf else ip_string v6 buf)))
       in
         if atype = socks5IP4 then rest 4
         else if atype = socks5IP6 then rest 16
         else if atype = socks5FQDN then
           and_then (on_error ReadDomainLength (read_full 1)) (\<lambda>l. rest (unat (hd l)))
         else fail_with (UnknownAddrType atype))"

definition read_port :: "(reader, socks_error, string) step" where
  "read_port =
     and_then (on_error ReadPortNumber (read_full 2)) (\<lambda>buf.
       done_with (itoa (unat (of_be16 (buf ! 0) (buf ! 1)))))"

definition read_address :: "ipv6_text \<Rightarrow> (reader, socks_error, string) step" where
  "read_address v6 =
     and_then (read_host v6) (\<lambda>host. and_then read_port (\<lambda>port. done_with (join_host_port host port)))"

definition encode_host_binary :: "ipv6_text \<Rightarrow> string \<Rightarrow> socks_error + bytes" where
  "encode_host_binary v6 host =
     (case parse_ip v6 host of
        Some ip \<Rightarrow> (case to4 ip of Some ip4 \<Rightarrow> Inr (socks5IP4 # ip4) | None \<Rightarrow> Inr (socks5IP6 # ip))
      | None \<Rightarrow>
          if 255 < length host then Inl (HostTooLong host)
          else Inr (socks5FQDN # word_of_nat (length host) # bytes_of host))"

definition encode_port_binary :: "string \<Rightarrow> socks_error + bytes" where
  "encode_port_binary port =
     (case atoi port of
        None \<Rightarrow> Inl (PortNotANumber port)
      | Some p \<Rightarrow> if p < 1 \<or> 0xffff < p then Inl (PortOutOfRange port) else Inr (be16 (word_of_int p)))"

definition encode_address_binary :: "ipv6_text \<Rightarrow> string \<Rightarrow> socks_error + bytes" where
  "encode_address_binary v6 addr =
     (case split_host_port addr of
        None \<Rightarrow> Inl (UnrecognisedAddress addr)
      | Some (host, port) \<Rightarrow>
         (case encode_host_binary v6 host of
            Inl e \<Rightarrow> Inl e
          | Inr hbuf \<Rightarrow>
             (case encode_port_binary port of Inl e \<Rightarrow> Inl e | Inr pbuf \<Rightarrow> Inr (hbuf @ pbuf))))"

section \<open>A client connection\<close>

text \<open>
  \<open>events\<close> are the updates that \<open>pubUpdate\<close> published while the connection was
  handled: operation and target.
\<close>

datatype proxy_update = TunnelAddedFor string | TunnelRemovedFor string

record client =
  cl_in :: reader
  cl_out :: writer
  cl_events :: "proxy_update list"
  cl_closed :: bool

definition on_in :: "(reader, 'e, 'a) step \<Rightarrow> (client, 'e, 'a) step" where
  "on_in m c = (case m (cl_in c) of (r, i) \<Rightarrow> (r, c\<lparr>cl_in := i\<rparr>))"

definition on_out :: "(writer, 'e, 'a) step \<Rightarrow> (client, 'e, 'a) step" where
  "on_out m c = (case m (cl_out c) of (r, w) \<Rightarrow> (r, c\<lparr>cl_out := w\<rparr>))"

definition pub_update :: "proxy_update \<Rightarrow> (client, 'e, unit) step" where
  "pub_update u c = (Inr (), c\<lparr>cl_events := cl_events c @ [u]\<rparr>)"

section \<open>Negotiation\<close>

fun find_method :: "byte \<Rightarrow> byte list \<Rightarrow> bool" where
  "find_method sm [] = False"
| "find_method sm (tm # ms) = (if sm = tm then True else find_method sm ms)"

fun accept_from :: "byte list \<Rightarrow> byte list \<Rightarrow> byte" where
  "accept_from [] m = socks5MethodNoAcceptableMethods"
| "accept_from (sm # sms) m = (if find_method sm m then sm else accept_from sms m)"

definition accept_method :: "byte list \<Rightarrow> byte" where
  "accept_method m = accept_from supportedMethods m"

definition negotiate :: "(client, socks_error, unit) step" where
  "negotiate =
     and_then (on_in (on_error ReadNegotiation (read_full 2))) (\<lambda>buf.
       let v = buf ! 0; nm = buf ! 1 in
       if v \<noteq> socks5Version then fail_with (UnsupportedVersion v)
       else
         and_then (on_in (on_error ReadMethods (read_full (unat nm)))) (\<lambda>ms.
           and_then (on_out (on_error WriteNegotiation (write_bytes [socks5Version, accept_method ms]))) (\<lambda>_.
             done_with ())))"

section \<open>Commands\<close>

text \<open>What the code uses of a dialled connection: its local TCP address and its remote address.\<close>

record tconn =
  tc_local_ip :: bytes
  tc_local_port :: nat
  tc_remote :: string

type_synonym dialer = "string \<Rightarrow> tconn option \<times> string option"

definition connect_reply :: "tconn \<Rightarrow> bytes" where
  "connect_reply t =
     [socks5Version, socks5RespSuccess, socks5FieldReserved] @
     (case to4 (tc_local_ip t) of Some ip4 \<Rightarrow> socks5IP4 # ip4 | None \<Rightarrow> socks5IP6 # tc_local_ip t) @
     be16 (word_of_nat (tc_local_port t))"

text \<open>
  \<open>Connect\<close>. The error of writing the success reply is ignored; a nil connection without
  an error gets no reply at all.
\<close>

definition connect :: "dialer \<Rightarrow> string \<Rightarrow> (client, socks_error, tconn) step" where
  "connect dial target =
     (case dial target of
        (_, Some err) \<Rightarrow>
          and_then (on_out (on_error WriteResponse
              (write_bytes [socks5Version, socks5RespHostUnreachable, socks5FieldReserved]))) (\<lambda>_.
            fail_with (DialFailure err))
      | (None, None) \<Rightarrow> fail_with NilConnection
      | (Some t, None) \<Rightarrow>
          (\<lambda>c. (Inr t, c\<lparr>cl_out := snd (write_bytes (connect_reply t) (cl_out c))\<rparr>)))"

text \<open>\<open>Associate\<close> and \<open>Bind\<close>, which are not implemented.\<close>

definition not_supported :: "byte \<Rightarrow> (client, socks_error, tconn) step" where
  "not_supported cmd =
     and_then (on_out (on_error WriteResponse
         (write_bytes [socks5Version, socks5RespCommandNotSupported, socks5FieldReserved]))) (\<lambda>_.
       fail_with (CommandNotSupported cmd))"

definition associate :: "(client, socks_error, tconn) step" where
  "associate = not_supported socks5CmdAssociate"

definition bind_cmd :: "(client, socks_error, tconn) step" where
  "bind_cmd = not_supported socks5CmdBind"

definition run_command :: "dialer \<Rightarrow> byte \<Rightarrow> string \<Rightarrow> (client, socks_error, tconn) step" where
  "run_command dial cmd target =
     (if cmd = socks5CmdConnect then connect dial target
      else if cmd = socks5CmdAssociate then associate
      else if cmd = socks5CmdBind then bind_cmd
      else fail_with (UnexpectedCmd cmd))"

text \<open>
  \<open>Handle\<close>: negotiation, request, command; then the connection is proxied between the two
  updates. The deferred \<open>conn.Close()\<close> runs on every return. What the client sends and
  receives while data is proxied is \<open>ProxyData\<close>'s business (\<open>proxied\<close>, which
  changes the two streams in any way).
\<close>

definition handle_requests :: "ipv6_text \<Rightarrow> dialer \<Rightarrow> (client \<Rightarrow> reader \<times> writer) \<Rightarrow> (client, socks_error, unit) step" where
  "handle_requests v6 dial proxied =
     and_then negotiate (\<lambda>_.
       and_then (on_in (on_error ReadRequest (read_full 3))) (\<lambda>buf.
         let v = buf ! 0; cmd = buf ! 1 in
         if v \<noteq> socks5Version then fail_with (UnsupportedVersion v)
         else
           and_then (on_in (read_address v6)) (\<lambda>target.
             and_then (run_command dial cmd target) (\<lambda>t.
               and_then (pub_update (TunnelAddedFor (tc_remote t))) (\<lambda>_.
                 and_then (\<lambda>c. (Inr (), c\<lparr>cl_in := fst (proxied c), cl_out := snd (proxied c)\<rparr>)) (\<lambda>_.
                   pub_update (TunnelRemovedFor (tc_remote t))))))))"

definition handle :: "ipv6_text \<Rightarrow> dialer \<Rightarrow> (client \<Rightarrow> reader \<times> writer) \<Rightarrow> (client, socks_error, unit) step" where
  "handle v6 dial proxied c =
     (case handle_requests v6 dial proxied c of (r, c') \<Rightarrow> (r, c'\<lparr>cl_closed := True\<rparr>))"

section \<open>Bandwidth\<close>

text \<open>
  The function that \<open>New\<close> passes to \<open>TickerFunc\<close> for each direction: after the tick
  has computed the bandwidth it publishes that and the total on \<open>TopicNetUsage\<close>, which are
  read under a lock of their own: other goroutines can have copied \<open>late\<close> bytes in between.
\<close>

record bandwidth_message =
  bm_bandwidth :: goint
  bm_tot :: goint
  bm_download :: bool

definition usage_message :: "bool \<Rightarrow> network_io \<Rightarrow> bandwidth_message" where
  "usage_message download b = \<lparr>bm_bandwidth = nio_bandwidth b, bm_tot = nio_N b, bm_download = download\<rparr>"

definition usage_tick :: "bool \<Rightarrow> 64 word list \<Rightarrow> network_io \<Rightarrow> bandwidth_message option \<times> network_io" where
  "usage_tick download late b =
     (case nio_tick b of (bw, b1) \<Rightarrow>
        let b' = fold copy_n late b1 in (map_option (\<lambda>_. usage_message download b') bw, b'))"

text \<open>What \<open>New\<close> makes: the two directions with their tickers, and the settings.\<close>

record ('d, 'r) socks5 =
  s5_port :: nat
  s5_read_write_timeout :: nat   \<comment> \<open>nanoseconds, as the two below\<close>
  s5_chunk_size :: "64 word"
  s5_bandwidth_check :: nat
  s5_next_copy_delay :: nat
  s5_download :: network_io
  s5_upload :: network_io
  s5_dialer :: 'd
  s5_bus :: "'r pubsub"

definition new_socks5 :: "'d \<Rightarrow> ('d, 'r) socks5" where
  "new_socks5 d = \<lparr>s5_port = 0, s5_read_write_timeout = 120000000000, s5_chunk_size = 1024, s5_bandwidth_check = 1000000000,
     s5_next_copy_delay = 0, s5_download = ticker_func nio_start, s5_upload = ticker_func nio_start, s5_dialer = d,
     s5_bus = new_pubsub\<rparr>"

text \<open>
  What one round of a ticker makes subscribers of \<open>TopicNetUsage\<close> receive.
\<close>

definition usage_pub :: "(string \<Rightarrow> string) \<Rightarrow> bool \<Rightarrow> 64 word list \<Rightarrow> ('d, 'r) socks5 \<Rightarrow>
    ((nat \<times> 'r) \<times> bandwidth_message) list \<times> ('d, 'r) socks5" where
  "usage_pub h download late s =
     (if download then
        (case usage_tick True late (s5_download s) of (m, b) \<Rightarrow>
           (case m of None \<Rightarrow> [] | Some m \<Rightarrow> map (\<lambda>c. (c, m)) (ps_pub h TopicNetUsage (s5_bus s)), s\<lparr>s5_download := b\<rparr>))
      else
        (case usage_tick False late (s5_upload s) of (m, b) \<Rightarrow>
           (case m of None \<Rightarrow> [] | Some m \<Rightarrow> map (\<lambda>c. (c, m)) (ps_pub h TopicNetUsage (s5_bus s)), s\<lparr>s5_upload := b\<rparr>)))"

section \<open>\<open>ProxyData\<close>\<close>

text \<open>
  Two goroutines, one per direction, copy in an endless loop and put the error of each round on a
  channel of capacity 2; \<open>ProxyData\<close> receives until the first error and returns.
\<close>

datatype pump = Copying | Putting bool   \<comment> \<open>at \<open>c <- err\<close>; is it an error?\<close>

record proxy_state =
  px_returned :: bool
  px_chan :: "bool list"
  px_download :: pump
  px_upload :: pump
  px_resets :: nat

datatype proxy_event = CopyEnds bool bool | Put bool | Receive

definition proxy_start :: proxy_state where
  "proxy_start = \<lparr>px_returned = False, px_chan = [], px_download = Copying, px_upload = Copying, px_resets = 0\<rparr>"

definition px_pump :: "proxy_state \<Rightarrow> bool \<Rightarrow> pump" where
  "px_pump s down = (if down then px_download s else px_upload s)"

definition set_pump :: "bool \<Rightarrow> pump \<Rightarrow> proxy_state \<Rightarrow> proxy_state" where
  "set_pump down p s = (if down then s\<lparr>px_download := p\<rparr> else s\<lparr>px_upload := p\<rparr>)"

text \<open>
  \<open>CopyEnds down err\<close>: a round of the download (or upload) goroutine ends;
  \<open>Put down\<close>: it sends on the channel, when that has room; \<open>Receive\<close>:
  \<open>ProxyData\<close> takes the next error off the channel.
\<close>

fun proxy_step :: "proxy_event \<Rightarrow> proxy_state \<Rightarrow> proxy_state option" where
  "proxy_step (CopyEnds down err) s =
     (if px_pump s down = Copying then Some (set_pump down (Putting err) s) else None)"
| "proxy_step (Put down) s =
     (case px_pump s down of
        Copying \<Rightarrow> None
      | Putting err \<Rightarrow>
          if length (px_chan s) < 2 then Some (set_pump down Copying (s\<lparr>px_chan := px_chan s @ [err]\<rparr>)) else None)"
| "proxy_step Receive s =
     (if px_returned s \<or> px_chan s = [] then None
      else if hd (px_chan s) then Some (s\<lparr>px_returned := True, px_chan := tl (px_chan s)\<rparr>)
      else Some (s\<lparr>px_resets := Suc (px_resets s), px_chan := tl (px_chan s)\<rparr>))"

abbreviation proxy_exec :: "proxy_event list \<Rightarrow> proxy_state \<Rightarrow> proxy_state option" where
  "proxy_exec \<equiv> exec proxy_step"

abbreviation proxy_reach :: "proxy_state \<Rightarrow> bool" where
  "proxy_reach \<equiv> reach proxy_step proxy_start"

end
