(* ===== verification/Socks5_Props.thy ===== *)
theory Socks5_Props
  imports Socks5
begin

text \<open>
  What package \<open>socks5\<close> guarantees: the address format is a \<open>stream_codec\<close>, the
  negotiation and the commands answer as stated, every tunnel that is announced is taken back,
  and what becomes of the copying goroutines.
\<close>

section \<open>Addresses\<close>

text \<open>The host as a reader sees it: addresses in their canonical text.\<close>

definition canonical_host :: "ipv6_text \<Rightarrow> string \<Rightarrow> string" where
  "canonical_host v6 host = (case parse_ip v6 host of Some ip \<Rightarrow> ip_string v6 ip | None \<Rightarrow> host)"

definition host_ok :: "ipv6_text \<Rightarrow> string \<Rightarrow> bool" where
  "host_ok v6 host \<longleftrightarrow> (parse_ip v6 host = None \<longrightarrow> length host \<le> 255)"

lemma parse_octets_length: "parse_octets k dot s = Some bs \<Longrightarrow> length bs = k"
  by (induction k arbitrary: dot s bs) (auto simp: Let_def split: if_splits option.splits)

lemma parse_ip_length: "ipv6_text_ok v6 \<Longrightarrow> parse_ip v6 s = Some ip \<Longrightarrow> length ip = 16"
  using parse_octets_length
  by (fastforce simp: parse_ip.simps parse_ipv4_def ipv6_text_ok_def split: option.splits if_splits)

lemma to4_length: "to4 ip = Some ip4 \<Longrightarrow> length ip4 = 4"
  using to4_Some by blast

lemma ip_string_to4: "to4 ip = Some ip4 \<Longrightarrow> ip_string v6 ip4 = ip_string v6 ip"
  using to4_length [of ip ip4] by (simp add: ip_string_def to4_def)

lemma unat_length: "length s \<le> 255 \<Longrightarrow> unat (word_of_nat (length s) :: byte) = length s"
  by (simp add: unat_of_nat)

lemma parses_tagged:
  assumes "parses (f [t]) bs x" shows "parses (and_then (on_error g (read_full 1)) f) (t # bs) x"
  using parses_and_then [of "on_error g (read_full 1)" "[t]" "[t]" f bs x] assms
  by (simp add: parses_on_error parses_read_full)

lemma parses_read_done:
  "length bs = n \<Longrightarrow> parses (and_then (on_error g (read_full n)) (\<lambda>buf. done_with (h buf))) bs (h bs)"
  using parses_and_then [of "on_error g (read_full n)" bs bs "\<lambda>buf. done_with (h buf)" "[]" "h bs"]
  by (simp add: parses_on_error parses_read_full parses_done)

lemma parses_read_host:
  assumes "ipv6_text_ok v6" and "encode_host_binary v6 host = Inr bs"
  shows "parses (read_host v6) bs (canonical_host v6 host)"
proof (cases "parse_ip v6 host")
  case None
  then have len: "length host \<le> 255" and bs: "bs = socks5FQDN # word_of_nat (length host) # bytes_of host"
    using assms(2) by (auto simp: encode_host_binary_def split: if_splits)
  have "parses (and_then (on_error ReadAddr (read_full (length host))) (\<lambda>buf. done_with (string_of buf))) (bytes_of host) host"
    using parses_read_done [of "bytes_of host" "length host" ReadAddr string_of] by simp
  then show ?thesis
    unfolding bs read_host_def canonical_host_def
    by (intro parses_tagged) (simp add: None socks5_constants unat_length len parses_tagged [simplified])
next
  case (Some ip)
  then have len: "length ip = 16" using parse_ip_length [OF assms(1)] by simp
  show ?thesis
  proof (cases "to4 ip")
    case None
    then have bs: "bs = socks5IP6 # ip" using Some assms(2) by (simp add: encode_host_binary_def)
    show ?thesis
      unfolding bs read_host_def canonical_host_def
      by (intro parses_tagged) (use parses_read_done [of ip 16 ReadAddr "ip_string v6"] in \<open>simp add: Some len socks5_constants\<close>)
  next
    case ip4: (Some ip4)
    then have bs: "bs = socks5IP4 # ip4" using Some assms(2) by (simp add: encode_host_binary_def)
    show ?thesis
      unfolding bs read_host_def canonical_host_def
      by (intro parses_tagged)
        (use parses_read_done [of ip4 4 ReadAddr "ip_string v6"] to4_length [OF ip4] in
          \<open>simp add: Some socks5_constants ip_string_to4 [OF ip4, of v6, symmetric]\<close>)
  qed
qed

lemma encode_host_ok: "host_ok v6 host \<Longrightarrow> \<exists>bs. encode_host_binary v6 host = Inr bs"
  by (cases "parse_ip v6 host") (auto simp: encode_host_binary_def host_ok_def split: option.splits)

lemma encode_port_ok:
  "1 \<le> p \<Longrightarrow> p \<le> 65535 \<Longrightarrow> encode_port_binary (itoa p) = Inr (be16 (word_of_nat p))"
  by (simp add: encode_port_binary_def atoi_itoa max_int64_def)

lemma parses_read_port: "p \<le> 65535 \<Longrightarrow> parses read_port (be16 (word_of_nat p)) (itoa p)"
  unfolding read_port_def
  using parses_read_done [of "be16 (word_of_nat p)" 2 ReadPortNumber "\<lambda>buf. itoa (unat (of_be16 (buf ! 0) (buf ! 1)))"]
  by (simp add: be16_def unat_of_nat)

lemma itoa_plain: "plain_text (itoa n)" "CHR '':'' \<notin> set (itoa n)"
  using itoa_digits [of n] not_digit_simps by (auto simp: plain_text_def)

text \<open>The encoder on canonical addresses, as a total function of host and port.\<close>

definition address_bytes :: "ipv6_text \<Rightarrow> string \<times> nat \<Rightarrow> bytes" where
  "address_bytes v6 hp =
     (case encode_address_binary v6 (join_host_port (fst hp) (itoa (snd hp))) of Inr bs \<Rightarrow> bs | Inl _ \<Rightarrow> [])"

definition address_ok :: "ipv6_text \<Rightarrow> string \<times> nat \<Rightarrow> bool" where
  "address_ok v6 hp \<longleftrightarrow> plain_text (fst hp) \<and> host_ok v6 (fst hp) \<and> 1 \<le> snd hp \<and> snd hp \<le> 65535"

definition address_seen :: "ipv6_text \<Rightarrow> string \<times> nat \<Rightarrow> string" where
  "address_seen v6 hp = join_host_port (canonical_host v6 (fst hp)) (itoa (snd hp))"

lemma encode_address_ok:
  assumes "address_ok v6 (host, p)"
  obtains bs where "encode_host_binary v6 host = Inr bs"
    and "encode_address_binary v6 (join_host_port host (itoa p)) = Inr (bs @ be16 (word_of_nat p))"
proof -
  obtain bs where "encode_host_binary v6 host = Inr bs"
    using assms encode_host_ok by (auto simp: address_ok_def)
  then show ?thesis
    using that assms by (simp add: encode_address_binary_def address_ok_def split_join_host_port itoa_plain encode_port_ok)
qed

lemma parses_address:
  assumes "ipv6_text_ok v6" and "address_ok v6 hp"
  shows "parses (read_address v6) (address_bytes v6 hp) (address_seen v6 hp)"
proof -
  obtain host p where hp: "hp = (host, p)" by (cases hp)
  obtain bs where bs: "encode_host_binary v6 host = Inr bs"
      "encode_address_binary v6 (join_host_port host (itoa p)) = Inr (bs @ be16 (word_of_nat p))"
    using assms(2) by (auto simp: hp elim: encode_address_ok)
  have "parses read_port (be16 (word_of_nat p)) (itoa p)"
    using assms(2) by (intro parses_read_port) (simp add: hp address_ok_def)
  then have "parses (and_then read_port (\<lambda>port. done_with (join_host_port (canonical_host v6 host) port)))
      (be16 (word_of_nat p)) (join_host_port (canonical_host v6 host) (itoa p))"
    using parses_and_then [of read_port _ "itoa p" "\<lambda>port. done_with (join_host_port (canonical_host v6 host) port)" "[]"]
    by (simp add: parses_done)
  then show ?thesis
    unfolding read_address_def hp address_bytes_def address_seen_def fst_conv snd_conv bs(2)
    by (auto intro!: parses_and_then parses_read_host [OF assms(1) bs(1)])
qed

interpretation address_format: stream_codec "address_bytes v6" "read_address v6"
    "\<lambda>hp. ipv6_text_ok v6 \<and> address_ok v6 hp" "address_seen v6" for v6
  by unfold_locales (simp add: parses_address)

section \<open>Reading and answering\<close>

lemma client_upd_swap [simp]: "c\<lparr>cl_out := w, cl_in := r\<rparr> = c\<lparr>cl_in := r, cl_out := w\<rparr>"
  by (cases c) simp

lemma on_in_parses:
  "parses m bs x \<Longrightarrow> cl_in c = (bs @ rest, e) \<Longrightarrow> on_in m c = (Inr x, c\<lparr>cl_in := (rest, e)\<rparr>)"
  by (simp add: on_in_def parsesD)

lemma on_in_read:
  "length bs = n \<Longrightarrow> cl_in c = (bs @ rest, e) \<Longrightarrow> on_in (on_error g (read_full n)) c = (Inr bs, c\<lparr>cl_in := (rest, e)\<rparr>)"
  by (rule on_in_parses) (auto intro: parses_on_error parses_read_full)

lemma on_out_write:
  "cl_out c = (out, None) \<Longrightarrow> on_out (on_error g (write_bytes bs)) c = (Inr (length bs), c\<lparr>cl_out := (out @ bs, None)\<rparr>)"
  by (simp add: on_out_def seq_simps)

lemma find_method_iff [simp]: "find_method m ms \<longleftrightarrow> m \<in> set ms"
  by (induction ms) auto

lemma accept_method_eq: "accept_method ms = (if 0 \<in> set ms then 0 else 0xff)"
  by (simp add: accept_method_def socks5_constants)

lemma negotiate_ok:
  assumes "cl_in c = (5 # n # ms @ rest, e)" and "length ms = unat n" and "cl_out c = (out, None)"
  shows "negotiate c = (Inr (), c\<lparr>cl_in := (rest, e), cl_out := (out @ [5, accept_method ms], None)\<rparr>)"
proof -
  have 1: "on_in (on_error ReadNegotiation (read_full 2)) c = (Inr [5, n], c\<lparr>cl_in := (ms @ rest, e)\<rparr>)"
    by (rule on_in_read) (simp_all add: assms(1))
  have 2: "on_in (on_error ReadMethods (read_full (unat n))) (c\<lparr>cl_in := (ms @ rest, e)\<rparr>) = (Inr ms, c\<lparr>cl_in := (rest, e)\<rparr>)"
    using on_in_read [of ms "unat n" "c\<lparr>cl_in := (ms @ rest, e)\<rparr>" rest e] assms(2) by simp
  have 3: "on_out (on_error WriteNegotiation (write_bytes [5, accept_method ms])) (c\<lparr>cl_in := (rest, e)\<rparr>) =
      (Inr (length [5, accept_method ms]), c\<lparr>cl_in := (rest, e), cl_out := (out @ [5, accept_method ms], None)\<rparr>)"
    by (rule on_out_write) (simp add: assms(3))
  show ?thesis
    by (simp add: negotiate_def and_then_def 1 2 3 socks5Version_def Let_def done_with_def)
qed

text \<open>A whole request up to the command.\<close>

definition request_bytes :: "ipv6_text \<Rightarrow> byte list \<Rightarrow> byte \<Rightarrow> byte \<Rightarrow> string \<times> nat \<Rightarrow> bytes" where
  "request_bytes v6 ms cmd rsv hp = [5, word_of_nat (length ms)] @ ms @ [5, cmd, rsv] @ address_bytes v6 hp"

lemma handle_request:
  assumes "ipv6_text_ok v6" and "address_ok v6 hp" and "length ms < 256"
    and "cl_in c = (request_bytes v6 ms cmd rsv hp @ rest, e)" and "cl_out c = (out, None)"
  shows "handle_requests v6 dial proxied c =
    and_then (run_command dial cmd (address_seen v6 hp)) (\<lambda>t.
      and_then (pub_update (TunnelAddedFor (tc_remote t))) (\<lambda>_.
        and_then (\<lambda>c. (Inr (), c\<lparr>cl_in := fst (proxied c), cl_out := snd (proxied c)\<rparr>)) (\<lambda>_.
          pub_update (TunnelRemovedFor (tc_remote t)))))
      (c\<lparr>cl_in := (rest, e), cl_out := (out @ [5, accept_method ms], None)\<rparr>)"
proof -
  let ?c1 = "c\<lparr>cl_in := (5 # cmd # rsv # address_bytes v6 hp @ rest, e), cl_out := (out @ [5, accept_method ms], None)\<rparr>"
  let ?c2 = "c\<lparr>cl_in := (address_bytes v6 hp @ rest, e), cl_out := (out @ [5, accept_method ms], None)\<rparr>"
  let ?c3 = "c\<lparr>cl_in := (rest, e), cl_out := (out @ [5, accept_method ms], None)\<rparr>"
  have n: "length ms = unat (word_of_nat (length ms) :: byte)"
    using assms(3) by (simp add: unat_of_nat)
  have 1: "negotiate c = (Inr (), ?c1)"
    by (rule negotiate_ok [OF _ n assms(5)]) (simp add: assms(4) request_bytes_def)
  have 2: "on_in (on_error ReadRequest (read_full 3)) ?c1 = (Inr [5, cmd, rsv], ?c2)"
    using on_in_read [of "[5, cmd, rsv]" 3 ?c1 "address_bytes v6 hp @ rest" e] by simp
  have 3: "on_in (read_address v6) ?c2 = (Inr (address_seen v6 hp), ?c3)"
    using on_in_parses [OF parses_address [OF assms(1,2)], of ?c2 rest e] by simp
  show ?thesis
    unfolding handle_requests_def and_then_def [of negotiate] 1
    by (simp add: and_then_def [of "on_in _"] 2 [simplified] 3 Let_def socks5Version_def)
qed

definition copies_only :: "(client \<Rightarrow> reader \<times> writer)" where
  "copies_only c = (cl_in c, cl_out c)"

section \<open>Properties\<close>

text \<open>IPv6 text for the witnesses: a colon and two letters per byte.\<close>

fun letters_to_bytes :: "string \<Rightarrow> bytes" where
  "letters_to_bytes (x # y # s) = word_of_nat ((of_char x - 97) * 16 + (of_char y - 97)) # letters_to_bytes s"
| "letters_to_bytes _ = []"

definition letters_v6 :: ipv6_text where
  "letters_v6 =
     \<lparr>v6_string = (\<lambda>ip. CHR '':'' # concat (map (\<lambda>b. [char_of (97 + unat b div 16), char_of (97 + unat b mod 16)]) ip)),
      v6_parse = (\<lambda>s. let bs = letters_to_bytes (tl s) in if length bs = 16 then Some bs else None)\<rparr>"

lemma letters_inverse:
  "letters_to_bytes (concat (map (\<lambda>b. [char_of (97 + unat b div 16), char_of (97 + unat b mod 16)]) ip)) = ip"
proof (induction ip)
  case (Cons b ip)
  have "unat b \<le> 255" by (rule unat_byte)
  then show ?case using Cons by simp
qed simp

lemma letters_v6_ok: "ipv6_text_ok letters_v6"
proof -
  have letter: "of_char (char_of (97 + n) :: char) = 97 + n" if "n < 16" for n :: nat
    using that by simp
  have nib: "unat (b :: byte) div 16 < 16" for b
    using unat_byte [of b] by simp
  have small: "(97 + unat (b :: byte) div 16) mod 256 = 97 + unat b div 16" "(97 + unat b mod 16) mod 256 = 97 + unat b mod 16" for b
    using nib [of b] by simp_all
  have "\<forall>c \<in> set (concat (map (\<lambda>b. [char_of (97 + unat b div 16), char_of (97 + unat b mod 16)]) ip)).
      97 \<le> (of_char c :: nat)" for ip :: bytes
    by (auto simp: small)
  then have "plain_text (concat (map (\<lambda>b. [char_of (97 + unat b div 16), char_of (97 + unat b mod 16)]) ip))" for ip :: bytes
    unfolding plain_text_def by fastforce
  then show ?thesis
    by (auto simp: ipv6_text_ok_def letters_v6_def letters_inverse plain_text_def Let_def split: if_splits)
qed

lemma demo_address_ok: "address_ok letters_v6 (''example.org'', 443)"
proof -
  have "parse_ip letters_v6 ''example.org'' = None" by code_simp
  then show ?thesis by (simp add: address_ok_def host_ok_def plain_text_def)
qed

text \<open>
  C21: Addresses survive the wire: an address whose host has no brackets and is an IP address or
  at most 255 bytes long, with a port from 1 to 65535, is encoded, and whoever reads the encoding
  off a stream gets host and port back, IP addresses in canonical text, and leaves the rest of the
  stream untouched.
\<close>

theorem address_roundtrip:
  assumes "ipv6_text_ok v6" and "plain_text host" and "parse_ip v6 host = None \<longrightarrow> length host \<le> 255"
    and "1 \<le> p" and "p \<le> 65535"
  shows "\<exists>bs. encode_address_binary v6 (join_host_port host (itoa p)) = Inr bs \<and>
    read_address v6 (bs @ rest, e) = (Inr (join_host_port (canonical_host v6 host) (itoa p)), (rest, e))"
proof -
  have ok: "address_ok v6 (host, p)" using assms by (simp add: address_ok_def host_ok_def)
  then obtain bs where bs: "encode_address_binary v6 (join_host_port host (itoa p)) = Inr bs"
    by (auto elim: encode_address_ok)
  have "parses (read_address v6) (address_bytes v6 (host, p)) (address_seen v6 (host, p))"
    by (rule address_format.dec_enc) (simp add: assms(1) ok)
  then have "parses (read_address v6) bs (join_host_port (canonical_host v6 host) (itoa p))"
    by (simp add: address_bytes_def bs address_seen_def)
  then show ?thesis using bs by (auto dest: parsesD)
qed

theorem address_roundtrip_witness:
  "\<exists>bs. encode_address_binary letters_v6 ''example.org:443'' = Inr bs \<and>
     read_address letters_v6 (bs @ [1, 2], EOF) = (Inr ''example.org:443'', ([1, 2], EOF))"
proof -
  have 1: "parse_ip letters_v6 ''example.org'' = None \<longrightarrow> length ''example.org'' \<le> 255" by simp
  have 2: "plain_text ''example.org''" by (simp add: plain_text_def)
  have 3: "join_host_port ''example.org'' (itoa 443) = ''example.org:443''"
      "canonical_host letters_v6 ''example.org'' = ''example.org''" by code_simp+
  from address_roundtrip [OF letters_v6_ok 2 1, of 443 "[1, 2]" EOF] 3 show ?thesis by simp
qed

lemma plain_ipv4: "length ip = 4 \<Longrightarrow> plain_text (ipv4_string ip)"
proof -
  assume "length ip = 4"
  then obtain a b c d where ip: "ip = [a, b, c, d]" by (auto simp: numeral_eq_Suc length_Suc_conv)
  show ?thesis using itoa_plain(1) by (simp add: ip plain_text_def)
qed

text \<open>
  Reading an address and encoding what was read gives the same bytes, for IPv4 addresses,
  IPv6 addresses that are not mapped IPv4 ones, and domain names that are not IP addresses and
  have no brackets, with any port but 0 (which is read but not encoded).
\<close>

theorem address_reencoded:
  assumes "ipv6_text_ok v6" and "port \<noteq> 0"
    and "(\<exists>ip. hbytes = socks5IP4 # ip \<and> length ip = 4) \<or>
      (\<exists>ip. hbytes = socks5IP6 # ip \<and> length ip = 16 \<and> to4 ip = None) \<or>
      (\<exists>name. hbytes = socks5FQDN # word_of_nat (length name) # bytes_of name \<and> length name \<le> 255 \<and>
        plain_text name \<and> parse_ip v6 name = None)"
  shows "\<exists>addr. read_address v6 (hbytes @ be16 port @ rest, e) = (Inr addr, (rest, e)) \<and>
    encode_address_binary v6 addr = Inr (hbytes @ be16 port)"
proof -
  obtain host where host: "encode_host_binary v6 host = Inr hbytes" "canonical_host v6 host = host" "plain_text host" "host_ok v6 host"
    using assms(3)
  proof (elim disjE exE conjE)
    fix ip :: bytes assume ip: "hbytes = socks5IP4 # ip" "length ip = 4"
    then have "parse_ip v6 (ipv4_string ip) = Some (v4_prefix @ ip)"
      using parse_ip_string [OF assms(1), of ip] by (simp add: to4_def ip_string_def)
    then show ?thesis
      using ip plain_ipv4 by (intro that [of "ipv4_string ip"])
        (simp_all add: encode_host_binary_def canonical_host_def host_ok_def ip_string_def)
  next
    fix ip :: bytes assume ip: "hbytes = socks5IP6 # ip" "length ip = 16" "to4 ip = None"
    then have "parse_ip v6 (v6_string v6 ip) = Some ip" "plain_text (v6_string v6 ip)"
      using parse_ip_string [OF assms(1), of ip] assms(1) by (simp_all add: ip_string_def ipv6_text_ok_def)
    then show ?thesis
      using ip by (intro that [of "v6_string v6 ip"])
        (simp_all add: encode_host_binary_def canonical_host_def host_ok_def ip_string_def)
  next
    fix name assume "hbytes = socks5FQDN # word_of_nat (length name) # bytes_of name" "length name \<le> 255"
      "plain_text name" "parse_ip v6 name = None"
    then show ?thesis
      by (intro that [of name]) (simp_all add: encode_host_binary_def canonical_host_def host_ok_def)
  qed
  let ?p = "unat port"
  have p: "1 \<le> ?p" "?p \<le> 65535"
    using assms(2) unsigned_less [where ?'a = nat, of port] by (simp_all add: unat_gt_0 Suc_le_eq)
  then have ok: "address_ok v6 (host, ?p)" using host by (simp add: address_ok_def)
  then have enc: "encode_address_binary v6 (join_host_port host (itoa ?p)) = Inr (hbytes @ be16 port)"
    using host(1) by (auto elim!: encode_address_ok)
  have "parses (read_address v6) (address_bytes v6 (host, ?p)) (address_seen v6 (host, ?p))"
    by (rule parses_address [OF assms(1) ok])
  then have "parses (read_address v6) (hbytes @ be16 port) (join_host_port host (itoa ?p))"
    by (simp add: address_bytes_def enc address_seen_def host(2))
  then have "read_address v6 (hbytes @ be16 port @ rest, e) = (Inr (join_host_port host (itoa ?p)), (rest, e))"
    by (auto dest: parsesD)
  then show ?thesis using enc by blast
qed

theorem address_reencoded_witness:
  "\<exists>addr. read_address letters_v6 ([1, 10, 0, 0, 7, 0x1F, 0x90], EOF) = (Inr addr, ([], EOF)) \<and>
     encode_address_binary letters_v6 addr = Inr [1, 10, 0, 0, 7, 0x1F, 0x90]"
proof -
  have "be16 8080 = [0x1F, 0x90]" by code_simp
  with address_reencoded [OF letters_v6_ok, of 8080 "[1, 10, 0, 0, 7]" "[]" EOF] show ?thesis
    by (simp add: socks5_constants)
qed

text \<open>
  Ports: \<open>EncodePortBinary\<close> accepts exactly the decimal numbers from 1 to 65535 and
  gives their two bytes, high byte first; a number outside is out of range, and text that is not
  a 64 bit number is reported as such.
\<close>

theorem port_encoding:
  "encode_port_binary s =
     (if atoi s = None then Inl (PortNotANumber s)
      else if the (atoi s) \<in> {1..65535} then Inr [word_of_int (the (atoi s) div 256), word_of_int (the (atoi s) mod 256)]
      else Inl (PortOutOfRange s))"
proof (cases "atoi s")
  case (Some p)
  have "be16 (word_of_int p) = [word_of_int (p div 256), word_of_int (p mod 256)]" if "1 \<le> p" "p \<le> 65535"
  proof -
    have "uint (word_of_int p :: 16 word) = p"
      using that by (simp add: uint_word_of_int)
    then have "uint (drop_bit 8 (word_of_int p :: 16 word)) = p div 256"
      using that by (subst unsigned_drop_bit_eq) (simp add: drop_bit_eq_div take_bit_eq_mod)
    then have "(ucast (drop_bit 8 (word_of_int p :: 16 word)) :: 8 word) = word_of_int (p div 256)"
      by (simp only: ucast_eq)
    moreover have "(ucast (word_of_int p :: 16 word) :: 8 word) = word_of_int (p mod 256)"
      using \<open>uint (word_of_int p :: 16 word) = p\<close> by (simp add: ucast_eq word_of_int_eq_iff take_bit_eq_mod)
    ultimately have "be16 (word_of_int p) = [word_of_int (p div 256), word_of_int (p mod 256)]"
      by (simp add: be16_def)
    then show ?thesis .
  qed
  then show ?thesis using Some by (auto simp: encode_port_binary_def)
qed (simp add: encode_port_binary_def)

text \<open>
  Negotiation: to a greeting of version 5 with its \<open>n\<close> methods the server answers
  version 5 and method 0 when the client offers it and 255 ("no acceptable methods") otherwise,
  takes exactly the greeting off the stream, and in both cases goes on to the request. A greeting
  of another version is refused without an answer.
\<close>

theorem negotiation_reply:
  assumes "cl_in c = (v # n # ms @ rest, e)" and "length ms = unat n" and "cl_out c = (out, None)"
  shows "if v = 5
    then negotiate c = (Inr (), c\<lparr>cl_in := (rest, e), cl_out := (out @ [5, if 0 \<in> set ms then 0 else 255], None)\<rparr>)
    else negotiate c = (Inl (UnsupportedVersion v), c\<lparr>cl_in := (ms @ rest, e)\<rparr>)"
proof (cases "v = 5")
  case True
  then show ?thesis using negotiate_ok [of c n ms rest e out] assms by (simp add: accept_method_eq)
next
  case False
  have "on_in (on_error ReadNegotiation (read_full 2)) c = (Inr [v, n], c\<lparr>cl_in := (ms @ rest, e)\<rparr>)"
    by (rule on_in_read) (simp_all add: assms(1))
  then show ?thesis
    using False by (simp add: negotiate_def and_then_def fail_with_def socks5Version_def)
qed

definition demo_client :: "bytes \<Rightarrow> client" where
  "demo_client bs = \<lparr>cl_in = (bs, EOF), cl_out = ([], None), cl_events = [], cl_closed = False\<rparr>"

theorem negotiation_reply_witness:
  "cl_out (snd (negotiate (demo_client [5, 2, 1, 2, 5, 1]))) = ([5, 255], None) \<and>
   fst (negotiate (demo_client [5, 2, 1, 2, 5, 1])) = Inr ()"
  using negotiation_reply [of "demo_client [5, 2, 1, 2, 5, 1]" 5 2 "[1, 2]" "[5, 1]" EOF "[]"]
  by (simp add: demo_client_def)

text \<open>
  A CONNECT request that can be served: the dialer is given the address the client sent, the
  client is answered version 5, success and the local address of the dialled connection, the rest
  of the client's bytes is left for proxying, one tunnel event is published before and one after
  proxying, both for the remote address, and the connection is closed at the end.
\<close>

theorem connect_served:
  assumes "ipv6_text_ok v6" and "address_ok v6 hp" and "length ms < 256"
    and "cl_in c = (request_bytes v6 ms socks5CmdConnect rsv hp @ rest, e)" and "cl_out c = (out, None)"
    and "dial (address_seen v6 hp) = (Some t, None)"
  shows "handle v6 dial copies_only c =
    (Inr (), c\<lparr>cl_in := (rest, e), cl_out := (out @ [5, accept_method ms] @ connect_reply t, None),
       cl_events := cl_events c @ [TunnelAddedFor (tc_remote t), TunnelRemovedFor (tc_remote t)], cl_closed := True\<rparr>)"
  unfolding handle_def handle_request [OF assms(1-5)]
  by (simp add: and_then_def run_command_def connect_def assms(6) pub_update_def copies_only_def)

definition demo_tconn :: tconn where
  "demo_tconn = \<lparr>tc_local_ip = [10, 0, 0, 1], tc_local_port = 80, tc_remote = ''93.184.216.34:443''\<rparr>"

lemma demo_request: "request_bytes letters_v6 [0] socks5CmdConnect 0 (''example.org'', 443) =
  [5, 1, 0, 5, 1, 0, 3, 11] @ bytes_of ''example.org'' @ [1, 187]"
  by code_simp

theorem connect_served_witness:
  "cl_out (snd (handle letters_v6 (\<lambda>a. if a = ''example.org:443'' then (Some demo_tconn, None) else (None, None)) copies_only
     (demo_client ([5, 1, 0, 5, 1, 0, 3, 11] @ bytes_of ''example.org'' @ [1, 187] @ [7, 7])))) =
   ([5, 0, 5, 0, 0, 1, 10, 0, 0, 1, 0, 80], None)"
proof -
  have seen: "address_seen letters_v6 (''example.org'', 443) = ''example.org:443''"
    and reply: "connect_reply demo_tconn = [5, 0, 0, 1, 10, 0, 0, 1, 0, 80]" by code_simp+
  show ?thesis
    using connect_served [OF letters_v6_ok demo_address_ok, of "[0]" "demo_client ([5, 1, 0, 5, 1, 0, 3, 11] @ bytes_of ''example.org'' @ [1, 187] @ [7, 7])"
        0 "[7, 7]" EOF "[]" "\<lambda>a. if a = ''example.org:443'' then (Some demo_tconn, None) else (None, None)" demo_tconn]
      demo_request seen
    by (simp add: demo_client_def accept_method_eq reply)
qed

text \<open>
  C34: Requests that are not served: when the dial fails, the answer after the negotiation is the
  three bytes 5, 4, 0 (host unreachable); for BIND and UDP ASSOCIATE it is 5, 7, 0; when the
  dialer returns neither a connection nor an error, there is no answer at all. In none of these
  cases a tunnel event is published, and the connection is closed.
\<close>

theorem failed_requests:
  assumes "ipv6_text_ok v6" and "address_ok v6 hp" and "length ms < 256"
    and "cl_in c = (request_bytes v6 ms cmd rsv hp @ rest, e)" and "cl_out c = (out, None)"
    and "cmd = socks5CmdConnect \<longrightarrow> fst (dial (address_seen v6 hp)) = None"
  shows "cl_out (snd (handle v6 dial proxied c)) =
      (out @ [5, accept_method ms] @
        (if cmd = socks5CmdConnect then (if snd (dial (address_seen v6 hp)) = None then [] else [5, 4, 0])
         else if cmd \<in> {socks5CmdBind, socks5CmdAssociate} then [5, 7, 0] else []), None) \<and>
    (\<exists>err. fst (handle v6 dial proxied c) = Inl err) \<and>
    cl_events (snd (handle v6 dial proxied c)) = cl_events c \<and> cl_closed (snd (handle v6 dial proxied c))"
proof -
  let ?c = "c\<lparr>cl_in := (rest, e), cl_out := (out @ [5, accept_method ms], None)\<rparr>"
  have w: "on_out (on_error WriteResponse (write_bytes bs)) ?c =
      (Inr (length bs), ?c\<lparr>cl_out := ((out @ [5, accept_method ms]) @ bs, None)\<rparr>)" for bs
    by (rule on_out_write) simp
  note run = handle_request [OF assms(1-5), of dial proxied]
  obtain tc er where d: "dial (address_seen v6 hp) = (tc, er)" by fastforce
  consider "cmd = socks5CmdConnect" "tc = None" | "cmd = socks5CmdBind" | "cmd = socks5CmdAssociate"
    | "cmd \<notin> {socks5CmdConnect, socks5CmdBind, socks5CmdAssociate}"
    using assms(6) d by auto
  then show ?thesis
  proof cases
    case 1
    then show ?thesis
      by (cases er) (simp_all add: handle_def run run_command_def connect_def d and_then_def w fail_with_def socks5_constants)
  qed (simp_all add: handle_def run run_command_def associate_def bind_cmd_def not_supported_def and_then_def w
      fail_with_def socks5_constants)
qed

theorem failed_requests_witness:
  "cl_out (snd (handle letters_v6 (\<lambda>a. (None, None)) copies_only
     (demo_client ([5, 1, 0, 5, 1, 0, 3, 11] @ bytes_of ''example.org'' @ [1, 187])))) = ([5, 0], None) \<and>
   cl_out (snd (handle letters_v6 (\<lambda>a. (None, Some ''refused'')) copies_only
     (demo_client ([5, 1, 0, 5, 1, 0, 3, 11] @ bytes_of ''example.org'' @ [1, 187])))) = ([5, 0, 5, 4, 0], None)"
  using failed_requests [OF letters_v6_ok demo_address_ok, of "[0]" "demo_client ([5, 1, 0, 5, 1, 0, 3, 11] @ bytes_of ''example.org'' @ [1, 187])"
        socks5CmdConnect 0 "[]" EOF "[]" "\<lambda>a. (None, None)" copies_only]
    failed_requests [OF letters_v6_ok demo_address_ok, of "[0]" "demo_client ([5, 1, 0, 5, 1, 0, 3, 11] @ bytes_of ''example.org'' @ [1, 187])"
        socks5CmdConnect 0 "[]" EOF "[]" "\<lambda>a. (None, Some ''refused'')" copies_only]
    demo_request
  by (simp add: demo_client_def accept_method_eq)

lemma on_in_events: "on_in m c = (r, c') \<Longrightarrow> cl_events c' = cl_events c"
  by (auto simp: on_in_def split: prod.splits)

lemma on_out_events: "on_out m c = (r, c') \<Longrightarrow> cl_events c' = cl_events c"
  by (auto simp: on_out_def split: prod.splits)

definition keeps_events :: "(client, 'e, 'a) step \<Rightarrow> bool" where
  "keeps_events m \<longleftrightarrow> (\<forall>c. cl_events (snd (m c)) = cl_events c)"

lemma keeps_events_intros:
  "keeps_events (on_in m)" "keeps_events (on_out w)" "keeps_events (fail_with e)" "keeps_events (done_with x)"
  by (auto simp: keeps_events_def seq_simps on_in_def on_out_def split: prod.splits)

lemma keeps_events_and_then:
  "keeps_events m \<Longrightarrow> (\<And>x. keeps_events (f x)) \<Longrightarrow> keeps_events (and_then m f)"
  unfolding keeps_events_def by (auto simp: and_then_def split: prod.splits sum.splits) (metis snd_conv)+

lemma keeps_events_negotiate: "keeps_events negotiate"
  unfolding negotiate_def Let_def by (auto intro!: keeps_events_intros keeps_events_and_then)

lemma keeps_events_command: "keeps_events (run_command dial cmd target)"
proof -
  have "keeps_events (\<lambda>c. (Inr t, c\<lparr>cl_out := w c\<rparr>))" for t :: tconn and w
    by (simp add: keeps_events_def)
  then show ?thesis
    unfolding run_command_def connect_def associate_def bind_cmd_def not_supported_def
    by (auto intro!: keeps_events_intros keeps_events_and_then split: prod.splits option.splits)
qed

text \<open>Steps that publish a balanced pair when they succeed and nothing when they fail.\<close>

definition balanced_events :: "(client, 'e, unit) step \<Rightarrow> bool" where
  "balanced_events m \<longleftrightarrow> (\<forall>c. case m c of
     (Inl e, c') \<Rightarrow> cl_events c' = cl_events c
   | (Inr u, c') \<Rightarrow> \<exists>t. cl_events c' = cl_events c @ [TunnelAddedFor t, TunnelRemovedFor t])"

lemma balanced_and_then:
  assumes "keeps_events m" and "\<And>x. balanced_events (f x)"
  shows "balanced_events (and_then m f)"
  unfolding balanced_events_def
proof
  fix c
  obtain r c1 where m: "m c = (r, c1)" by fastforce
  have ev: "cl_events c1 = cl_events c" using assms(1) m unfolding keeps_events_def by (metis snd_conv)
  show "case and_then m f c of (Inl e, c') \<Rightarrow> cl_events c' = cl_events c
     | (Inr u, c') \<Rightarrow> \<exists>t. cl_events c' = cl_events c @ [TunnelAddedFor t, TunnelRemovedFor t]"
  proof (cases r)
    case (Inl e)
    then show ?thesis using m ev by (simp add: and_then_def)
  next
    case (Inr x)
    obtain r2 c2 where f: "f x c1 = (r2, c2)" by fastforce
    show ?thesis
      using assms(2) [of x, unfolded balanced_events_def, rule_format, of c1] m ev Inr f
      by (auto simp: and_then_def split: sum.splits)
  qed
qed

lemma balanced_fail: "balanced_events (fail_with e)"
  by (simp add: balanced_events_def fail_with_def)

lemma balanced_requests: "balanced_events (handle_requests v6 dial proxied)"
proof -
  have "balanced_events (and_then (pub_update (TunnelAddedFor x)) (\<lambda>_.
      and_then (\<lambda>c. (Inr (), c\<lparr>cl_in := fst (proxied c), cl_out := snd (proxied c)\<rparr>)) (\<lambda>_. pub_update (TunnelRemovedFor x))))" for x
    by (simp add: balanced_events_def and_then_def pub_update_def)
  then show ?thesis
    unfolding handle_requests_def Let_def
    by (auto intro!: balanced_and_then [OF keeps_events_negotiate] balanced_and_then [OF keeps_events_intros(1)]
        balanced_and_then [OF keeps_events_command] balanced_fail)
qed

text \<open>
  C20: Whatever the client sends and whatever the dialer does, \<open>Handle\<close> closes the
  connection, and the tunnel events it publishes are balanced: on success one "added" and then
  one "removed" for the same target, on any error none.
\<close>

theorem handle_events_balanced:
  "cl_closed (snd (handle v6 dial proxied c)) \<and>
   (case handle v6 dial proxied c of
      (Inl e, c') \<Rightarrow> cl_events c' = cl_events c
    | (Inr u, c') \<Rightarrow> \<exists>t. cl_events c' = cl_events c @ [TunnelAddedFor t, TunnelRemovedFor t])"
  using balanced_requests [of v6 dial proxied] unfolding balanced_events_def handle_def
  by (auto split: prod.splits sum.splits)

section \<open>The bandwidth reports\<close>

lemma fold_copy_n:
  "nio_N (fold copy_n ns b) = nio_N b + sum_list ns" "nio_prev (fold copy_n ns b) = nio_prev b"
  "nio_bandwidth (fold copy_n ns b) = nio_bandwidth b"
  by (induction ns arbitrary: b) (simp_all add: copy_n_def add.assoc)

text \<open>
  Consecutive reports of one direction fit together: their bandwidths add up to \<open>nio_prev\<close>, and the
  total of a report is that plus what was copied between the tick and the report.
\<close>

lemma usage_reports_add_up:
  assumes "usage_tick download late b = (Some m, b')"
  shows "bm_tot m = nio_prev b' + sum_list late \<and> nio_prev b' = nio_prev b + bm_bandwidth m"
  using assms
  by (auto simp: usage_tick_def usage_message_def nio_tick_def Let_def fold_copy_n split: if_splits)

text \<open>A new proxy publishes nothing about a direction in which nothing was copied.\<close>

lemma usage_pub_new: "usage_pub h download [] (new_socks5 d) = ([], new_socks5 d)"
  by (simp add: usage_pub_def usage_tick_def new_socks5_def nio_tick_def ticker_func_def nio_start_def)

section \<open>The copying goroutines\<close>

definition proxy_fuel :: "proxy_state \<Rightarrow> nat" where
  "proxy_fuel s = 2 * (2 - length (px_chan s)) + of_bool (px_download s = Copying) + of_bool (px_upload s = Copying)"

lemma proxy_step_returned:
  assumes "proxy_step ev s = Some s'" and "px_returned s" and "length (px_chan s) \<le> 2"
  shows "px_returned s' \<and> length (px_chan s') \<le> 2 \<and> proxy_fuel s = Suc (proxy_fuel s')"
  using assms
  by (cases ev) (auto simp: proxy_fuel_def px_pump_def set_pump_def split: if_splits pump.splits)

lemma proxy_step_chan: "proxy_step e s = Some s' \<Longrightarrow> length (px_chan s) \<le> 2 \<Longrightarrow> length (px_chan s') \<le> 2"
  by (cases e) (auto simp: set_pump_def split: if_splits pump.splits)

interpretation proxy: invariant proxy_step "\<lambda>s. length (px_chan s) \<le> 2" proxy_start
  by unfold_locales (use proxy_step_chan in \<open>auto simp: proxy_start_def\<close>)

text \<open>Once \<open>ProxyData\<close> has returned every step uses up one of the steps left.\<close>

abbreviation proxy_over :: "proxy_state \<Rightarrow> bool" where
  "proxy_over s \<equiv> px_returned s \<and> length (px_chan s) \<le> 2"

interpretation leaked: ranked proxy_step proxy_over proxy_fuel "\<lambda>_. True"
  by unfold_locales (use proxy_step_returned in force)+

lemma proxy_stuck_iff:
  assumes "px_returned s" and "length (px_chan s) \<le> 2"
  shows "(\<forall>ev. proxy_step ev s = None) \<longleftrightarrow>
    length (px_chan s) = 2 \<and> px_download s \<noteq> Copying \<and> px_upload s \<noteq> Copying"
proof
  assume stuck: "\<forall>ev. proxy_step ev s = None"
  have "px_pump s d \<noteq> Copying" for d
    using stuck [rule_format, of "CopyEnds d True"] by (simp split: if_splits)
  moreover from this [of True] have "length (px_chan s) = 2"
    using stuck [rule_format, of "Put True"] assms(2) by (auto split: pump.splits if_splits)
  ultimately show "length (px_chan s) = 2 \<and> px_download s \<noteq> Copying \<and> px_upload s \<noteq> Copying"
    by (metis px_pump_def)
next
  assume r: "length (px_chan s) = 2 \<and> px_download s \<noteq> Copying \<and> px_upload s \<noteq> Copying"
  show "\<forall>ev. proxy_step ev s = None"
  proof
    fix ev show "proxy_step ev s = None"
      using r assms(1) by (cases ev) (auto simp: px_pump_def split: pump.splits)
  qed
qed

text \<open>
  C38: The copying goroutines of \<open>ProxyData\<close> are leaked: once \<open>ProxyData\<close> has
  returned, at most six more steps are possible, however they are scheduled, and an execution
  that cannot go on has left both goroutines blocked on the full channel; neither ever returns.
\<close>

theorem copy_goroutines_leak:
  assumes "proxy_reach s" and "px_returned s" and "proxy_exec es s = Some s'"
  shows "length es \<le> 6 \<and> px_returned s' \<and>
    ((\<forall>ev. proxy_step ev s' = None) \<longleftrightarrow>
      length (px_chan s') = 2 \<and> (\<exists>e. px_download s' = Putting e) \<and> (\<exists>e. px_upload s' = Putting e))"
proof -
  have over: "proxy_over s" using proxy.reachable [OF assms(1)] assms(2) by simp
  note run = leaked.after [OF assms(3) over] leaked.bounded [OF assms(3) over]
  have "proxy_fuel s \<le> 6"
    by (cases "px_download s = Copying"; cases "px_upload s = Copying") (auto simp: proxy_fuel_def)
  moreover have "(p \<noteq> Copying) = (\<exists>e. p = Putting e)" for p by (cases p) auto
  ultimately show ?thesis
    using run proxy_stuck_iff [of s'] by simp
qed

theorem copy_goroutines_leak_witness:
  "\<exists>s s'. proxy_exec [CopyEnds True True, Put True, Receive] proxy_start = Some s \<and> px_returned s \<and>
     proxy_exec [CopyEnds True True, CopyEnds False True, Put True, Put False, CopyEnds True True, CopyEnds False True] s = Some s' \<and>
     (\<forall>ev. proxy_step ev s' = None)"
proof -
  define s where "s = \<lparr>px_returned = True, px_chan = [], px_download = Copying, px_upload = Copying, px_resets = 0\<rparr>"
  define s' where "s' = \<lparr>px_returned = True, px_chan = [True, True], px_download = Putting True, px_upload = Putting True, px_resets = 0\<rparr>"
  have 1: "proxy_exec [CopyEnds True True, Put True, Receive] proxy_start = Some s" unfolding s_def by code_simp
  have 2: "proxy_exec [CopyEnds True True, CopyEnds False True, Put True, Put False, CopyEnds True True, CopyEnds False True] s = Some s'"
    unfolding s_def s'_def by code_simp
  from copy_goroutines_leak [OF exec_reach [OF 1] _ 2] 1 2 show ?thesis by (auto simp: s_def s'_def)
qed

end
