(* ===== verification/Network.thy ===== *)
theory Network
  imports Netconn Node Tracer Pubsub
begin

text \<open>
  Package \<open>booster\<close>, \<open>network.go\<close>: a booster node's network (its local node and
  its connections to other nodes), the packets it encodes and decodes, and the operations on
  connections and nodes. \<open>Conn\<close> objects are used through pointers, so they are kept in a
  list and referred to by index; nodes and tunnels are in the node heap. Every operation runs on
  the network of the connection's booster, which is what \<open>Nets.Get(c.boosterID)\<close> returns.
  Messages published on the network's pub/sub are recorded in \<open>nw_published\<close>.
\<close>

section \<open>State\<close>

text \<open>\<open>bc_conn\<close> is \<open>None\<close> when \<open>c.Conn\<close> is nil.\<close>

record bconn =
  bc_id :: string
  bc_booster_id :: string
  bc_node :: nat
  bc_conn :: "conn option"
  bc_timer :: "bool option"   \<comment> \<open>\<open>HeartbeatTimer\<close>: nil, or is it armed?\<close>

datatype net_message = NetworkUpdated payload_network_update | TunnelEvent payload_proxy_update

record network =
  nw_booster_id :: string
  nw_heap :: node_heap
  nw_local :: nat
  nw_conns :: "bconn list"
  nw_outgoing :: "(string \<times> nat) list"
  nw_tracer :: tracer
  nw_published :: "net_message list"
  nw_heartbeat_ttl :: int

datatype net_error =
    NetProto proto_error
  | NetPacket packet_error
  | VersionNotSupported string
  | ConnectionClosed
  | ConnectionPresent string
  | NetNode node_error
  | UnrecognisedOperation operation
  | SendFailed encode_error
  | SendTimeout
  | RecvFailed conn_error
  | UnregisteredNetwork string
  | RegisteredNetwork string
  | UnknownIdentifier string
  | TraceFailed tracer_error
  | CannotConnect string
  | CannotAccept string
  | SubscriptionFailed pubsub_error
  | ContextEnded
  | HeartbeatExpired gotime
  | UnexpectedMessage message
  | UnexpectedPayload

definition lift_proto :: "proto_error stop + 'a \<Rightarrow> net_error stop + 'a" where
  "lift_proto r =
     (case r of Inl (Error e) \<Rightarrow> Inl (Error (NetProto e)) | Inl Panic \<Rightarrow> Inl Panic | Inl Hang \<Rightarrow> Inl Hang
      | Inr x \<Rightarrow> Inr x)"

definition new_net :: "node_heap \<Rightarrow> nat \<Rightarrow> string \<Rightarrow> network" where
  "new_net hp n booster_id =
     \<lparr>nw_booster_id = booster_id, nw_heap = hp, nw_local = n, nw_conns = [], nw_outgoing = [],
      nw_tracer = new_tracer, nw_published = [], nw_heartbeat_ttl = 0\<rparr>"

section \<open>The table of networks\<close>

type_synonym networks = "(string \<times> network) list"

definition nets_get :: "string \<Rightarrow> networks \<Rightarrow> net_error stop + network" where
  "nets_get i ns = (case map_of ns i of None \<Rightarrow> Inl Panic | Some n \<Rightarrow> Inr n)"

definition nets_set :: "string \<Rightarrow> network \<Rightarrow> (networks, net_error stop, unit) step" where
  "nets_set i n ns =
     (case map_of ns i of
        Some _ \<Rightarrow> (Inl Panic, ns)
      | None \<Rightarrow> (Inr (), AList.update i (n\<lparr>nw_booster_id := i\<rparr>) ns))"

section \<open>Packets\<close>

definition default_meta :: metadata where
  "default_meta = \<lparr>encoding = EncodingProtobuf, compression = CompressionNone, encryption = EncryptionNone\<rparr>"

definition json_encode :: "codec_lib \<Rightarrow> encoder_func" where
  "json_encode L v = (case json_marshal L v of Inl e \<Rightarrow> Inl (Error (MarshalError e)) | Inr bs \<Rightarrow> Inr bs)"

definition json_decode :: "codec_lib \<Rightarrow> decoder_func" where
  "json_decode L bs ty = (case json_unmarshal L ty bs of Inl e \<Rightarrow> Inl (Error (UnmarshalError e)) | Inr v \<Rightarrow> Inr v)"

text \<open>Calling a nil function panics.\<close>

definition call_encoder :: "encoder_func option \<Rightarrow> gvalue \<Rightarrow> proto_error stop + bytes" where
  "call_encoder f v = (case f of None \<Rightarrow> Inl Panic | Some g \<Rightarrow> protocol_encode v g)"

definition call_decoder :: "decoder_func option \<Rightarrow> bytes \<Rightarrow> gtype \<Rightarrow> proto_error stop + gvalue" where
  "call_decoder f bs ty = (case f of None \<Rightarrow> Inl Panic | Some g \<Rightarrow> protocol_decode bs ty g)"

definition add_net_module :: "string \<Rightarrow> bytes \<Rightarrow> packet \<Rightarrow> net_error stop + packet" where
  "add_net_module mid raw p =
     (case add_module mid raw p of (Inl e, _) \<Rightarrow> Inl (Error (NetPacket e)) | (Inr _, p') \<Rightarrow> Inr p')"

text \<open>
  \<open>Encode\<close>: the header module, then the payload module when there is a payload.
  \<open>now\<close> is the clock.
\<close>

definition net_encode ::
    "codec_lib \<Rightarrow> gotime \<Rightarrow> gvalue option \<Rightarrow> message \<Rightarrow> metadata \<Rightarrow> net_error stop + packet" where
  "net_encode L now v msg meta =
     (let p = new_packet\<lparr>pkt_meta := meta\<rparr>;
          json = (encoding meta = EncodingJson);
          f = (if json then json_encode L else encode_header L now) in
      (case lift_proto (protocol_encode (VMessage msg) f) of
         Inl e \<Rightarrow> Inl e
       | Inr hraw \<Rightarrow>
          (case add_net_module ModuleHeader hraw p of
             Inl e \<Rightarrow> Inl e
           | Inr p \<Rightarrow>
              (case v of
                 None \<Rightarrow> Inr p
               | Some pl \<Rightarrow>
                   (case lift_proto (call_encoder (if json then Some (json_encode L) else payload_encoders L msg) pl) of
                      Inl e \<Rightarrow> Inl e
                    | Inr praw \<Rightarrow> add_net_module ModulePayload praw p)))))"

definition encode_default :: "codec_lib \<Rightarrow> gotime \<Rightarrow> gvalue option \<Rightarrow> message \<Rightarrow> net_error stop + packet" where
  "encode_default L now v msg = net_encode L now v msg default_meta"

text \<open>\<open>ValidatePacket\<close>: the first module of the header that is missing is reported.\<close>

fun missing_module :: "packet \<Rightarrow> string list \<Rightarrow> packet_error option" where
  "missing_module p [] = None"
| "missing_module p (m # ms) = (case get_module p m of Inl e \<Rightarrow> Some e | Inr _ \<Rightarrow> missing_module p ms)"

definition validate_packet :: "packet \<Rightarrow> header \<Rightarrow> net_error option" where
  "validate_packet p h =
     (if \<not> is_version_supported (hdr_version h) then Some (VersionNotSupported (hdr_version h))
      else map_option NetPacket (missing_module p (hdr_modules h)))"

definition decode_with ::
    "packet \<Rightarrow> string \<Rightarrow> gtype \<Rightarrow> decoder_func option \<Rightarrow> net_error stop + gvalue" where
  "decode_with p m ty f =
     (case get_module p m of
        Inl e \<Rightarrow> Inl (Error (NetPacket e))
      | Inr md \<Rightarrow> lift_proto (call_decoder f (mod_payload md) ty))"

text \<open>\<open>Decode\<close> of module \<open>m\<close> into a structure of type \<open>ty\<close>.\<close>

definition net_decode :: "codec_lib \<Rightarrow> packet \<Rightarrow> string \<Rightarrow> gtype \<Rightarrow> net_error stop + gvalue" where
  "net_decode L p m ty =
     (let f = (if encoding (pkt_meta p) = EncodingJson then json_decode L else decode_header L) in
      if m = ModuleHeader then decode_with p m ty (Some f)
      else
        (case decode_with p ModuleHeader THeader (Some f) of
           Inl e \<Rightarrow> Inl e
         | Inr (VHeader h) \<Rightarrow>
             (case validate_packet p h of
                Some e \<Rightarrow> Inl (Error e)
              | None \<Rightarrow>
                  decode_with p m ty
                    (if encoding (pkt_meta p) = EncodingProtobuf then payload_decoders L (hdr_id h) else Some f))
         | Inr _ \<Rightarrow> Inl Panic))"

text \<open>\<open>composeHeartbeat\<close>; the hop counter is an \<open>int\<close>.\<close>

definition next_heartbeat :: "int \<Rightarrow> gotime \<Rightarrow> payload_heartbeat option \<Rightarrow> payload_heartbeat" where
  "next_heartbeat ttl now pl =
     (let payload = (case pl of None \<Rightarrow> \<lparr>hb_id = ''heartbeat'', hb_hops = 0, hb_ttl = 0\<rparr> | Some h \<Rightarrow> h) in
      payload\<lparr>hb_hops := hb_hops payload + 1, hb_ttl := now + ttl\<rparr>)"

definition compose_heartbeat ::
    "codec_lib \<Rightarrow> gotime \<Rightarrow> network \<Rightarrow> payload_heartbeat option \<Rightarrow> net_error stop + packet" where
  "compose_heartbeat L now n pl =
     encode_default L now (Some (VHeartbeat (next_heartbeat (nw_heartbeat_ttl n) now pl))) MessageHeartbeat"

text \<open>The tunnels come in the order of the map iteration, here that of the list.\<close>

definition build_protocol_node :: "node_heap \<Rightarrow> nat \<Rightarrow> payload_node" where
  "build_protocol_node hp n =
     \<lparr>pn_id = node_id (the_node hp n), pn_baddr = node_baddr (the_node hp n),
      pn_paddr = node_paddr (the_node hp n), pn_active = is_active hp n,
      pn_tunnels = map (\<lambda>(k, t). \<lparr>pt_id = tunnel_id (heap_tunnels hp ! t),
        pt_target = tunnel_target (heap_tunnels hp ! t), pt_copies = word_of_int (copies_of hp t)\<rparr>) (tunnels hp n)\<rparr>"

definition compose_node :: "codec_lib \<Rightarrow> gotime \<Rightarrow> network \<Rightarrow> nat \<Rightarrow> net_error stop + packet" where
  "compose_node L now n x = encode_default L now (Some (VNode (build_protocol_node (nw_heap n) x))) MessageNodeStatus"

section \<open>Connections\<close>

definition the_conn :: "network \<Rightarrow> nat \<Rightarrow> bconn" where
  "the_conn n c = nw_conns n ! c"

definition upd_conn :: "nat \<Rightarrow> (bconn \<Rightarrow> bconn) \<Rightarrow> network \<Rightarrow> network" where
  "upd_conn c f n = n\<lparr>nw_conns := (nw_conns n)[c := f (nw_conns n ! c)]\<rparr>"

definition upd_heap :: "(node_heap \<Rightarrow> node_heap) \<Rightarrow> network \<Rightarrow> network" where
  "upd_heap f n = n\<lparr>nw_heap := f (nw_heap n)\<rparr>"

definition publish :: "net_message \<Rightarrow> network \<Rightarrow> network" where
  "publish m n = n\<lparr>nw_published := nw_published n @ [m]\<rparr>"

definition network_update :: "operation \<Rightarrow> nat \<Rightarrow> network \<Rightarrow> net_message" where
  "network_update oper x n =
     NetworkUpdated \<lparr>nu_node_id = node_id (the_node (nw_heap n) (nw_local n)), nu_operation = oper,
       nu_remote_node = Some (build_protocol_node (nw_heap n) x)\<rparr>"

definition new_conn :: "conn \<Rightarrow> nat \<Rightarrow> string \<Rightarrow> network \<Rightarrow> nat \<times> network" where
  "new_conn cn x i n =
     (length (nw_conns n),
      n\<lparr>nw_conns := nw_conns n @ [\<lparr>bc_id = i, bc_booster_id = nw_booster_id n, bc_node = x,
          bc_conn = Some cn, bc_timer = None\<rparr>]\<rparr>)"

text \<open>
  \<open>AddConn\<close>. When the identifier is taken by a connection that was closed, its node's
  tunnels are copied to the new node.
\<close>

definition add_conn :: "nat \<Rightarrow> (network, net_error stop, unit) step" where
  "add_conn c n =
     (let i = bc_id (the_conn n c);
          x = bc_node (the_conn n c);
          add = (\<lambda>n. let n = upd_conn c (\<lambda>b. b\<lparr>bc_booster_id := nw_booster_id n\<rparr>) n;
                        n = n\<lparr>nw_outgoing := AList.update i c (nw_outgoing n)\<rparr> in
                    (Inr (), publish (network_update NodeAdded x n) n)) in
      (case map_of (nw_outgoing n) i of
         None \<Rightarrow> add n
       | Some cc \<Rightarrow>
           if bc_conn (the_conn n cc) \<noteq> None then (Inl (Error (ConnectionPresent i)), n)
           else add (upd_heap (copy_tunnels (bc_node (the_conn n cc)) x) n)))"

text \<open>\<open>Nodes\<close>: the local node, and the active nodes with an open connection.\<close>

definition nw_nodes :: "network \<Rightarrow> nat \<times> nat list" where
  "nw_nodes n =
     (nw_local n,
      map (\<lambda>(i, c). bc_node (the_conn n c))
        (filter (\<lambda>(i, c). is_active (nw_heap n) (bc_node (the_conn n c)) \<and> bc_conn (the_conn n c) \<noteq> None) (nw_outgoing n)))"

text \<open>
  \<open>Conn.Close\<close>; closing an open socket does not fail. The tracer's \<open>Trace\<close> never returns an error, but it can hang.
\<close>

definition bconn_close :: "nat \<Rightarrow> (network, net_error stop, unit) step" where
  "bconn_close c n =
     (case bc_conn (the_conn n c) of
        None \<Rightarrow> (Inl (Error ConnectionClosed), n)
      | Some cn \<Rightarrow>
         (let x = bc_node (the_conn n c);
              n = upd_conn c (\<lambda>b. b\<lparr>bc_conn := None\<rparr>) n;
              n = upd_heap (set_is_active x False) n;
              n = publish (network_update NodeRemoved x n) n in
          if node_to_be_traced (the_node (nw_heap n) x) then
            (case tr_trace (node_id (the_node (nw_heap n) x)) (nw_tracer n) of
               (Inl Hang, t) \<Rightarrow> (Inl Hang, n\<lparr>nw_tracer := t\<rparr>)
             | (_, t) \<Rightarrow> (Inr (), n\<lparr>nw_tracer := t\<rparr>))
          else (Inr (), n)))"

text \<open>
  \<open>Conn.Send\<close>: the send runs in a goroutine; \<open>in_time\<close> says whether it ends
  before \<open>IOTimeout\<close>. After a timeout the connection is closed (its error is ignored, but
  not a hanging \<open>Trace\<close>); whatever the goroutine has written is written.
\<close>

definition bconn_send :: "bool \<Rightarrow> gomodule list \<Rightarrow> packet \<Rightarrow> nat \<Rightarrow> (network, net_error stop, unit) step" where
  "bconn_send in_time ord p c n =
     (case bc_conn (the_conn n c) of
        None \<Rightarrow> (Inl (Error ConnectionClosed), n)
      | Some cn \<Rightarrow>
         (case conn_send p ord cn of
            (r, cn') \<Rightarrow>
              let n = upd_conn c (\<lambda>b. b\<lparr>bc_conn := Some cn'\<rparr>) n in
              if in_time then
                (case r of Inl e \<Rightarrow> (Inl (Error (SendFailed e)), n) | Inr _ \<Rightarrow> (Inr (), n))
              else
                (case bconn_close c n of
                   (Inl Hang, n) \<Rightarrow> (Inl Hang, n)
                 | (_, n) \<Rightarrow> (Inl (Error SendTimeout), n))))"

definition bconn_consume :: "nat \<Rightarrow> (network, net_error stop, unit) step" where
  "bconn_consume c n =
     (case bc_conn (the_conn n c) of
        None \<Rightarrow> (Inl (Error ConnectionClosed), n)
      | Some cn \<Rightarrow>
         (case conn_consume cn of
            (Inl e, cn') \<Rightarrow> (Inl (Error (RecvFailed e)), upd_conn c (\<lambda>b. b\<lparr>bc_conn := Some cn'\<rparr>) n)
          | (Inr _, cn') \<Rightarrow> (Inr (), upd_conn c (\<lambda>b. b\<lparr>bc_conn := Some cn'\<rparr>) n)))"

definition bconn_recv :: "nat \<Rightarrow> (network, net_error stop, packet) step" where
  "bconn_recv c n =
     (case bc_conn (the_conn n c) of
        None \<Rightarrow> (Inl (Error ConnectionClosed), n)
      | Some cn \<Rightarrow>
         (case conn_recv cn of
            (Inl e, cn') \<Rightarrow> (Inl (Error (RecvFailed e)), upd_conn c (\<lambda>b. b\<lparr>bc_conn := Some cn'\<rparr>) n)
          | (Inr p, cn') \<Rightarrow> (Inr p, upd_conn c (\<lambda>b. b\<lparr>bc_conn := Some cn'\<rparr>) n)))"

text \<open>\<open>Networks.Close\<close>: every connection is closed and none of its nodes traced; errors are ignored.\<close>

definition close_untraced :: "nat \<Rightarrow> network \<Rightarrow> network" where
  "close_untraced c n =
     snd (bconn_close c (upd_heap (upd_node (bc_node (the_conn n c)) (\<lambda>x. x\<lparr>node_to_be_traced := False\<rparr>)) n))"

definition nets_close :: "string \<Rightarrow> (networks, net_error stop, unit) step" where
  "nets_close i ns =
     (case nets_get i ns of
        Inl e \<Rightarrow> (Inl e, ns)
      | Inr n \<Rightarrow> (Inr (), AList.update i (fold (\<lambda>(k, c). close_untraced c) (nw_outgoing n) n) ns))"

section \<open>Tunnels and tracing\<close>

definition net_remove_tunnel :: "nat \<Rightarrow> string \<Rightarrow> bool \<Rightarrow> (network, net_error stop, unit) step" where
  "net_remove_tunnel x target ack n =
     (case remove_tunnel x target ack (nw_heap n) of
        (Inl e, hp) \<Rightarrow> (Inl (Error (NetNode e)), n\<lparr>nw_heap := hp\<rparr>)
      | (Inr _, hp) \<Rightarrow> (Inr (), n\<lparr>nw_heap := hp\<rparr>))"

definition net_add_tunnel :: "nat \<Rightarrow> nat \<Rightarrow> network \<Rightarrow> network" where
  "net_add_tunnel x t n = upd_heap (add_tunnel x t) n"

text \<open>\<open>UpdateNode\<close>: the event is published, with the node's identifier, before it is applied.\<close>

definition update_node ::
    "(bytes \<Rightarrow> string) \<Rightarrow> nat \<Rightarrow> payload_proxy_update \<Rightarrow> bool \<Rightarrow> (network, net_error stop, unit) step" where
  "update_node sha1 x p ack n =
     (let p = p\<lparr>pu_node_id := node_id (the_node (nw_heap n) x)\<rparr>;
          n = publish (TunnelEvent p) n in
      if pu_operation p = TunnelRemoved then net_remove_tunnel x (pu_target p) ack n
      else if pu_operation p = TunnelAdded then
        (case new_tunnel sha1 (pu_target p) (nw_heap n) of
           (t, hp) \<Rightarrow> (Inr (), net_add_tunnel x t (n\<lparr>nw_heap := hp\<rparr>)))
      else (Inl (Error (UnrecognisedOperation (pu_operation p))), n))"

text \<open>
  The subscriber of \<open>TraceNodes\<close>. \<open>reconnect\<close> is \<open>b.Connect\<close> from the local
  node to the address it is given: whether it succeeds and what it does to the network.
\<close>

definition traced_message ::
    "(string \<Rightarrow> network \<Rightarrow> bool \<times> network) \<Rightarrow> tracer_message \<Rightarrow> (network, net_error stop, unit) step" where
  "traced_message reconnect m n =
     (let untrace = (\<lambda>n. case tr_untrace (msg_id m) (nw_tracer n) of
                (Inl Hang, t) \<Rightarrow> (Inl Hang, n\<lparr>nw_tracer := t\<rparr>)
              | (_, t) \<Rightarrow> (Inr (), n\<lparr>nw_tracer := t\<rparr>)) in
      if msg_err m then (Inr (), n)
      else
        (case map_of (nw_outgoing n) (msg_id m) of
           None \<Rightarrow> untrace n
         | Some c \<Rightarrow>
             (case reconnect (node_baddr (the_node (nw_heap n) (bc_node (the_conn n c)))) n of
                (False, n) \<Rightarrow> (Inr (), n)
              | (True, n) \<Rightarrow> untrace n)))"

text \<open>
  The subscriber on the messages it receives, one after the other: once it hangs it handles none of
  those that follow.
\<close>

fun traced_messages ::
    "(string \<Rightarrow> network \<Rightarrow> bool \<times> network) \<Rightarrow> tracer_message list \<Rightarrow> network \<Rightarrow> network" where
  "traced_messages reconnect [] n = n"
| "traced_messages reconnect (m # ms) n =
     (case traced_message reconnect m n of
        (Inr _, n') \<Rightarrow> traced_messages reconnect ms n'
      | (Inl _, n') \<Rightarrow> n')"

text \<open>
  \<open>TraceNodes\<close>: it starts the tracer, subscribes, and waits for the end of the context while the
  subscriber handles \<open>ms\<close> (which never returns an error); the tracer is closed when it returns,
  also when the subscription is refused.
\<close>

definition trace_nodes ::
    "(string \<Rightarrow> network \<Rightarrow> bool \<times> network) \<Rightarrow> pubsub_error option \<Rightarrow> tracer_message list \<Rightarrow>
     (network, net_error stop, unit) step" where
  "trace_nodes reconnect refused ms n =
     (case tr_run (nw_tracer n) of
        (Inl (Error e), t) \<Rightarrow> (Inl (Error (TraceFailed e)), n\<lparr>nw_tracer := t\<rparr>)
      | (Inl Panic, t) \<Rightarrow> (Inl Panic, n\<lparr>nw_tracer := t\<rparr>)
      | (Inl Hang, t) \<Rightarrow> (Inl Hang, n\<lparr>nw_tracer := t\<rparr>)
      | (Inr _, t) \<Rightarrow>
          (let n1 = n\<lparr>nw_tracer := t\<rparr>;
               (err, n2) = (case refused of
                  Some e \<Rightarrow> (SubscriptionFailed e, n1)
                | None \<Rightarrow> (ContextEnded, traced_messages reconnect ms n1)) in
           (case tr_close (nw_tracer n2) of
              (Inl e, t) \<Rightarrow> (Inl Hang, n2\<lparr>nw_tracer := t\<rparr>)
            | (Inr _, t) \<Rightarrow> (Inl (Error err), n2\<lparr>nw_tracer := t\<rparr>))))"

end
