(* ===== verification/Network_Props.thy ===== *)
theory Network_Props
  imports Network Netconn_Props Protocol_Props Node_Props Dispatcher_Props
begin

text \<open>
  What \<open>network.go\<close> of package \<open>booster\<close> guarantees: packets that are encoded
  are decoded to the same payload, also after a trip over a connection; when decoding crashes;
  the invariant of a network and the effect of adding and closing connections; the
  \<open>Noder\<close> interface of the dispatcher, provided; and what tunnel events do to a node.
\<close>

section \<open>Encoding and decoding\<close>

lemma lift_proto_Inr [simp]: "lift_proto r = Inr x \<longleftrightarrow> r = Inr x"
  by (auto simp: lift_proto_def split: sum.splits stop.splits)

lemma lift_proto_Panic [simp]: "lift_proto r = Inl Panic \<longleftrightarrow> r = Inl Panic"
  by (auto simp: lift_proto_def split: sum.splits stop.splits)

lemma lift_proto_of_Inr [simp]: "lift_proto (Inr x) = Inr x"
  by simp

lemma add_net_module_Inr:
  assumes "add_net_module mid raw p = Inr p'" and "packet_wf p"
  shows "packet_wf p' \<and> pkt_meta p' = pkt_meta p \<and> map_of (pkt_modules p) mid = None \<and>
    length (pkt_modules p') = Suc (length (pkt_modules p)) \<and>
    (\<exists>m. mod_payload m = raw \<and> map_of (pkt_modules p') = (map_of (pkt_modules p))(mid \<mapsto> m))"
proof -
  obtain m where m: "map_of (pkt_modules p) mid = None" "new_module mid raw = Inr m"
      "p' = p\<lparr>pkt_modules := AList.update mid m (pkt_modules p)\<rparr>"
    using assms(1) by (auto simp: add_net_module_def add_module_def split: option.splits sum.splits prod.splits)
  have new: "mid \<notin> set (keys (pkt_modules p))" using m(1) by (simp add: map_of_eq_None_iff)
  have wf: "mod_id m = mid" "module_wf m" using new_module_wf [OF m(2)] by auto
  have "mod_payload m = raw" using m(2) by (auto simp: new_module_def Let_def split: if_splits)
  moreover have "packet_wf p'"
    using assms(2) wf new unfolding m(3) packet_wf_def packet.simps update_new [OF new] by auto
  moreover have "map_of (pkt_modules p') = (map_of (pkt_modules p))(mid \<mapsto> m)"
    by (simp add: m(3) update_conv')
  ultimately show ?thesis
    using m(1) by (auto simp: m(3) update_new [OF new])
qed

lemma module_names [simp]: "ModuleHeader \<noteq> ModulePayload" "ModulePayload \<noteq> ModuleHeader"
  by (simp_all add: ModuleHeader_def ModulePayload_def)

lemma empty_packet_wf: "packet_wf (new_packet\<lparr>pkt_meta := meta\<rparr>)"
  by (simp add: packet_wf_def new_packet_def)

text \<open>What an encoded packet consists of.\<close>

lemma net_encode_Inr:
  assumes "net_encode L now v msg meta = Inr p"
  obtains hraw where
    "(if encoding meta = EncodingJson then json_encode L else encode_header L now) (VMessage msg) = Inr hraw"
    and "packet_wf p" and "pkt_meta p = meta" and "module_count_ok p"
    and "\<exists>m. map_of (pkt_modules p) ModuleHeader = Some m \<and> mod_payload m = hraw"
    and "v = None \<Longrightarrow> map_of (pkt_modules p) ModulePayload = None"
    and "\<And>pl. v = Some pl \<Longrightarrow> \<exists>m. map_of (pkt_modules p) ModulePayload = Some m \<and>
      call_encoder (if encoding meta = EncodingJson then Some (json_encode L) else payload_encoders L msg) pl = Inr (mod_payload m)"
proof -
  let ?f = "if encoding meta = EncodingJson then json_encode L else encode_header L now"
  let ?p0 = "new_packet\<lparr>pkt_meta := meta\<rparr>"
  obtain hraw p1 where h: "?f (VMessage msg) = Inr hraw" "add_net_module ModuleHeader hraw ?p0 = Inr p1"
    and rest: "(case v of None \<Rightarrow> Inr p1 | Some pl \<Rightarrow>
         (case lift_proto (call_encoder (if encoding meta = EncodingJson then Some (json_encode L) else payload_encoders L msg) pl) of
            Inl e \<Rightarrow> Inl e | Inr praw \<Rightarrow> add_net_module ModulePayload praw p1)) = Inr p"
    using assms unfolding net_encode_def Let_def protocol_encode_def
    by (auto split: sum.splits simp del: if_splits)
  have p1: "packet_wf p1" "pkt_meta p1 = meta" "length (pkt_modules p1) = 1"
      "\<exists>m. mod_payload m = hraw \<and> map_of (pkt_modules p1) = [ModuleHeader \<mapsto> m]"
    using add_net_module_Inr [OF h(2) empty_packet_wf] by (auto simp: new_packet_def)
  then have count: "module_count_ok p1" by (simp add: module_count_ok_def)
  show ?thesis
  proof (cases v)
    case None
    then have "p1 = p" using rest by simp
    then show ?thesis using that [OF h(1)] p1 count None by auto
  next
    case (Some pl)
    then obtain praw where praw: "call_encoder (if encoding meta = EncodingJson then Some (json_encode L) else payload_encoders L msg) pl = Inr praw"
        "add_net_module ModulePayload praw p1 = Inr p"
      using rest by (auto split: sum.splits simp del: if_splits)
    show ?thesis
      using that [OF h(1)] add_net_module_Inr [OF praw(2) p1(1)] p1 Some praw(1) by (auto simp: module_count_ok_def)
  qed
qed

lemma default_meta_simps [simp]: "encoding default_meta = EncodingProtobuf" "EncodingProtobuf \<noteq> EncodingJson"
  by (simp_all add: default_meta_def EncodingProtobuf_def EncodingJson_def)

text \<open>Decoding looks at metadata and the map of modules only.\<close>

lemma net_decode_cong:
  assumes "pkt_meta p' = pkt_meta p" and "map_of (pkt_modules p') = map_of (pkt_modules p)"
  shows "net_decode L p' m ty = net_decode L p m ty"
proof -
  have get: "get_module p' = get_module p" by (intro ext) (simp add: get_module_def assms(2))
  then have dec: "decode_with p' = decode_with p" by (intro ext) (simp add: decode_with_def)
  have "missing_module p' ms = missing_module p ms" for ms by (induction ms) (simp_all add: get split: sum.split)
  then have val: "validate_packet p' = validate_packet p" by (intro ext) (simp add: validate_packet_def)
  show ?thesis unfolding net_decode_def dec assms(1) val ..
qed

lemma encode_default_decodes:
  assumes "proto_ok L" and "valid_time now" and "transmissible v" and "encode_default L now (Some v) msg = Inr p"
  shows "net_decode L p ModulePayload (gtype_of v) = Inr v \<and> packet_wf p \<and> module_count_ok p \<and> pkt_meta p = default_meta"
proof -
  from assms(4) [unfolded encode_default_def] obtain hraw m m' where
    h: "encode_header L now (VMessage msg) = Inr hraw" and p: "packet_wf p" "pkt_meta p = default_meta" "module_count_ok p"
    and hm: "map_of (pkt_modules p) ModuleHeader = Some m" "mod_payload m = hraw"
    and pm: "map_of (pkt_modules p) ModulePayload = Some m'" "call_encoder (payload_encoders L msg) v = Inr (mod_payload m')"
    by (elim net_encode_Inr) (auto split: if_splits)
  obtain f where f: "payload_encoders L msg = Some f" "f v = Inr (mod_payload m')"
    using pm(2) by (auto simp: call_encoder_def protocol_encode_def split: option.splits)
  have "payload_encoders L MessageNotify = None" by (simp add: payload_encoders_def message_ids)
  then have notify: "msg \<noteq> MessageNotify" using f(1) by auto
  obtain g where g: "payload_decoders L msg = Some g" "g (mod_payload m') (gtype_of v) = Inr v"
    using encode_decode_payload [OF assms(1) f assms(3)] by blast
  have hdr: "decode_header L hraw THeader = Inr (VHeader \<lparr>hdr_id = msg, hdr_version = Version,
     hdr_sent_at = now, hdr_modules = (if msg = MessageNotify then [] else [ModulePayload])\<rparr>)"
    by (rule encode_decode_header [OF assms(1,2) h])
  have "net_decode L p ModulePayload (gtype_of v) = Inr v"
    by (simp add: net_decode_def decode_with_def get_module_def hm pm call_decoder_def protocol_decode_def hdr
        validate_packet_def is_version_supported_def p g notify)
  then show ?thesis using p by simp
qed

lemma encode_default_header:
  assumes "proto_ok L" and "valid_time now" and "encode_default L now v msg = Inr p"
  shows "\<exists>h. net_decode L p ModuleHeader THeader = Inr (VHeader h) \<and> hdr_id h = msg \<and> hdr_sent_at h = now"
proof -
  from assms(3) [unfolded encode_default_def] obtain hraw m where
    h: "encode_header L now (VMessage msg) = Inr hraw" and p: "pkt_meta p = default_meta"
    and hm: "map_of (pkt_modules p) ModuleHeader = Some m" "mod_payload m = hraw"
    by (elim net_encode_Inr) (auto split: if_splits)
  have "net_decode L p ModuleHeader THeader = Inr (VHeader \<lparr>hdr_id = msg, hdr_version = Version,
     hdr_sent_at = now, hdr_modules = (if msg = MessageNotify then [] else [ModulePayload])\<rparr>)"
    using encode_decode_header [OF assms(1,2) h]
    by (simp add: net_decode_def decode_with_def get_module_def hm call_decoder_def protocol_decode_def p)
  then show ?thesis by simp
qed

text \<open>A packet that can be sent goes over a new connection as its bytes, and is received as its modules in the order sent.\<close>

lemma packet_over_connection:
  assumes "sendable (p, ord)"
  shows "c_out c = ([], None) \<Longrightarrow> c_config c = default_net_config \<Longrightarrow>
      conn_send p ord c = (Inr (), c\<lparr>c_out := (packet_bytes net_tags p ord, None)\<rparr>)"
    and "conn_recv (open_conn (packet_bytes net_tags p ord @ rest, e) w default_net_config) =
      (Inr (received p ord), open_conn (rest, e) w default_net_config)"
    and "net_decode L (received p ord) m ty = net_decode L p m ty"
proof -
  show "conn_send p ord c = (Inr (), c\<lparr>c_out := (packet_bytes net_tags p ord, None)\<rparr>)"
    if "c_out c = ([], None)" and "c_config c = default_net_config"
    using conn_send_bytes [OF assms, of c "[]"] that by simp
  have "packet_decode net_tags new_packet (packet_bytes net_tags p ord @ rest, e) = (Inr (received p ord), (rest, e))"
    using parsesD [OF packet_format.dec_enc [OF assms], of rest e] by simp
  then show "conn_recv (open_conn (packet_bytes net_tags p ord @ rest, e) w default_net_config) =
      (Inr (received p ord), open_conn (rest, e) w default_net_config)"
    by (simp add: conn_recv_def open_conn_def)
  have "packet_wf p" "iterates ord p" using assms by (simp_all add: sendable_def)
  then show "net_decode L (received p ord) m ty = net_decode L p m ty"
    using received_same_map by (intro net_decode_cong) (simp_all add: received_def)
qed

text \<open>When decoding a payload crashes.\<close>

lemma decode_header_not_Panic: "proto_ok L \<Longrightarrow> decode_header L bs ty \<noteq> Inl Panic"
  unfolding decode_header_def proto_unmarshal_def
  by (auto split: sum.splits pb.splits option.splits dest: unmarshal_type)

lemma decode_header_type: "decode_header L bs THeader = Inr v \<Longrightarrow> \<exists>h. v = VHeader h"
  unfolding decode_header_def proto_unmarshal_def
  by (auto split: sum.splits pb.splits option.splits)

section \<open>The invariant of a network\<close>

definition net_wf :: "network \<Rightarrow> bool" where
  "net_wf n \<longleftrightarrow> heap_wf (nw_heap n) \<and> node_ref (nw_heap n) (nw_local n) \<and>
     (\<forall>b \<in> set (nw_conns n). node_ref (nw_heap n) (bc_node b)) \<and>
     distinct (keys (nw_outgoing n)) \<and>
     (\<forall>(i, c) \<in> set (nw_outgoing n). c < length (nw_conns n) \<and> bc_id (the_conn n c) = i) \<and>
     tracer_wf (nw_tracer n)"

lemma net_wf_conn: "net_wf n \<Longrightarrow> c < length (nw_conns n) \<Longrightarrow> node_ref (nw_heap n) (bc_node (the_conn n c))"
  by (simp add: net_wf_def the_conn_def)

lemma net_wf_upd_conn [wf_intros]:
  assumes "net_wf n" and "\<And>b. bc_id (f b) = bc_id b \<and> bc_node (f b) = bc_node b"
  shows "net_wf (upd_conn c f n)"
proof (cases "c < length (nw_conns n)")
  case True
  have "\<forall>b \<in> set ((nw_conns n)[c := f (nw_conns n ! c)]). node_ref (nw_heap n) (bc_node b)"
    using assms True by (auto simp: net_wf_def dest!: set_update_subset_insert [THEN subsetD])
  moreover have "bc_id ((nw_conns n)[c := f (nw_conns n ! c)] ! k) = bc_id (nw_conns n ! k)" for k
    using assms(2) True by (cases "k = c") auto
  ultimately show ?thesis
    using assms(1) by (auto simp: net_wf_def upd_conn_def the_conn_def)
next
  case False
  then have "upd_conn c f n = n" by (simp add: upd_conn_def list_update_beyond)
  then show ?thesis using assms(1) by simp
qed

lemma net_wf_upd_heap [wf_intros]:
  assumes "net_wf n" and "heap_wf (f (nw_heap n))" and "\<And>x. node_ref (nw_heap n) x \<Longrightarrow> node_ref (f (nw_heap n)) x"
  shows "net_wf (upd_heap f n)"
  using assms by (auto simp: net_wf_def upd_heap_def the_conn_def)

lemma net_wf_publish [wf_intros]: "net_wf n \<Longrightarrow> net_wf (publish m n)"
  by (simp add: net_wf_def publish_def the_conn_def)

lemma net_wf_tracer [wf_intros]: "net_wf n \<Longrightarrow> tracer_wf t \<Longrightarrow> net_wf (n\<lparr>nw_tracer := t\<rparr>)"
  by (simp add: net_wf_def the_conn_def)

lemma net_wf_outgoing [wf_intros]:
  "net_wf n \<Longrightarrow> c < length (nw_conns n) \<Longrightarrow> bc_id (the_conn n c) = i \<Longrightarrow>
   net_wf (n\<lparr>nw_outgoing := AList.update i c (nw_outgoing n)\<rparr>)"
  using set_AList_update [of i c "nw_outgoing n"] by (fastforce simp: net_wf_def the_conn_def)

lemma net_conn_simps [simp]:
  "nw_conns (upd_heap g n) = nw_conns n" "nw_outgoing (upd_heap g n) = nw_outgoing n"
  "nw_heap (upd_conn c f n) = nw_heap n" "nw_outgoing (upd_conn c f n) = nw_outgoing n"
  "length (nw_conns (upd_conn c f n)) = length (nw_conns n)"
  "nw_heap (upd_heap g n) = g (nw_heap n)" "nw_local (upd_heap g n) = nw_local n" "nw_local (upd_conn c f n) = nw_local n"
  "nw_heap (publish m n) = nw_heap n" "nw_conns (publish m n) = nw_conns n" "nw_outgoing (publish m n) = nw_outgoing n"
  "nw_tracer (publish m n) = nw_tracer n" "nw_tracer (upd_heap g n) = nw_tracer n" "nw_tracer (upd_conn c f n) = nw_tracer n"
  "nw_published (publish m n) = nw_published n @ [m]" "nw_published (upd_heap g n) = nw_published n"
  "nw_published (upd_conn c f n) = nw_published n" "nw_local (publish m n) = nw_local n"
  "nw_booster_id (upd_heap g n) = nw_booster_id n" "nw_booster_id (publish m n) = nw_booster_id n"
  by (simp_all add: upd_heap_def upd_conn_def publish_def)

lemma the_conn_simps [simp]:
  "the_conn (upd_heap g n) c = the_conn n c" "the_conn (publish m n) c = the_conn n c"
  "the_conn (n\<lparr>nw_tracer := t\<rparr>) c = the_conn n c" "the_conn (n\<lparr>nw_outgoing := og\<rparr>) c = the_conn n c"
  "the_conn (n\<lparr>nw_heap := hp\<rparr>) c = the_conn n c"
  by (simp_all add: the_conn_def upd_heap_def publish_def)

lemma the_conn_upd:
  "c < length (nw_conns n) \<Longrightarrow> the_conn (upd_conn c f n) d = (if d = c then f (the_conn n c) else the_conn n d)"
  by (simp add: the_conn_def upd_conn_def)

lemma node_ref_copy [simp]: "node_ref (copy_tunnels x y hp) z = node_ref hp z"
  by (simp add: copy_tunnels_def)

text \<open>\<open>AddConn\<close>, both ways to get to the insertion.\<close>

definition inserted :: "nat \<Rightarrow> network \<Rightarrow> network" where
  "inserted c n =
     (let n = upd_conn c (\<lambda>b. b\<lparr>bc_booster_id := nw_booster_id n\<rparr>) n;
          n = n\<lparr>nw_outgoing := AList.update (bc_id (the_conn n c)) c (nw_outgoing n)\<rparr> in
      publish (network_update NodeAdded (bc_node (the_conn n c)) n) n)"

lemma the_conn_ids:
  "bc_id (the_conn (upd_conn c (\<lambda>b. b\<lparr>bc_booster_id := k\<rparr>) n) d) = bc_id (the_conn n d)"
  "bc_node (the_conn (upd_conn c (\<lambda>b. b\<lparr>bc_booster_id := k\<rparr>) n) d) = bc_node (the_conn n d)"
  "bc_conn (the_conn (upd_conn c (\<lambda>b. b\<lparr>bc_booster_id := k\<rparr>) n) d) = bc_conn (the_conn n d)"
  by (cases "c < length (nw_conns n)"; simp add: the_conn_def upd_conn_def nth_list_update list_update_beyond)+

lemma add_conn_cases:
  obtains "map_of (nw_outgoing n) (bc_id (the_conn n c)) = None" "add_conn c n = (Inr (), inserted c n)"
  | cc where "map_of (nw_outgoing n) (bc_id (the_conn n c)) = Some cc" "bc_conn (the_conn n cc) \<noteq> None"
      "add_conn c n = (Inl (Error (ConnectionPresent (bc_id (the_conn n c)))), n)"
  | cc where "map_of (nw_outgoing n) (bc_id (the_conn n c)) = Some cc" "bc_conn (the_conn n cc) = None"
      "add_conn c n = (Inr (), inserted c (upd_heap (copy_tunnels (bc_node (the_conn n cc)) (bc_node (the_conn n c))) n))"
  by (cases "map_of (nw_outgoing n) (bc_id (the_conn n c))"; cases "bc_conn (the_conn n (the (map_of (nw_outgoing n) (bc_id (the_conn n c)))))")
     (auto simp: add_conn_def inserted_def Let_def the_conn_ids)

lemma net_wf_inserted [wf_intros]:
  assumes "net_wf n" and "c < length (nw_conns n)"
  shows "net_wf (inserted c n)"
  unfolding inserted_def Let_def
  by (intro net_wf_publish net_wf_outgoing net_wf_upd_conn) (simp_all add: assms)

lemma net_wf_add_conn [wf_intros]:
  assumes "net_wf n" and "c < length (nw_conns n)"
  shows "net_wf (snd (add_conn c n))"
proof (cases rule: add_conn_cases [of n c])
  case (3 cc)
  then have cc: "cc < length (nw_conns n)"
    using assms(1) by (auto simp: net_wf_def dest!: map_of_SomeD)
  have "net_wf (upd_heap (copy_tunnels (bc_node (the_conn n cc)) (bc_node (the_conn n c))) n)"
    using assms(1) net_wf_conn [OF assms(1) cc]
    by (intro net_wf_upd_heap heap_wf_copy_tunnels) (auto simp: net_wf_def)
  then show ?thesis using 3 assms(2) by (simp add: net_wf_inserted)
qed (use assms in \<open>simp_all add: net_wf_inserted\<close>)

lemma net_wf_close [wf_intros]:
  assumes "net_wf n"
  shows "net_wf (snd (bconn_close c n))"
proof (cases "bc_conn (the_conn n c)")
  case (Some cn)
  let ?x = "bc_node (the_conn n c)"
  let ?n1 = "upd_heap (set_is_active ?x False) (upd_conn c (\<lambda>b. b\<lparr>bc_conn := None\<rparr>) n)"
  let ?n = "publish (network_update NodeRemoved ?x ?n1) ?n1"
  have wf: "net_wf ?n"
    using assms by (intro net_wf_publish net_wf_upd_heap net_wf_upd_conn heap_wf_active) (simp_all add: net_wf_def)
  then have "tracer_wf (nw_tracer ?n)" by (simp add: net_wf_def)
  then have "net_wf (?n\<lparr>nw_tracer := snd (tr_trace i (nw_tracer ?n))\<rparr>)" for i
    by (intro net_wf_tracer [OF wf] tr_trace_wf)
  then show ?thesis
    using wf Some by (auto simp: bconn_close_def Let_def split: prod.splits sum.splits stop.splits) (metis snd_conv)+
qed (simp add: bconn_close_def assms)

lemma net_wf_send [wf_intros]:
  assumes "net_wf n"
  shows "net_wf (snd (bconn_send in_time ord p c n))"
proof (cases "bc_conn (the_conn n c)")
  case (Some cn)
  have wf: "net_wf (upd_conn c (\<lambda>b. b\<lparr>bc_conn := Some cn'\<rparr>) n)" for cn'
    by (intro net_wf_upd_conn assms) simp
  show ?thesis
    using Some wf net_wf_close [OF wf, of c]
    by (auto simp: bconn_send_def Let_def split: prod.splits sum.splits stop.splits) (metis snd_conv)+
qed (simp add: bconn_send_def assms)

lemma net_wf_heap_only:
  "net_wf n \<Longrightarrow> heap_wf hp \<Longrightarrow> (\<And>x. node_ref (nw_heap n) x \<Longrightarrow> node_ref hp x) \<Longrightarrow> net_wf (n\<lparr>nw_heap := hp\<rparr>)"
  using net_wf_upd_heap [of n "\<lambda>_. hp"] by (simp add: upd_heap_def)

text \<open>The network listed for the dispatcher.\<close>

interpretation dispatch: noder nw_nodes nw_heap net_wf
proof (unfold_locales, goal_cases)
  case (1 n x)
  then show ?case by (auto simp: nw_nodes_def)
next
  case (2 n x)
  then show ?case
    using net_wf_conn [OF 2(1)] by (fastforce simp: nw_nodes_def net_wf_def node_ref_def)
qed

section \<open>Tunnel events\<close>

definition tunnel_update :: "operation \<Rightarrow> string \<Rightarrow> payload_proxy_update" where
  "tunnel_update oper target = \<lparr>pu_node_id = '''', pu_target = target, pu_operation = oper\<rparr>"

lemma tunnel_ops [simp]: "TunnelAdded \<noteq> TunnelRemoved" "TunnelRemoved \<noteq> TunnelAdded"
  by (simp_all add: TunnelAdded_def TunnelRemoved_def)

lemma update_node_heap:
  "nw_heap (snd (update_node sha1 x (tunnel_update TunnelAdded t) ack n)) = open_tunnel sha1 x t (nw_heap n)"
  "nw_heap (snd (update_node sha1 x (tunnel_update TunnelRemoved t) ack n)) = snd (remove_tunnel x t ack (nw_heap n))"
  by (auto simp: update_node_def tunnel_update_def Let_def net_add_tunnel_def open_tunnel_def net_remove_tunnel_def
      split: prod.splits sum.splits)

lemma update_node_other:
  "nw_local (snd (update_node sha1 x p ack n)) = nw_local n" "nw_conns (snd (update_node sha1 x p ack n)) = nw_conns n"
  "nw_outgoing (snd (update_node sha1 x p ack n)) = nw_outgoing n" "nw_tracer (snd (update_node sha1 x p ack n)) = nw_tracer n"
  "nw_published (snd (update_node sha1 x p ack n)) =
     nw_published n @ [TunnelEvent (p\<lparr>pu_node_id := node_id (the_node (nw_heap n) x)\<rparr>)]"
  by (auto simp: update_node_def Let_def net_add_tunnel_def net_remove_tunnel_def upd_heap_def publish_def
      split: prod.splits sum.splits)

text \<open>What \<open>UpdateRoot\<close> does with a tunnel event of the local proxy, and with several.\<close>

fun root_event :: "(bytes \<Rightarrow> string) \<Rightarrow> tunnel_event \<Rightarrow> network \<Rightarrow> network" where
  "root_event sha1 (Opened t) n = snd (update_node sha1 (nw_local n) (tunnel_update TunnelAdded t) True n)"
| "root_event sha1 (Ended t) n = snd (update_node sha1 (nw_local n) (tunnel_update TunnelRemoved t) True n)"

lemma root_event_local [simp]: "nw_local (root_event sha1 e n) = nw_local n"
  by (cases e) (simp_all add: update_node_other)

lemma root_event_heap:
  "nw_heap (root_event sha1 e n) = node_ledger.apply_event sha1 (nw_local n) True e (nw_heap n)"
  by (cases e) (simp_all add: update_node_heap)

lemma root_events_heap:
  "nw_heap (fold (root_event sha1) es n) = fold (node_ledger.apply_event sha1 (nw_local n) True) es (nw_heap n)"
proof (induction es arbitrary: n)
  case (Cons e es)
  then show ?case by (simp add: root_event_heap)
qed simp

text \<open>
  Proxy sessions: a session is started for a remote address, or the \<open>k\<close>-th of the open
  ones ends. The events are those that \<open>Handle\<close> publishes.
\<close>

datatype session_step = Start string | Finish nat

fun sessions_after :: "session_step list \<Rightarrow> string list \<Rightarrow> string list" where
  "sessions_after [] ss = ss"
| "sessions_after (Start t # xs) ss = sessions_after xs (ss @ [t])"
| "sessions_after (Finish k # xs) ss = sessions_after xs (take k ss @ drop (Suc k) ss)"

fun session_events :: "session_step list \<Rightarrow> string list \<Rightarrow> tunnel_event list" where
  "session_events [] ss = []"
| "session_events (Start t # xs) ss = Opened t # session_events xs (ss @ [t])"
| "session_events (Finish k # xs) ss =
     (if k < length ss then Ended (ss ! k) # session_events xs (take k ss @ drop (Suc k) ss)
      else session_events xs (take k ss @ drop (Suc k) ss))"

definition open_to :: "string \<Rightarrow> string list \<Rightarrow> int" where
  "open_to t ss = int (length (filter (\<lambda>x. x = t) ss))"

lemma open_to_simps [simp]: "open_to t [] = 0" "open_to t (ss @ ss') = open_to t ss + open_to t ss'"
    "open_to t (x # ss) = of_bool (x = t) + open_to t ss"
  by (simp_all add: open_to_def)

lemma open_to_remove:
  assumes "k < length ss"
  shows "open_to t (take k ss @ drop (Suc k) ss) = open_to t ss - of_bool (ss ! k = t)"
proof -
  have "ss = take k ss @ ss ! k # drop (Suc k) ss" using assms by (rule id_take_nth_drop)
  then have "open_to t ss = open_to t (take k ss @ ss ! k # drop (Suc k) ss)" by simp
  then show ?thesis by simp
qed

lemma session_events_sequence:
  "in_sequence (\<lambda>t. open_to t ss) (session_events xs ss) \<and>
   open_to t ss + event_balance (session_events xs ss) t = open_to t (sessions_after xs ss) \<and>
   int (length ss) + event_total (session_events xs ss) = int (length (sessions_after xs ss))"
proof (induction xs arbitrary: ss)
  case (Cons x xs)
  show ?case
  proof (cases x)
    case (Start u)
    have "(\<lambda>t. open_to t ss)(u := open_to u ss + 1) = (\<lambda>t. open_to t (ss @ [u]))"
      by (rule ext) simp
    then show ?thesis using Start Cons.IH [of "ss @ [u]"] by (auto split: if_splits)
  next
    case (Finish k)
    let ?ss = "take k ss @ drop (Suc k) ss"
    show ?thesis
    proof (cases "k < length ss")
      case True
      have c: "(\<lambda>t. open_to t ss)(ss ! k := open_to (ss ! k) ss - 1) = (\<lambda>t. open_to t ?ss)"
        by (rule ext) (auto simp: open_to_remove [OF True] simp del: open_to_simps)
      have pos: "0 < open_to (ss ! k) ss"
        using True by (auto simp: open_to_def filter_empty_conv)
      have "open_to t ?ss = open_to t ss - of_bool (ss ! k = t)"
        by (rule open_to_remove [OF True])
      then show ?thesis
        using Cons.IH [of ?ss] Finish True c pos by (auto simp del: open_to_simps)
    next
      case False
      then show ?thesis using Cons.IH [of ss] Finish by simp
    qed
  qed
qed simp

text \<open>On a node without tunnels the events of sessions leave the open sessions, target by target.\<close>

lemma sessions_on_node:
  assumes "heap_wf hp" and "node_ref hp x" and "node_tunnels (the_node hp x) = []"
  shows "tunnel_count (fold (node_ledger.apply_event sha1 x True) (session_events xs []) hp) x t = open_to t (sessions_after xs []) \<and>
    workload (fold (node_ledger.apply_event sha1 x True) (session_events xs []) hp) x = int (length (sessions_after xs []))"
proof -
  have inv: "heap_wf hp \<and> node_ref hp x" using assms by simp
  have zero: "tunnel_count hp x = (\<lambda>t. open_to t [])" "workload hp x = 0"
    using assms(3) by (auto simp: tunnel_count_def workload_def)
  note seq = session_events_sequence [of "[]" xs]
  have "in_sequence (tunnel_count hp x) (session_events xs [])" unfolding zero using seq by blast
  from node_ledger.in_sequence_exact [OF inv this, of sha1 True t] seq [of t] zero show ?thesis by simp
qed

section \<open>Properties\<close>

text \<open>A protobuf library that knows a hello packet and a connect request.\<close>

definition epoch_stamp :: pb_timestamp where
  "epoch_stamp = \<lparr>ts_seconds = 0, ts_nanos = 0\<rparr>"

definition net_lib :: codec_lib where
  "net_lib = table_lib [(PbHeader (new_header MessageHello epoch_stamp), [9, 1]), (PbHello ''4884'' ''1080'', [1]),
     (PbHeader (new_header MessageNotify epoch_stamp), [9, 5])]"

lemma net_lib_ok: "proto_ok net_lib"
  unfolding net_lib_def by (rule table_lib_ok) simp

definition hello_value :: gvalue where
  "hello_value = VHello \<lparr>he_bport = ''4884'', he_pport = ''1080''\<rparr>"

definition hello_packet :: packet where
  "hello_packet = \<lparr>pkt_meta = default_meta, pkt_modules =
     [(''HE'', \<lparr>mod_id = ''HE'', mod_size = 2, mod_payload = [9, 1]\<rparr>),
      (''PA'', \<lparr>mod_id = ''PA'', mod_size = 1, mod_payload = [1]\<rparr>)]\<rparr>"

lemma epoch_header: "encode_header net_lib 0 (VMessage MessageHello) = Inr [9, 1]"
proof -
  have "timestamp_proto 0 = Some epoch_stamp" by code_simp
  then show ?thesis
    by (simp add: encode_header_def message_ids proto_marshal_def net_lib_def table_lib_def)
qed

lemma hello_encoded: "encode_default net_lib 0 (Some hello_value) MessageHello = Inr hello_packet"
proof -
  have "encode_hello net_lib hello_value = Inr [1]" by code_simp
  then show ?thesis
    by (simp add: encode_default_def net_encode_def protocol_encode_def epoch_header call_encoder_def
        add_net_module_def add_module_def new_module_def new_packet_def ModuleHeader_def ModulePayload_def
        hello_packet_def Let_def)
qed

lemma valid_epoch: "valid_time 0"
  by (simp add: valid_time_def min_valid_seconds_def max_valid_seconds_def)



definition json_typed :: "codec_lib \<Rightarrow> bool" where
  "json_typed L \<longleftrightarrow> (\<forall>ty bs v. json_unmarshal L ty bs = Inr v \<longrightarrow> gtype_of v = ty)"

abbreviation header_decoder :: "codec_lib \<Rightarrow> packet \<Rightarrow> decoder_func" where
  "header_decoder L p \<equiv> if encoding (pkt_meta p) = EncodingJson then json_decode L else decode_header L"

lemma header_decoder_facts:
  assumes "proto_ok L" and "json_typed L"
  shows "decode_with p k t (Some (header_decoder L p)) \<noteq> Inl Panic"
    and "decode_with p ModuleHeader THeader (Some (header_decoder L p)) = Inr v \<Longrightarrow> \<exists>h. v = VHeader h"
proof -
  have json: "json_decode L bs t \<noteq> Inl Panic" for bs t
    by (simp add: json_decode_def split: sum.split)
  have hdr: "decode_header L bs t \<noteq> Inl Panic" for bs t
    by (rule decode_header_not_Panic [OF assms(1)])
  show "decode_with p k t (Some (header_decoder L p)) \<noteq> Inl Panic"
    using json hdr by (auto simp: decode_with_def call_decoder_def protocol_decode_def split: sum.splits)
  have jt: "json_decode L bs t = Inr v \<Longrightarrow> gtype_of v = t" for bs t v
    using assms(2) by (auto simp: json_decode_def json_typed_def split: sum.splits)
  have ht: "gtype_of v = THeader \<Longrightarrow> \<exists>h. v = VHeader h" for v by (cases v) auto
  show "\<exists>h. v = VHeader h" if "decode_with p ModuleHeader THeader (Some (header_decoder L p)) = Inr v"
    using that jt [of _ THeader v] ht [of v] decode_header_type [of L _ v]
    by (auto simp: decode_with_def call_decoder_def protocol_decode_def split: sum.splits if_splits)
qed

lemma decode_with_panic:
  assumes "proto_ok L"
  shows "decode_with p m ty (payload_decoders L i) = Inl Panic \<longleftrightarrow>
      (\<exists>md. get_module p m = Inr md \<and> (payload_decoders L i = None \<or> i = MessageNetworkUpdate \<and>
        (\<exists>u. unmarshal L TPbNetworkUpdate (mod_payload md) = Inr (PbNetworkUpdate u) \<and> pbu_remote_node u = None)))"
  using decode_payload_panic [OF assms, of i]
  by (cases "payload_decoders L i") (auto simp: decode_with_def call_decoder_def protocol_decode_def split: sum.splits)


definition crash_packet :: packet where
  "crash_packet = hello_packet\<lparr>pkt_modules := AList.update ''HE'' \<lparr>mod_id = ''HE'', mod_size = 2, mod_payload = [9, 5]\<rparr> (pkt_modules hello_packet)\<rparr>"


text \<open>
  Packets encoded with JSON are not read back by \<open>Decode\<close>: the header module of such a
  packet is the JSON of the bare message identifier, and unmarshalling a JSON number into a header
  structure is an error, so decoding any module of the packet is one.
\<close>

theorem json_packets_not_decoded:
  assumes "\<And>msg bs. json_marshal L (VMessage msg) = Inr bs \<Longrightarrow> \<exists>e. json_unmarshal L THeader bs = Inl e"
    and "encoding meta = EncodingJson" and "net_encode L now v msg meta = Inr p"
  shows "\<exists>e. net_decode L p ModulePayload ty = Inl (Error (NetProto (UnmarshalError e))) \<and>
    net_decode L p ModuleHeader THeader = Inl (Error (NetProto (UnmarshalError e)))"
proof -
  from assms(3) obtain hraw m where h: "json_encode L (VMessage msg) = Inr hraw" and p: "pkt_meta p = meta"
    and m: "map_of (pkt_modules p) ModuleHeader = Some m" "mod_payload m = hraw"
    using assms(2) by (elim net_encode_Inr) auto
  have "json_marshal L (VMessage msg) = Inr hraw" using h by (auto simp: json_encode_def split: sum.splits)
  then obtain e where "json_unmarshal L THeader hraw = Inl e" using assms(1) by blast
  then have "decode_with p ModuleHeader THeader (Some (json_decode L)) = Inl (Error (NetProto (UnmarshalError e)))"
    by (simp add: decode_with_def get_module_def m call_decoder_def protocol_decode_def json_decode_def lift_proto_def)
  then show ?thesis using p assms(2) by (auto simp: net_decode_def Let_def)
qed

definition json_lib :: codec_lib where
  "json_lib = net_lib\<lparr>json_marshal := (\<lambda>v. Inr [123, 125]), json_unmarshal := (\<lambda>ty bs. Inl ''number into struct'')\<rparr>"

theorem json_packets_not_decoded_witness:
  "\<exists>p e. net_encode json_lib 0 (Some hello_value) MessageHello (default_meta\<lparr>encoding := EncodingJson\<rparr>) = Inr p \<and>
     net_decode json_lib p ModulePayload THello = Inl (Error (NetProto (UnmarshalError e)))"
proof -
  define p where "p = \<lparr>pkt_meta = default_meta\<lparr>encoding := EncodingJson\<rparr>, pkt_modules =
     [(''HE'', \<lparr>mod_id = ''HE'', mod_size = 2, mod_payload = [123, 125]\<rparr>),
      (''PA'', \<lparr>mod_id = ''PA'', mod_size = 2, mod_payload = [123, 125]\<rparr>)]\<rparr>"
  have "net_encode json_lib 0 (Some hello_value) MessageHello (default_meta\<lparr>encoding := EncodingJson\<rparr>) = Inr p"
    by (simp add: p_def net_encode_def protocol_encode_def json_encode_def json_lib_def call_encoder_def
        add_net_module_def add_module_def new_module_def new_packet_def ModuleHeader_def ModulePayload_def Let_def)
  moreover from json_packets_not_decoded [OF _ _ this, of THello] have "\<exists>e. net_decode json_lib p ModulePayload THello = Inl (Error (NetProto (UnmarshalError e)))"
    by (auto simp: json_lib_def)
  ultimately show ?thesis by blast
qed

text \<open>
  A network of the node "localhost" with one connection, to 10.0.0.2, added and active; its
  tracer is running and the remote node is to be traced.
\<close>

definition demo_conn :: conn where
  "demo_conn = open_conn ([], EOF) ([], None) default_net_config"

definition demo_network :: network where
  "demo_network =
     upd_heap (upd_node 1 (\<lambda>x. x\<lparr>node_active := True, node_to_be_traced := True\<rparr>))
       (snd (add_conn 0 (snd (new_conn demo_conn 1 ''10.0.0.248841080''
          ((new_net demo_heap 0 ''b'')\<lparr>nw_tracer := snd (tr_run new_tracer)\<rparr>)))))"

lemma new_net_wf: "heap_wf hp \<Longrightarrow> node_ref hp x \<Longrightarrow> tracer_wf t \<Longrightarrow> net_wf ((new_net hp x b)\<lparr>nw_tracer := t\<rparr>)"
  by (simp add: net_wf_def new_net_def)

lemma new_conn_wf: "net_wf n \<Longrightarrow> node_ref (nw_heap n) x \<Longrightarrow> net_wf (snd (new_conn cn x i n))"
  by (fastforce simp: net_wf_def new_conn_def the_conn_def nth_append)

lemma demo_network_wf: "net_wf demo_network"
proof -
  have "net_wf (snd (add_conn 0 (snd (new_conn demo_conn 1 ''10.0.0.248841080''
          ((new_net demo_heap 0 ''b'')\<lparr>nw_tracer := snd (tr_run new_tracer)\<rparr>)))))"
    by (intro net_wf_add_conn new_conn_wf new_net_wf tr_run_wf new_tracer_wf demo_heap_wf)
       (simp_all add: demo_heap_refs new_net_def new_conn_def)
  then show ?thesis
    unfolding demo_network_def
    by (intro net_wf_upd_heap heap_wf_upd)
       (auto simp: net_wf_def node_wf_cong [of "_\<lparr>node_active := True, node_to_be_traced := True\<rparr>"] dest: heap_wf_node [rotated])
qed

text \<open>
  The load balancer on a network: \<open>GetNodeBalanced\<close> over \<open>Nodes\<close> reports
  "no suitable node" exactly when the local node and every active node with an open connection
  are excluded; otherwise it returns one of these that is not excluded.
\<close>

theorem network_dispatch:
  assumes "net_wf n"
  shows "(snd (get_node_balanced (nw_heap n) (nw_nodes n) exc) \<noteq> None \<longleftrightarrow>
      node_id (the_node (nw_heap n) (nw_local n)) \<in> set exc \<and>
      (\<forall>(i, c) \<in> set (nw_outgoing n). is_active (nw_heap n) (bc_node (the_conn n c)) \<longrightarrow>
        bc_conn (the_conn n c) \<noteq> None \<longrightarrow> node_id (the_node (nw_heap n) (bc_node (the_conn n c))) \<in> set exc)) \<and>
    (\<forall>x. get_node_balanced (nw_heap n) (nw_nodes n) exc = (x, None) \<longrightarrow>
      node_id (the_node (nw_heap n) x) \<notin> set exc \<and> (x = nw_local n \<or> is_active (nw_heap n) x))"
proof -
  have "dispatch.ids_of n \<subseteq> set exc \<longleftrightarrow> node_id (the_node (nw_heap n) (nw_local n)) \<in> set exc \<and>
      (\<forall>(i, c) \<in> set (nw_outgoing n). is_active (nw_heap n) (bc_node (the_conn n c)) \<longrightarrow>
        bc_conn (the_conn n c) \<noteq> None \<longrightarrow> node_id (the_node (nw_heap n) (bc_node (the_conn n c))) \<in> set exc)"
    by (fastforce simp: nw_nodes_def)
  moreover have "fst (nw_nodes n) = nw_local n" by (simp add: nw_nodes_def)
  ultimately show ?thesis
    using dispatch.gives_up_iff [OF assms, of exc] dispatch.choice_exists [OF assms, of exc] by auto
qed

theorem network_dispatch_witness:
  "get_node_balanced (nw_heap demo_network) (nw_nodes demo_network) [''localhost48841080''] = (1, None) \<and>
   is_active (nw_heap demo_network) 1"
proof -
  have eq: "get_node_balanced (nw_heap demo_network) (nw_nodes demo_network) [''localhost48841080''] = (1, None)"
    and local: "nw_local demo_network = 0" by code_simp+
  from network_dispatch [OF demo_network_wf, of "[''localhost48841080'']"] eq local show ?thesis by auto
qed

text \<open>
  C18: \<open>AddConn\<close> refuses a connection exactly when its identifier belongs to a connection
  that is still open, and then changes nothing; otherwise it registers the connection under its
  identifier and publishes one "node added" event about its node. If a closed connection with
  that identifier was there, the new node takes over all its tunnels. The network stays well
  formed.
\<close>

theorem add_conn_effect:
  assumes "net_wf n" and "c < length (nw_conns n)" and "bc_id (the_conn n c) = i"
    and "node_tunnels (the_node (nw_heap n) (bc_node (the_conn n c))) = []"
  shows "case map_of (nw_outgoing n) i of
      Some cc \<Rightarrow>
        if bc_conn (the_conn n cc) \<noteq> None then add_conn c n = (Inl (Error (ConnectionPresent i)), n)
        else bc_node (the_conn n cc) \<noteq> bc_node (the_conn n c) \<longrightarrow>
          (\<exists>n'. add_conn c n = (Inr (), n') \<and> net_wf n' \<and> map_of (nw_outgoing n') i = Some c \<and>
             (\<exists>u. nw_published n' = nw_published n @ [NetworkUpdated u] \<and> nu_operation u = NodeAdded) \<and>
             (\<forall>t. tunnel_count (nw_heap n') (bc_node (the_conn n c)) t =
               tunnel_count (nw_heap n) (bc_node (the_conn n cc)) t))
    | None \<Rightarrow>
        (\<exists>n'. add_conn c n = (Inr (), n') \<and> net_wf n' \<and> map_of (nw_outgoing n') i = Some c \<and>
           (\<exists>u. nw_published n' = nw_published n @ [NetworkUpdated u] \<and> nu_operation u = NodeAdded) \<and>
           nw_heap n' = nw_heap n)"
proof -
  have ins: "map_of (nw_outgoing (inserted c m)) i = Some c" "nw_heap (inserted c m) = nw_heap m"
      "\<exists>u. nw_published (inserted c m) = nw_published m @ [NetworkUpdated u] \<and> nu_operation u = NodeAdded"
    if "bc_id (the_conn m c) = i" for m
    using that by (auto simp: inserted_def Let_def network_update_def the_conn_ids update_conv')
  show ?thesis
  proof (cases rule: add_conn_cases [of n c])
    case 1
    then show ?thesis
      using ins [OF assms(3)] assms(3) net_wf_inserted [OF assms(1,2)] by (auto simp: assms(3))
  next
    case (2 cc)
    then show ?thesis using assms(3) by simp
  next
    case (3 cc)
    let ?old = "bc_node (the_conn n cc)" and ?new = "bc_node (the_conn n c)"
    let ?m = "upd_heap (copy_tunnels ?old ?new) n"
    have cc: "cc < length (nw_conns n)"
      using assms(1) 3(1) by (auto simp: net_wf_def dest!: map_of_SomeD)
    have refs: "node_ref (nw_heap n) ?old" "node_ref (nw_heap n) ?new"
      using net_wf_conn [OF assms(1) cc] net_wf_conn [OF assms(1,2)] by auto
    have wf: "net_wf (inserted c ?m)" using net_wf_add_conn [OF assms(1,2)] 3 by simp
    have "tunnel_count (nw_heap ?m) ?new t = tunnel_count (nw_heap n) ?old t" if "?old \<noteq> ?new" for t
    proof -
      have "map_of (node_tunnels (the_node (copy_tunnels ?old ?new (nw_heap n)) ?new)) t =
          map_of (node_tunnels (the_node (nw_heap n) ?old)) t"
        using copy_tunnels_lookup [OF _ refs that assms(4)] assms(1) by (simp add: net_wf_def)
      moreover have "copies_of (copy_tunnels ?old ?new (nw_heap n)) u = copies_of (nw_heap n) u" for u
        by (simp add: copy_tunnels_def)
      ultimately show ?thesis by (simp add: tunnel_count_def split: option.split)
    qed
    then show ?thesis using 3 ins [of ?m] assms(3) wf by (auto simp: assms(3))
  qed
qed

theorem add_conn_effect_witness:
  "add_conn 1 (snd (new_conn demo_conn 2 ''10.0.0.248841080''
      (upd_heap (\<lambda>hp. snd (new_node demo_sha1 Some ''10.0.0.2'' ''1080'' ''4884'' False hp)) demo_network))) =
   (Inl (Error (ConnectionPresent ''10.0.0.248841080'')),
    snd (new_conn demo_conn 2 ''10.0.0.248841080''
      (upd_heap (\<lambda>hp. snd (new_node demo_sha1 Some ''10.0.0.2'' ''1080'' ''4884'' False hp)) demo_network)))"
proof -
  let ?m = "upd_heap (\<lambda>hp. snd (new_node demo_sha1 Some ''10.0.0.2'' ''1080'' ''4884'' False hp)) demo_network"
  let ?n = "snd (new_conn demo_conn 2 ''10.0.0.248841080'' ?m)"
  have "node_ref (snd (new_node demo_sha1 Some ''10.0.0.2'' ''1080'' ''4884'' False hp)) x" if "node_ref hp x" for hp x
    using that by (simp add: new_node_def node_ref_def)
  then have m: "net_wf ?m"
    using demo_network_wf by (intro net_wf_upd_heap heap_wf_new_node) (auto simp: net_wf_def)
  have facts: "node_ref (nw_heap ?m) 2 = True" "(1 < length (nw_conns ?n)) = True" "bc_id (the_conn ?n 1) = ''10.0.0.248841080''"
      "node_tunnels (the_node (nw_heap ?n) (bc_node (the_conn ?n 1))) = []"
      "map_of (nw_outgoing ?n) ''10.0.0.248841080'' = Some 0" "(bc_conn (the_conn ?n 0) = None) = False"
    unfolding node_ref_def by code_simp+
  have wf: "net_wf ?n" by (rule new_conn_wf [OF m]) (simp add: facts(1) del: net_conn_simps)
  from add_conn_effect [OF wf, of 1 "''10.0.0.248841080''"] facts(2-6) show ?thesis by (simp del: net_conn_simps)
qed

text \<open>
  C19: \<open>Conn.Close\<close>: a closed connection is an error and nothing changes. Otherwise the
  connection is closed, its node becomes inactive and is no longer offered by \<open>Nodes\<close>,
  and one "node removed" event about it is published. If the node is to be traced, it is then
  among the traced entities, but the call returns only if the tracer is running; if the tracer is
  stopped, it hangs.
\<close>

theorem close_conn_effect:
  assumes "net_wf n" and "c < length (nw_conns n)"
  shows "if bc_conn (the_conn n c) = None then bconn_close c n = (Inl (Error ConnectionClosed), n)
    else (let x = bc_node (the_conn n c); n' = snd (bconn_close c n) in
      bc_conn (the_conn n' c) = None \<and> \<not> is_active (nw_heap n') x \<and> x \<notin> set (snd (nw_nodes n')) \<and>
      (\<exists>u. nw_published n' = nw_published n @ [NetworkUpdated u] \<and> nu_operation u = NodeRemoved) \<and>
      (if node_to_be_traced (the_node (nw_heap n) x)
       then node_id (the_node (nw_heap n) x) \<in> set (tr_conns (nw_tracer n')) \<and>
         fst (bconn_close c n) = (if 0 < tr_loops (nw_tracer n) then Inr () else Inl Hang)
       else fst (bconn_close c n) = Inr () \<and> nw_tracer n' = nw_tracer n))"
proof (cases "bc_conn (the_conn n c)")
  case None
  then show ?thesis by (simp add: bconn_close_def)
next
  case (Some cn)
  let ?x = "bc_node (the_conn n c)"
  let ?n1 = "upd_heap (set_is_active ?x False) (upd_conn c (\<lambda>b. b\<lparr>bc_conn := None\<rparr>) n)"
  let ?n = "publish (network_update NodeRemoved ?x ?n1) ?n1"
  have ref: "node_ref (nw_heap n) ?x" by (rule net_wf_conn [OF assms])
  then have inactive: "\<not> is_active (nw_heap ?n) ?x"
    and same: "node_to_be_traced (the_node (nw_heap ?n) ?x) = node_to_be_traced (the_node (nw_heap n) ?x)"
      "node_id (the_node (nw_heap ?n) ?x) = node_id (the_node (nw_heap n) ?x)"
    by (simp_all add: is_active_def the_node_active)
  have closed: "bc_conn (the_conn ?n c) = None" using assms(2) by (simp add: the_conn_upd)
  have tr: "nw_nodes (?n\<lparr>nw_tracer := t\<rparr>) = nw_nodes ?n" for t by (simp add: nw_nodes_def)
  have not_listed: "?x \<notin> set (snd (nw_nodes ?n))"
    using dispatch.listed_active [of ?n] inactive net_wf_close [OF assms(1), of c]
    by (auto simp: nw_nodes_def)
  have pub: "\<exists>u. nw_published ?n = nw_published n @ [NetworkUpdated u] \<and> nu_operation u = NodeRemoved"
    by (simp add: network_update_def)
  have close: "bconn_close c n = (if node_to_be_traced (the_node (nw_heap n) ?x)
      then (if 0 < tr_loops (nw_tracer n) then Inr () else Inl Hang,
            ?n\<lparr>nw_tracer := snd (tr_trace (node_id (the_node (nw_heap n) ?x)) (nw_tracer n))\<rparr>)
      else (Inr (), ?n))"
    using Some same by (simp add: bconn_close_def Let_def tr_trace_def tr_refresh_def)
  have traced: "i \<in> set (tr_conns (snd (tr_trace i t)))" for i t
    by (simp add: tr_trace_def tr_refresh_def ping_round_def)
  show ?thesis
    unfolding Let_def close using Some inactive closed not_listed pub traced tr
    by (simp del: net_conn_simps the_conn_simps(2)) auto
qed

theorem close_conn_effect_witness:
  "fst (bconn_close 0 demo_network) = Inr () \<and> \<not> is_active (nw_heap (snd (bconn_close 0 demo_network))) 1 \<and>
   fst (bconn_close 0 (demo_network\<lparr>nw_tracer := new_tracer\<rparr>)) = Inl Hang"
proof -
  have len: "0 < length (nw_conns demo_network)" "0 < length (nw_conns (demo_network\<lparr>nw_tracer := new_tracer\<rparr>))"
    and facts: "(bc_conn (the_conn demo_network 0) = None) = False" "bc_node (the_conn demo_network 0) = 1"
      "node_to_be_traced (the_node (nw_heap demo_network) 1) = True" "tr_loops (nw_tracer demo_network) = 1"
      "tr_loops new_tracer = 0"
    by code_simp+
  have wf: "net_wf (demo_network\<lparr>nw_tracer := new_tracer\<rparr>)"
    by (rule net_wf_tracer [OF demo_network_wf new_tracer_wf])
  from close_conn_effect [OF demo_network_wf len(1)] close_conn_effect [OF wf len(2)] facts show ?thesis
    by (simp add: Let_def)
qed

text \<open>
  A late tunnel event makes a lost node unreachable: after the connection of a traced node was
  closed, one more "tunnel added" event for it (a packet that was still being handled) marks the
  node active again. Then every ping of the tracer fails, however reachable the node is, so it is
  never reported online; \<open>Nodes\<close> does not offer it either, and closing the connection
  again is an error that changes nothing.
\<close>

theorem late_tunnel_blocks_reconnect:
  assumes "net_wf n" and "c < length (nw_conns n)" and "bc_conn (the_conn n c) \<noteq> None"
    and "\<And>i d. (i, d) \<in> set (nw_outgoing n) \<Longrightarrow> bc_node (the_conn n d) = bc_node (the_conn n c) \<Longrightarrow> d = c"
  shows "let x = bc_node (the_conn n c);
      n' = snd (update_node sha1 x (tunnel_update TunnelAdded t) True (snd (bconn_close c n))) in
    is_active (nw_heap n') x \<and> (\<forall>reachable. ping reachable (nw_heap n') x = Inl AlreadyConnected) \<and>
    x \<notin> set (snd (nw_nodes n')) \<and> bconn_close c n' = (Inl (Error ConnectionClosed), n')"
proof -
  let ?x = "bc_node (the_conn n c)" and ?n1 = "snd (bconn_close c n)"
  let ?n = "snd (update_node sha1 ?x (tunnel_update TunnelAdded t) True ?n1)"
  have conns: "nw_conns ?n1 = (nw_conns n)[c := (nw_conns n ! c)\<lparr>bc_conn := None\<rparr>]" "nw_outgoing ?n1 = nw_outgoing n"
    using assms(3) by (auto simp: bconn_close_def Let_def upd_conn_def upd_heap_def publish_def split: prod.splits sum.splits stop.splits)
  have ref: "node_ref (nw_heap ?n1) ?x"
  proof -
    have "node_ref (nw_heap ?n1) y" if "node_ref (nw_heap n) y" for y
      using that assms(3) by (auto simp: bconn_close_def Let_def split: prod.splits sum.splits stop.splits)
    then show ?thesis using net_wf_conn [OF assms(1,2)] by blast
  qed
  have active: "is_active (nw_heap ?n) ?x"
  proof -
    have "is_active (add_tunnel ?x u hp) ?x" if "node_ref hp ?x" for u hp
      using that by (auto simp: add_tunnel_def Let_def is_active_def heap_simps split: option.splits)
    then show ?thesis
      using ref by (simp add: update_node_heap open_tunnel_eq)
  qed
  have the_conn: "the_conn ?n d = (if d = c then (the_conn n c)\<lparr>bc_conn := None\<rparr> else the_conn n d)" for d
    using assms(2) by (simp add: the_conn_def update_node_other conns)
  have "?x \<notin> set (snd (nw_nodes ?n))"
    using assms(4) by (auto simp: nw_nodes_def update_node_other conns the_conn split: if_splits)
  moreover have "bconn_close c ?n = (Inl (Error ConnectionClosed), ?n)"
    using the_conn [of c] by (simp add: bconn_close_def)
  ultimately show ?thesis using active by (simp add: Let_def ping_def)
qed

theorem late_tunnel_blocks_reconnect_witness:
  "ping (\<lambda>a. True) (nw_heap (snd (update_node demo_sha1 1 (tunnel_update TunnelAdded ''a:1'') True (snd (bconn_close 0 demo_network))))) 1 =
     Inl AlreadyConnected"
proof -
  have facts: "0 < length (nw_conns demo_network)" "(bc_conn (the_conn demo_network 0) = None) = False"
      "bc_node (the_conn demo_network 0) = 1" "nw_outgoing demo_network = [(''10.0.0.248841080'', 0)]"
    by code_simp+
  from late_tunnel_blocks_reconnect [OF demo_network_wf facts(1), of demo_sha1 "''a:1''"] facts(2-4)
  show ?thesis by (simp add: Let_def)
qed

text \<open>
  C10: The root's workload is the number of open proxy sessions: if the root starts without tunnels
  and the events that \<open>Handle\<close> publishes for the sessions are applied in the order they
  were published, then after any sequence of sessions starting and ending the workload of the
  local node is the number of sessions still open, and its count for each remote address is the
  number of open sessions to that address.
\<close>

theorem root_workload_is_open_sessions:
  assumes "net_wf n" and "node_tunnels (the_node (nw_heap n) (nw_local n)) = []"
  shows "workload (nw_heap (fold (root_event sha1) (session_events xs []) n)) (nw_local n) =
      int (length (sessions_after xs [])) \<and>
    tunnel_count (nw_heap (fold (root_event sha1) (session_events xs []) n)) (nw_local n) t =
      int (length (filter (\<lambda>x. x = t) (sessions_after xs [])))"
proof -
  have "heap_wf (nw_heap n)" "node_ref (nw_heap n) (nw_local n)" using assms(1) by (simp_all add: net_wf_def)
  from sessions_on_node [OF this assms(2), of sha1 xs t] show ?thesis by (simp add: root_events_heap open_to_def)
qed

theorem root_workload_is_open_sessions_witness:
  "workload (nw_heap (fold (root_event demo_sha1) [Opened ''a:1'', Opened ''b:2'', Opened ''a:1'', Ended ''b:2''] demo_network)) 0 = 2"
proof -
  have facts: "node_tunnels (the_node (nw_heap demo_network) (nw_local demo_network)) = []" "nw_local demo_network = 0"
    by code_simp+
  from root_workload_is_open_sessions [OF demo_network_wf facts(1), of demo_sha1
      "[Start ''a:1'', Start ''b:2'', Start ''a:1'', Finish 1]"] facts(2) show ?thesis by simp
qed

text \<open>
  Order matters: if the "removed" event of a session reaches the root before its "added" event
  (the channel of a subscriber can swap two messages), the removal is lost and the root is charged
  with a connection that does not exist.
\<close>

theorem swapped_events_leave_zombie:
  assumes "net_wf n" and "tunnel_count (nw_heap n) (nw_local n) t = 0"
  shows "tunnel_count (nw_heap (fold (root_event sha1) [Opened t, Ended t] n)) (nw_local n) t = 0 \<and>
    tunnel_count (nw_heap (fold (root_event sha1) [Ended t, Opened t] n)) (nw_local n) t = 1"
proof -
  have inv: "heap_wf (nw_heap n) \<and> node_ref (nw_heap n) (nw_local n)"
    using assms(1) by (simp add: net_wf_def)
  have "in_sequence (tunnel_count (nw_heap n) (nw_local n)) [Opened t, Ended t]" using assms(2) by simp
  from node_ledger.in_sequence_exact [OF inv this, of sha1 True t]
    node_ledger.overtaken_end [OF inv assms(2), of sha1 True] assms(2)
  show ?thesis unfolding root_events_heap by simp
qed

theorem swapped_events_leave_zombie_witness:
  "tunnel_count (nw_heap (fold (root_event demo_sha1) [Ended ''a:1'', Opened ''a:1''] demo_network)) 0 ''a:1'' = 1"
proof -
  have facts: "tunnel_count (nw_heap demo_network) (nw_local demo_network) ''a:1'' = 0" "nw_local demo_network = 0"
    by code_simp+
  from swapped_events_leave_zombie [OF demo_network_wf facts(1), of demo_sha1] facts(2) show ?thesis by simp
qed

section \<open>\<open>TraceNodes\<close>\<close>

text \<open>What one message does to the tracer, when reconnecting leaves the tracer alone.\<close>

lemma untrace_running:
  assumes "0 < tr_loops t"
  obtains t' where "tr_untrace i t = (Inr (), t')" and "tr_loops t' = tr_loops t" and "tr_status t' = tr_status t"
    and "set (tr_conns t') = set (tr_conns t) - {i}"
  using assms that by (auto simp: tr_untrace_def tr_refresh_def ping_round_def)

lemma traced_message_tracer:
  assumes "\<And>a n. nw_tracer (snd (reconnect a n)) = nw_tracer n" and "0 < tr_loops (nw_tracer n)"
  obtains n' where "traced_message reconnect m n = (Inr (), n')"
    and "tr_loops (nw_tracer n') = tr_loops (nw_tracer n)" and "tr_status (nw_tracer n') = tr_status (nw_tracer n)"
    and "set (tr_conns (nw_tracer n)) - (if msg_err m then {} else {msg_id m}) \<subseteq> set (tr_conns (nw_tracer n'))"
    and "set (tr_conns (nw_tracer n')) \<subseteq> set (tr_conns (nw_tracer n))"
proof -
  show ?thesis
  proof (cases "msg_err m")
    case True
    then have "traced_message reconnect m n = (Inr (), n)" by (simp add: traced_message_def)
    then show ?thesis by (rule that) auto
  next
    case False
    show ?thesis
    proof (cases "map_of (nw_outgoing n) (msg_id m)")
      case None
      obtain t where t: "tr_untrace (msg_id m) (nw_tracer n) = (Inr (), t)" "tr_loops t = tr_loops (nw_tracer n)"
          "tr_status t = tr_status (nw_tracer n)" "set (tr_conns t) = set (tr_conns (nw_tracer n)) - {msg_id m}"
        using untrace_running [OF assms(2)] by metis
      have "traced_message reconnect m n = (Inr (), n\<lparr>nw_tracer := t\<rparr>)"
        using False None t(1) by (simp add: traced_message_def Let_def)
      then show ?thesis by (rule that) (use t False in auto)
    next
      case (Some c)
      obtain ok k where k: "reconnect (node_baddr (the_node (nw_heap n) (bc_node (the_conn n c)))) n = (ok, k)" by fastforce
      have kt: "nw_tracer k = nw_tracer n" using assms(1) [of _ n] k by (metis snd_conv)
      show ?thesis
      proof (cases ok)
        case True
        obtain t where t: "tr_untrace (msg_id m) (nw_tracer k) = (Inr (), t)" "tr_loops t = tr_loops (nw_tracer n)"
            "tr_status t = tr_status (nw_tracer n)" "set (tr_conns t) = set (tr_conns (nw_tracer n)) - {msg_id m}"
          using untrace_running [of "nw_tracer k"] assms(2) unfolding kt by metis
        have "traced_message reconnect m n = (Inr (), k\<lparr>nw_tracer := t\<rparr>)"
          using False Some k True t(1) by (simp add: traced_message_def Let_def)
        then show ?thesis by (rule that) (use t False in auto)
      next
        case no: False
        have "traced_message reconnect m n = (Inr (), k)"
          using False Some k no by (simp add: traced_message_def Let_def)
        then show ?thesis by (rule that) (use kt in auto)
      qed
    qed
  qed
qed

lemma traced_messages_tracer:
  assumes "\<And>a n. nw_tracer (snd (reconnect a n)) = nw_tracer n" and "0 < tr_loops (nw_tracer n)"
  shows "tr_loops (nw_tracer (traced_messages reconnect ms n)) = tr_loops (nw_tracer n) \<and>
    tr_status (nw_tracer (traced_messages reconnect ms n)) = tr_status (nw_tracer n) \<and>
    set (tr_conns (nw_tracer n)) - {msg_id m | m. m \<in> set ms \<and> \<not> msg_err m} \<subseteq>
      set (tr_conns (nw_tracer (traced_messages reconnect ms n))) \<and>
    set (tr_conns (nw_tracer (traced_messages reconnect ms n))) \<subseteq> set (tr_conns (nw_tracer n))"
  using assms(2)
proof (induction ms arbitrary: n)
  case (Cons m ms)
  obtain n' where n': "traced_message reconnect m n = (Inr (), n')"
      "tr_loops (nw_tracer n') = tr_loops (nw_tracer n)" "tr_status (nw_tracer n') = tr_status (nw_tracer n)"
      "set (tr_conns (nw_tracer n)) - (if msg_err m then {} else {msg_id m}) \<subseteq> set (tr_conns (nw_tracer n'))"
      "set (tr_conns (nw_tracer n')) \<subseteq> set (tr_conns (nw_tracer n))"
    by (rule traced_message_tracer [of reconnect n m, OF assms(1) Cons.prems])
  have eq: "traced_messages reconnect (m # ms) n = traced_messages reconnect ms n'" using n'(1) by simp
  let ?on = "\<lambda>ms. {msg_id m | m. m \<in> set ms \<and> \<not> msg_err m}"
  have "?on (m # ms) = (if msg_err m then {} else {msg_id m}) \<union> ?on ms" by auto
  moreover have "A - (D \<union> D') \<subseteq> C" if "A - D \<subseteq> B" "B - D' \<subseteq> C" for A B C D D' :: "string set"
    using that by blast
  moreover have "0 < tr_loops (nw_tracer n')" using n'(2) Cons.prems by simp
  note IH = Cons.IH [OF this]
  ultimately show ?case unfolding eq using n'(2,3,4) subset_trans [OF _ n'(5)] by (simp only: IH simp_thms)
qed simp



end
