(* ===== verification/Booster.thy ===== *)
theory Booster
  imports Network
begin

text \<open>
  Package \<open>booster\<close>, \<open>booster.go\<close>, \<open>receivers.go\<close> and
  \<open>senders.go\<close>: a booster node, how it introduces itself to its peers, how it wires
  itself to another node, and the commands a client sends to a node. What is outside (the libraries,
  the hash, the resolver, dialling, the order in which a map is iterated, the time a send takes) is
  the environment \<open>E\<close>; the clock \<open>now\<close> is an argument. The messages are handled in
  \<open>Handlers\<close>; the loop of \<open>Run\<close> is in \<open>Runloop\<close>.
\<close>

section \<open>State\<close>

record env =
  env_lib :: codec_lib
  env_sha1 :: "bytes \<Rightarrow> string"
  env_resolve :: "string \<Rightarrow> string option"
  env_dial :: "string \<Rightarrow> string + (socket \<times> string)"   \<comment> \<open>package net: a socket and its remote address\<close>
  env_order :: "packet \<Rightarrow> gomodule list"
  env_in_time :: "packet \<Rightarrow> bool"

text \<open>
  A connection that is handled is a bare \<open>network.Conn\<close> that was accepted, or a
  \<open>Conn\<close> of the network. \<open>bo_tasks\<close> are the goroutines that were started;
  \<open>bo_run\<close> says whether \<open>Run\<close> is waiting in its \<open>select\<close>, so that a send
  on \<open>b.stop\<close> or \<open>b.restart\<close> is received, and what it has received.
\<close>

datatype peer = Accepted nat | Wired nat

datatype task = HandleConn peer | ServeStatusOn peer | ServeMonitorOn peer packet

datatype run_signal = Waiting | Stopped | Restarted | Absent

record booster =
  bo_id :: string
  bo_net :: network
  bo_accepted :: "conn list"
  bo_tasks :: "task list"
  bo_run :: run_signal

type_synonym 'a booster_step = "(booster, net_error stop, 'a) step"

section \<open>Combinators\<close>

definition on_net :: "(network, net_error stop, 'a) step \<Rightarrow> 'a booster_step" where
  "on_net m b = (case m (bo_net b) of (r, n) \<Rightarrow> (r, b\<lparr>bo_net := n\<rparr>))"

definition reading :: "(booster \<Rightarrow> net_error stop + 'a) \<Rightarrow> 'a booster_step" where
  "reading f b = (f b, b)"

definition go :: "task \<Rightarrow> unit booster_step" where
  "go t b = (Inr (), b\<lparr>bo_tasks := bo_tasks b @ [t]\<rparr>)"

text \<open>A call whose error is dropped; a crash or a hang is not.\<close>

definition dropping :: "unit booster_step \<Rightarrow> unit booster_step" where
  "dropping m b = (case m b of (Inl (Error e), b') \<Rightarrow> (Inr (), b') | r \<Rightarrow> r)"

text \<open>\<open>if err != nil { cleanup; return err }\<close>, and a deferred cleanup.\<close>

definition on_failure :: "unit booster_step \<Rightarrow> 'a booster_step \<Rightarrow> 'a booster_step" where
  "on_failure cleanup m b =
     (case m b of
        (Inl (Error e), b') \<Rightarrow> and_then (dropping cleanup) (\<lambda>_. fail_with (Error e)) b'
      | r \<Rightarrow> r)"

definition deferring :: "unit booster_step \<Rightarrow> 'a booster_step \<Rightarrow> 'a booster_step" where
  "deferring cleanup m b =
     (case m b of
        (Inl (Error e), b') \<Rightarrow> and_then (dropping cleanup) (\<lambda>_. fail_with (Error e)) b'
      | (Inr x, b') \<Rightarrow> and_then (dropping cleanup) (\<lambda>_. done_with x) b'
      | r \<Rightarrow> r)"

section \<open>Connections to peers\<close>

definition peer_send :: "env \<Rightarrow> packet \<Rightarrow> peer \<Rightarrow> unit booster_step" where
  "peer_send E p pr b =
     (case pr of
        Wired c \<Rightarrow> on_net (bconn_send (env_in_time E p) (env_order E p) p c) b
      | Accepted k \<Rightarrow>
         (case conn_send p (env_order E p) (bo_accepted b ! k) of
            (r, cn) \<Rightarrow>
              (case r of Inl e \<Rightarrow> Inl (Error (SendFailed e)) | Inr _ \<Rightarrow> Inr (),
               b\<lparr>bo_accepted := (bo_accepted b)[k := cn]\<rparr>)))"

definition peer_close :: "peer \<Rightarrow> unit booster_step" where
  "peer_close pr b =
     (case pr of
        Wired c \<Rightarrow> on_net (bconn_close c) b
      | Accepted k \<Rightarrow> (Inr (), b\<lparr>bo_accepted := (bo_accepted b)[k := conn_close (bo_accepted b ! k)]\<rparr>))"

section \<open>A new node\<close>

text \<open>
  \<open>New\<close>: the root node, the identifier, and the registration of the network, which
  panics when the identifier is taken.
\<close>

definition booster_id :: "env \<Rightarrow> nat \<Rightarrow> nat \<Rightarrow> string" where
  "booster_id E pport bport = sha1_hash (env_sha1 E) [bytes_of (itoa pport), bytes_of (itoa bport)]"

definition new_booster :: "env \<Rightarrow> nat \<Rightarrow> nat \<Rightarrow> (networks, net_error stop, booster) step" where
  "new_booster E pport bport ns =
     (case new_node (env_sha1 E) (env_resolve E) ''localhost'' (itoa pport) (itoa bport) True empty_heap of
        (Inl e, hp) \<Rightarrow> (Inl (Error (NetNode e)), ns)
      | (Inr rn, hp) \<Rightarrow>
         (let i = booster_id E pport bport;
              n = (new_net hp rn i)\<lparr>nw_heartbeat_ttl := 8000000000\<rparr> in
          (case nets_set i n ns of
             (Inl e, ns') \<Rightarrow> (Inl e, ns')
           | (Inr _, ns') \<Rightarrow> (Inr \<lparr>bo_id = i, bo_net = n, bo_accepted = [], bo_tasks = [], bo_run = Absent\<rparr>, ns'))))"

section \<open>Stopping and restarting\<close>

text \<open>\<open>Close\<close> and \<open>Restart\<close> send on a channel that only \<open>Run\<close> receives from.\<close>

definition signal_run :: "run_signal \<Rightarrow> unit booster_step" where
  "signal_run s b = (if bo_run b = Waiting then (Inr (), b\<lparr>bo_run := s\<rparr>) else (Inl Hang, b))"

definition bo_close :: "unit booster_step" where
  "bo_close = signal_run Stopped"

definition bo_restart :: "unit booster_step" where
  "bo_restart b =
     signal_run Restarted
       (b\<lparr>bo_net := fold (\<lambda>(k, c). close_untraced c) (nw_outgoing (bo_net b)) (bo_net b)\<rparr>)"

section \<open>Hello\<close>

definition send_hello :: "env \<Rightarrow> gotime \<Rightarrow> peer \<Rightarrow> unit booster_step" where
  "send_hello E now pr =
     and_then (reading (\<lambda>b.
         let hp = nw_heap (bo_net b); n = nw_local (bo_net b) in
         encode_default (env_lib E) now
           (Some (VHello \<lparr>he_bport = node_bport hp n, he_pport = node_pport hp n\<rparr>)) MessageHello))
       (\<lambda>p. peer_send E p pr)"

text \<open>
  \<open>RecvHello\<close>, of the bare connection \<open>cn\<close> with remote address \<open>raddr\<close>. On
  an error \<open>cn\<close> is closed and nobody has it any more.
\<close>

definition recv_hello :: "env \<Rightarrow> conn \<Rightarrow> string \<Rightarrow> (network, net_error stop, nat) step" where
  "recv_hello E cn raddr n =
     (case conn_recv cn of
        (Inl e, _) \<Rightarrow> (Inl (Error (RecvFailed e)), n)
      | (Inr p, cn') \<Rightarrow>
         (case net_decode (env_lib E) p ModulePayload THello of
            Inl e \<Rightarrow> (Inl e, n)
          | Inr (VHello h) \<Rightarrow>
             (let host = (case split_host_port raddr of None \<Rightarrow> '''' | Some (host, _) \<Rightarrow> host) in
              (case new_node (env_sha1 E) (env_resolve E) host (he_pport h) (he_bport h) False (nw_heap n) of
                 (Inl e, hp) \<Rightarrow> (Inl (Error (NetNode e)), n)
               | (Inr x, hp) \<Rightarrow>
                  (case new_conn cn' x (node_id (the_node hp x)) (n\<lparr>nw_heap := hp\<rparr>) of
                     (c, n') \<Rightarrow> (Inr c, n'))))
          | Inr _ \<Rightarrow> (Inl Panic, n)))"

definition dial_booster :: "env \<Rightarrow> string \<Rightarrow> nat booster_step" where
  "dial_booster E addr b =
     (case net_dial default_net_config (env_dial E addr) of
        Inl e \<Rightarrow> (Inl (Error (CannotConnect e)), b)
      | Inr (cn, raddr) \<Rightarrow> on_net (recv_hello E cn raddr) b)"

text \<open>
  One round of the accepting goroutine of \<open>ListenAndServe\<close>, and the goroutine on a
  sequence of results of \<open>Accept\<close>: its first error is what \<open>ListenAndServe\<close> returns.
\<close>

definition accept_conn :: "env \<Rightarrow> gotime \<Rightarrow> conn \<Rightarrow> unit booster_step" where
  "accept_conn E now cn b =
     (let k = length (bo_accepted b) in
      and_then (send_hello E now (Accepted k)) (\<lambda>_. go (HandleConn (Accepted k)))
        (b\<lparr>bo_accepted := bo_accepted b @ [cn]\<rparr>))"

fun accept_loop :: "env \<Rightarrow> gotime \<Rightarrow> (string + socket) list \<Rightarrow> unit booster_step" where
  "accept_loop E now [] b = (Inr (), b)"
| "accept_loop E now (r # rs) b =
     (case net_accept default_net_config r of
        Inl e \<Rightarrow> (Inl (Error (CannotAccept e)), b)
      | Inr cn \<Rightarrow> and_then (accept_conn E now cn) (\<lambda>_. accept_loop E now rs) b)"

section \<open>Wiring\<close>

definition start_timer :: "nat \<Rightarrow> unit booster_step" where
  "start_timer c b = (Inr (), b\<lparr>bo_net := upd_conn c (\<lambda>x. x\<lparr>bc_timer := Some True\<rparr>) (bo_net b)\<rparr>)"

text \<open>The function of the heartbeat timer.\<close>

definition timer_fires :: "nat \<Rightarrow> unit booster_step" where
  "timer_fires c b =
     (let b = b\<lparr>bo_net := upd_conn c (\<lambda>x. x\<lparr>bc_timer := Some False\<rparr>) (bo_net b)\<rparr> in
      if bc_conn (the_conn (bo_net b) c) = None then (Inr (), b) else dropping (peer_close (Wired c)) b)"

definition activate :: "nat \<Rightarrow> unit booster_step" where
  "activate c b =
     (let x = bc_node (the_conn (bo_net b) c) in
      (Inr (), b\<lparr>bo_net := upd_heap (\<lambda>hp. upd_node x (\<lambda>v. v\<lparr>node_to_be_traced := True\<rparr>) (set_is_active x True hp)) (bo_net b)\<rparr>))"

definition wire :: "env \<Rightarrow> gotime \<Rightarrow> string \<Rightarrow> nat booster_step" where
  "wire E now target =
     and_then (dial_booster E target) (\<lambda>c.
       and_then
         (on_failure (peer_close (Wired c))
           (and_then (on_net (add_conn c)) (\<lambda>_.
            and_then (reading (\<lambda>b. encode_default (env_lib E) now None MessageNotify)) (\<lambda>p.
            and_then (peer_send E p (Wired c)) (\<lambda>_.
            and_then (reading (\<lambda>b. compose_heartbeat (env_lib E) now (bo_net b) None)) (\<lambda>p.
            peer_send E p (Wired c)))))))
         (\<lambda>_. and_then (start_timer c) (\<lambda>_. and_then (activate c) (\<lambda>_.
            and_then (go (HandleConn (Wired c))) (\<lambda>_. done_with c)))))"

section \<open>Commands to a node\<close>

text \<open>The common part of the commands: dial, encode, send, and close the connection at the end.\<close>

definition client_command :: "env \<Rightarrow> gotime \<Rightarrow> string \<Rightarrow> gvalue \<Rightarrow> message \<Rightarrow> (nat \<Rightarrow> 'a booster_step) \<Rightarrow> 'a booster_step" where
  "client_command E now addr v msg rest =
     and_then (dial_booster E addr) (\<lambda>c.
       deferring (peer_close (Wired c))
         (and_then (reading (\<lambda>b. encode_default (env_lib E) now (Some v) msg)) (\<lambda>p.
          and_then (peer_send E p (Wired c)) (\<lambda>_. rest c))))"

definition ctrl_cmd :: "env \<Rightarrow> gotime \<Rightarrow> string \<Rightarrow> operation \<Rightarrow> unit booster_step" where
  "ctrl_cmd E now addr oper = client_command E now addr (VCtrl oper) MessageCtrl (\<lambda>c. done_with ())"

definition recv_node :: "env \<Rightarrow> nat \<Rightarrow> payload_node booster_step" where
  "recv_node E c =
     and_then (on_net (bconn_recv c)) (\<lambda>p.
       and_then (reading (\<lambda>b. net_decode (env_lib E) p ModulePayload TNode)) (\<lambda>v.
         case v of VNode n \<Rightarrow> done_with n | _ \<Rightarrow> fail_with Panic))"

definition connect_cmd :: "env \<Rightarrow> gotime \<Rightarrow> string \<Rightarrow> string \<Rightarrow> string booster_step" where
  "connect_cmd E now laddr raddr =
     client_command E now laddr (VConnect raddr) MessageConnect
       (\<lambda>c. and_then (recv_node E c) (\<lambda>n. done_with (pn_id n)))"

definition disconnect_cmd :: "env \<Rightarrow> gotime \<Rightarrow> string \<Rightarrow> string \<Rightarrow> unit booster_step" where
  "disconnect_cmd E now addr i =
     client_command E now addr (VDisconnect i) MessageDisconnect
       (\<lambda>c. and_then (recv_node E c) (\<lambda>n. done_with ()))"

text \<open>
  \<open>Monitor\<close> up to the start of its goroutine; the connection is closed on an error only.
\<close>

definition monitor_cmd :: "env \<Rightarrow> gotime \<Rightarrow> string \<Rightarrow> monitor_feature \<Rightarrow> nat booster_step" where
  "monitor_cmd E now addr feature =
     and_then (dial_booster E addr) (\<lambda>c.
       on_failure (peer_close (Wired c))
         (and_then (reading (\<lambda>b. encode_default (env_lib E) now (Some (VMonitor feature)) MessageMonitor)) (\<lambda>p.
          and_then (peer_send E p (Wired c)) (\<lambda>_. done_with c))))"

text \<open>
  The goroutine of \<open>Monitor\<close>, one receive of \<open>pkts\<close>: \<open>run\<close> is
  \<open>cmd.Run\<close>. A closed channel yields a nil packet, and asking it for a module panics:
  \<open>err\<close>, which is checked, is that of \<open>Consume\<close>. The result says whether the
  goroutine goes on; otherwise the connection is closed.
\<close>

datatype monitor_outcome = Continues | Ends net_error | Crashes

definition monitor_round :: "(gomodule \<Rightarrow> net_error option) \<Rightarrow> packet option \<Rightarrow> monitor_outcome" where
  "monitor_round run got =
     (case got of
        None \<Rightarrow> Crashes
      | Some p \<Rightarrow>
         (case get_module p ModulePayload of
            Inl e \<Rightarrow> Ends (NetPacket e)
          | Inr m \<Rightarrow> (case run m of Some e \<Rightarrow> Ends e | None \<Rightarrow> Continues)))"

fun monitor_run :: "(gomodule \<Rightarrow> net_error option) \<Rightarrow> packet option list \<Rightarrow> monitor_outcome" where
  "monitor_run run [] = Continues"
| "monitor_run run (r # rs) =
     (case monitor_round run r of Continues \<Rightarrow> monitor_run run rs | out \<Rightarrow> out)"

end
