(* ===== verification/Steps.thy ===== *)
theory Steps
  imports Booster
begin

text \<open>
  What a step of a node keeps. \<open>holds I R X m\<close>: from every state in \<open>I\<close> the step leads to
  a state in \<open>I\<close> that is related by \<open>R\<close> to the one before, and it panics only if
  \<open>X\<close>. The locale \<open>step_logic\<close> has the rules for the combinators that the handlers are
  composed with, for any \<open>I\<close> and any preorder \<open>R\<close>.
\<close>

definition holds :: "(booster \<Rightarrow> bool) \<Rightarrow> (booster \<Rightarrow> booster \<Rightarrow> bool) \<Rightarrow> bool \<Rightarrow> 'a booster_step \<Rightarrow> bool" where
  "holds I R X m \<longleftrightarrow>
     (\<forall>b. I b \<longrightarrow> I (snd (m b)) \<and> R b (snd (m b)) \<and> (fst (m b) = Inl Panic \<longrightarrow> X))"

lemma holdsD:
  assumes "holds I R X m" and "I b" and "m b = (r, b')"
  shows "I b'" and "R b b'" and "r = Inl Panic \<Longrightarrow> X"
  using assms unfolding holds_def by (metis fst_conv snd_conv)+

lemma dropping_state [simp]: "snd (dropping m b) = snd (m b)"
  by (auto simp: dropping_def split: prod.split sum.split stop.split)

lemma dropping_panic: "fst (dropping m b) = Inl Panic \<longleftrightarrow> fst (m b) = Inl Panic"
  by (auto simp: dropping_def split: prod.split sum.split stop.split)

text \<open>Both combinators with a cleanup are the step, followed by the cleanup and by its result.\<close>

lemma on_failure_cases:
  obtains e b' where "m b = (Inl (Error e), b')" and "on_failure c m b = and_then (dropping c) (\<lambda>_. fail_with (Error e)) b'"
  | "on_failure c m b = m b"
proof -
  obtain r b' where r: "m b = (r, b')" by fastforce
  consider e where "r = Inl (Error e)" | "r \<in> {Inl Panic, Inl Hang}" | x where "r = Inr x"
    by (metis insert_iff stop.exhaust sumE)
  then show thesis
    by cases (use that r in \<open>auto simp: on_failure_def\<close>)
qed

lemma deferring_cases:
  obtains e b' where "m b = (Inl (Error e), b')" and "deferring c m b = and_then (dropping c) (\<lambda>_. fail_with (Error e)) b'"
  | x b' where "m b = (Inr x, b')" and "deferring c m b = and_then (dropping c) (\<lambda>_. done_with x) b'"
  | "deferring c m b = m b"
proof -
  obtain r b' where r: "m b = (r, b')" by fastforce
  consider e where "r = Inl (Error e)" | "r \<in> {Inl Panic, Inl Hang}" | x where "r = Inr x"
    by (metis insert_iff stop.exhaust sumE)
  then show thesis
    by cases (use that r in \<open>auto simp: deferring_def\<close>)
qed

lemma on_failure_state:
  assumes "m b = (r, b')"
  shows "bo_net (snd (on_failure c m b)) = bo_net b' \<or> bo_net (snd (on_failure c m b)) = bo_net (snd (c b'))"
  using assms dropping_state [of c b']
  by (cases "dropping c b'"; cases "fst (dropping c b')")
     (auto simp: on_failure_def and_then_def fail_with_def split: sum.split stop.split)

lemma on_failure_error:
  assumes "m b = (Inl e, b')"
  shows "\<exists>e'. fst (on_failure c m b) = Inl e'"
  using assms
  by (cases "dropping c b'"; cases "fst (dropping c b')")
     (auto simp: on_failure_def and_then_def fail_with_def split: stop.split)

locale step_logic =
  fixes I :: "booster \<Rightarrow> bool" and R :: "booster \<Rightarrow> booster \<Rightarrow> bool"
  assumes refl: "I b \<Longrightarrow> R b b" and trans: "R a b \<Longrightarrow> R b c \<Longrightarrow> R a c"
begin

lemma idle: "(\<And>b. I b \<Longrightarrow> snd (m b) = b \<and> (fst (m b) = Inl Panic \<longrightarrow> X)) \<Longrightarrow> holds I R X m"
  by (auto simp: holds_def intro: refl)

lemma returns: "holds I R X (done_with x)" and fails: "holds I R X (fail_with (Error e))" and hangs: "holds I R X (fail_with Hang)"
  by (auto intro!: idle simp: done_with_def fail_with_def)

lemma weaken: "holds I R X m \<Longrightarrow> (X \<Longrightarrow> Y) \<Longrightarrow> holds I R Y m"
  by (auto simp: holds_def)

lemma and_then:
  assumes m: "holds I R X m" and f: "\<And>x. holds I R X (f x)"
  shows "holds I R X (and_then m f)"
  unfolding holds_def
proof (intro allI impI)
  fix b assume b: "I b"
  obtain r b' where r: "m b = (r, b')" by fastforce
  note b' = holdsD [OF m b r]
  show "I (snd (and_then m f b)) \<and> R b (snd (and_then m f b)) \<and> (fst (and_then m f b) = Inl Panic \<longrightarrow> X)"
  proof (cases r)
    case (Inl e)
    then show ?thesis using r b' by (simp add: and_then_def)
  next
    case (Inr x)
    obtain r2 b2 where r2: "f x b' = (r2, b2)" by fastforce
    from holdsD [OF f b'(1) r2] b'(2) show ?thesis using r Inr r2 by (auto simp: and_then_def intro: trans)
  qed
qed

lemma dropping: "holds I R X m \<Longrightarrow> holds I R X (dropping m)"
  by (simp add: holds_def dropping_panic)

lemma follow:
  assumes m: "holds I R X m" and k: "holds I R X k" and b: "I b" and r: "m b = (r, b')" and g: "x = k b'"
  shows "I (snd x) \<and> R b (snd x) \<and> (fst x = Inl Panic \<longrightarrow> X)"
proof -
  obtain r2 b2 where r2: "k b' = (r2, b2)" by fastforce
  from holdsD [OF k holdsD(1) [OF m b r] r2] holdsD(2) [OF m b r] g show ?thesis by (auto simp: r2 intro: trans)
qed

lemma on_failure:
  assumes m: "holds I R X m" and c: "holds I R X c"
  shows "holds I R X (on_failure c m)"
  unfolding holds_def
proof (intro allI impI)
  fix b assume b: "I b"
  show "I (snd (on_failure c m b)) \<and> R b (snd (on_failure c m b)) \<and> (fst (on_failure c m b) = Inl Panic \<longrightarrow> X)"
  proof (cases rule: on_failure_cases [of m b c])
    case (1 e b')
    show ?thesis by (rule follow [where k = "and_then (dropping c) (\<lambda>_. fail_with (Error e))", OF m _ b 1]) (intro and_then dropping c fails)
  next
    case 2
    then show ?thesis using m b by (simp add: holds_def)
  qed
qed

lemma deferring:
  assumes m: "holds I R X m" and c: "holds I R X c"
  shows "holds I R X (deferring c m)"
  unfolding holds_def
proof (intro allI impI)
  fix b assume b: "I b"
  show "I (snd (deferring c m b)) \<and> R b (snd (deferring c m b)) \<and> (fst (deferring c m b) = Inl Panic \<longrightarrow> X)"
  proof (cases rule: deferring_cases [of m b c])
    case (1 e b')
    show ?thesis by (rule follow [where k = "and_then (dropping c) (\<lambda>_. fail_with (Error e))", OF m _ b 1]) (intro and_then dropping c fails)
  next
    case (2 x b')
    show ?thesis by (rule follow [where k = "and_then (dropping c) (\<lambda>_. done_with x)", OF m _ b 2]) (intro and_then dropping c returns)
  next
    case 3
    then show ?thesis using m b by (simp add: holds_def)
  qed
qed

end

end
