(* ===== verification/Servers.thy ===== *)
theory Servers
  imports Machines
begin

text \<open>
  The goroutines that serve what a node subscribed to: \<open>ServeStatus\<close>, \<open>serveNet\<close> and
  \<open>serveNode\<close> of \<open>handlers.go\<close>, and \<open>UpdateRoot\<close> of \<open>booster.go\<close>. Each
  subscribes (\<open>serveNode\<close> twice) and then waits for the first failure of a subscriber or for the
  end of its context. A server and the goroutines that \<open>Sub\<close> started for it meet at the
  unbuffered channel \<open>errc\<close>; a step is one atomic step of one of them, in any order. What a run
  does with a message is in \<open>Handlers\<close>; here it ends with or without an error.
\<close>

section \<open>The goroutine of a subscription\<close>

text \<open>
  It ranges over the channel of its slot and runs the command on every message. A failed run
  unsubscribes, which closes the channel and so ends the loop, and \<open>PostRun\<close> then sends the error
  on \<open>errc\<close>; when the loop ends without a failure \<open>PostRun\<close> sends nothing. The channel is
  also closed when its subscription is cancelled, and by itself when a message is not
  taken within a second, which happens while a run is going on.
\<close>

datatype sub_pc = InRange | InRun | Failing | Over

record subscriber =
  sb_pc :: sub_pc
  sb_open :: bool

datatype sub_event = Delivered | RunEnds bool | TimesOut | RangeEnds

definition subscribed :: subscriber where
  "subscribed = \<lparr>sb_pc = InRange, sb_open = True\<rparr>"

definition cancel_sub :: "subscriber \<Rightarrow> subscriber" where
  "cancel_sub b = b\<lparr>sb_open := False\<rparr>"

fun sub_step :: "sub_event \<Rightarrow> subscriber \<Rightarrow> subscriber option" where
  "sub_step Delivered b = (if sb_pc b = InRange \<and> sb_open b then Some (b\<lparr>sb_pc := InRun\<rparr>) else None)"
| "sub_step (RunEnds ok) b =
     (if sb_pc b = InRun then Some (if ok then b\<lparr>sb_pc := InRange\<rparr> else (cancel_sub b)\<lparr>sb_pc := Failing\<rparr>) else None)"
| "sub_step TimesOut b = (if sb_pc b = InRun then Some (cancel_sub b) else None)"
| "sub_step RangeEnds b = (if sb_pc b = InRange \<and> \<not> sb_open b then Some (b\<lparr>sb_pc := Over\<rparr>) else None)"

section \<open>The servers\<close>

datatype server_kind = StatusServer | NetServer | NodeServer | RootServer

datatype server_pc = Selecting | AwaitError | Finished | StuckOnError

record server =
  sv_pc :: server_pc
  sv_subs :: "subscriber list"

text \<open>
  After the calls of \<open>Sub\<close>, with their success. \<open>ServeStatus\<close> sends the error of
  \<open>Sub\<close> on \<open>errc\<close> itself, where nobody receives; the others return it, and
  \<open>serveNode\<close> leaves its first subscription behind when the second one fails.
\<close>

definition status_start :: "bool \<Rightarrow> server" where
  "status_start ok = (if ok then \<lparr>sv_pc = Selecting, sv_subs = [subscribed]\<rparr> else \<lparr>sv_pc = StuckOnError, sv_subs = []\<rparr>)"

definition net_start :: "bool \<Rightarrow> server" where
  "net_start ok = (if ok then \<lparr>sv_pc = Selecting, sv_subs = [subscribed]\<rparr> else \<lparr>sv_pc = Finished, sv_subs = []\<rparr>)"

definition node_start :: "bool \<Rightarrow> bool \<Rightarrow> server" where
  "node_start network_ok tunnels_ok =
     (if \<not> network_ok then \<lparr>sv_pc = Finished, sv_subs = []\<rparr>
      else if \<not> tunnels_ok then \<lparr>sv_pc = Finished, sv_subs = [subscribed]\<rparr>
      else \<lparr>sv_pc = Selecting, sv_subs = [subscribed, subscribed]\<rparr>)"

definition root_start :: "bool \<Rightarrow> server" where
  "root_start ok = (if ok then \<lparr>sv_pc = Selecting, sv_subs = [subscribed]\<rparr> else \<lparr>sv_pc = Finished, sv_subs = []\<rparr>)"

text \<open>
  At the end of the context \<open>ServeStatus\<close> waits for an error before it cancels; the monitor
  servers cancel first and wait then; \<open>UpdateRoot\<close> cancels and returns.
\<close>

definition cancel_all :: "server \<Rightarrow> server" where
  "cancel_all s = s\<lparr>sv_subs := map cancel_sub (sv_subs s)\<rparr>"

definition status_ctx_end :: "server \<Rightarrow> server" where
  "status_ctx_end s = s\<lparr>sv_pc := AwaitError\<rparr>"

definition net_ctx_end :: "server \<Rightarrow> server" where
  "net_ctx_end s = (cancel_all s)\<lparr>sv_pc := AwaitError\<rparr>"

definition node_ctx_end :: "server \<Rightarrow> server" where
  "node_ctx_end s = (cancel_all s)\<lparr>sv_pc := AwaitError\<rparr>"

definition root_ctx_end :: "server \<Rightarrow> server" where
  "root_ctx_end s = (cancel_all s)\<lparr>sv_pc := Finished\<rparr>"

lemmas ctx_end_defs = status_ctx_end_def net_ctx_end_def node_ctx_end_def root_ctx_end_def cancel_all_def

fun ctx_end :: "server_kind \<Rightarrow> server \<Rightarrow> server" where
  "ctx_end StatusServer s = status_ctx_end s"
| "ctx_end NetServer s = net_ctx_end s"
| "ctx_end NodeServer s = node_ctx_end s"
| "ctx_end RootServer s = root_ctx_end s"

text \<open>
  Once an error was received every server returns. \<open>ServeStatus\<close> cancels before it does so when
  its context had ended; \<open>UpdateRoot\<close> cancels in any case, by its deferred call.
\<close>

fun error_end :: "server_kind \<Rightarrow> server \<Rightarrow> server" where
  "error_end StatusServer s = (if sv_pc s = AwaitError then cancel_all s else s)\<lparr>sv_pc := Finished\<rparr>"
| "error_end NetServer s = s\<lparr>sv_pc := Finished\<rparr>"
| "error_end NodeServer s = s\<lparr>sv_pc := Finished\<rparr>"
| "error_end RootServer s = (cancel_all s)\<lparr>sv_pc := Finished\<rparr>"

datatype server_event = SubEvent nat sub_event | CtxEnds | ErrorReceived nat

fun server_step :: "server_kind \<Rightarrow> server_event \<Rightarrow> server \<Rightarrow> server option" where
  "server_step k (SubEvent i e) s =
     (if i < length (sv_subs s)
      then map_option (\<lambda>b. s\<lparr>sv_subs := (sv_subs s)[i := b]\<rparr>) (sub_step e (sv_subs s ! i)) else None)"
| "server_step k CtxEnds s = (if sv_pc s = Selecting then Some (ctx_end k s) else None)"
| "server_step k (ErrorReceived i) s =
     (if (sv_pc s = Selecting \<or> sv_pc s = AwaitError) \<and> i < length (sv_subs s) \<and> sb_pc (sv_subs s ! i) = Failing
      then Some (error_end k (s\<lparr>sv_subs := (sv_subs s)[i := (sv_subs s ! i)\<lparr>sb_pc := Over\<rparr>]\<rparr>)) else None)"

abbreviation server_exec :: "server_kind \<Rightarrow> server_event list \<Rightarrow> server \<Rightarrow> server option" where
  "server_exec k \<equiv> exec (server_step k)"

section \<open>Who can still fail\<close>

text \<open>
  A subscriber can still send an error when it is at it, when a run is going on, or when its channel
  can still bring it a message.
\<close>

definition can_fail :: "subscriber \<Rightarrow> bool" where
  "can_fail b \<longleftrightarrow> sb_pc b \<in> {InRun, Failing} \<or> sb_pc b = InRange \<and> sb_open b"

definition deaf :: "server \<Rightarrow> bool" where
  "deaf s \<longleftrightarrow> (\<forall>b \<in> set (sv_subs s). \<not> can_fail b)"

lemma can_fail_cancelled [simp]: "can_fail (cancel_sub b) \<longleftrightarrow> sb_pc b \<in> {InRun, Failing}"
  by (auto simp: can_fail_def cancel_sub_def)

lemma sub_step_silent:
  assumes "sub_step e b = Some b'" and "\<not> can_fail b"
  shows "\<not> can_fail b'"
  using assms by (cases e) (auto simp: can_fail_def split: if_splits)

text \<open>The subscriptions are cancelled or not; nothing else happens to subscribers at the end of a context.\<close>

lemma ctx_end_subs:
  "sv_subs (ctx_end k s) = (if k = StatusServer then sv_subs s else map cancel_sub (sv_subs s))"
  "sv_pc (ctx_end k s) = (if k = RootServer then Finished else AwaitError)"
  by (cases k; simp add: ctx_end_defs)+

lemma deaf_step:
  assumes "deaf s" and "server_step k e s = Some s'"
  shows "deaf s'" and "e \<noteq> CtxEnds \<Longrightarrow> sv_pc s' = sv_pc s"
proof -
  have silent: "\<not> can_fail (sv_subs s ! i)" if "i < length (sv_subs s)" for i
    using assms(1) that by (simp add: deaf_def)
  show "deaf s'"
  proof (cases e)
    case (SubEvent i f)
    then obtain b where b: "i < length (sv_subs s)" "sub_step f (sv_subs s ! i) = Some b"
        "s' = s\<lparr>sv_subs := (sv_subs s)[i := b]\<rparr>"
      using assms(2) by (auto split: if_splits)
    have "\<not> can_fail b" by (rule sub_step_silent [OF b(2) silent [OF b(1)]])
    then show ?thesis using assms(1) by (auto simp: b(3) deaf_def dest: set_update_subset_insert [THEN subsetD])
  next
    case CtxEnds
    then show ?thesis
      using assms by (auto simp: deaf_def ctx_end_subs can_fail_def cancel_sub_def split: if_splits)
  qed (use assms(2) silent in \<open>auto simp: can_fail_def split: if_splits\<close>)
  show "sv_pc s' = sv_pc s" if "e \<noteq> CtxEnds"
    using that assms(2) silent by (cases e) (auto simp: can_fail_def split: if_splits)
qed

interpretation deaf_server: preserved "server_step k" "\<lambda>s. deaf s \<and> sv_pc s = AwaitError" for k
proof
  show "deaf s' \<and> sv_pc s' = AwaitError" if "deaf s \<and> sv_pc s = AwaitError" "server_step k e s = Some s'" for s e s'
    using deaf_step [of s k e s'] that by (cases "e = CtxEnds") auto
qed

interpretation returned_server: preserved "server_step k" "\<lambda>s. sv_pc s = pc \<and> pc \<in> {Finished, StuckOnError}" for k pc
proof
  show "sv_pc s' = pc \<and> pc \<in> {Finished, StuckOnError}"
    if "sv_pc s = pc \<and> pc \<in> {Finished, StuckOnError}" "server_step k e s = Some s'" for s e s'
    using that by (cases e) (auto split: if_splits)
qed

lemma waiting_failing: "sv_pc s \<in> {Selecting, AwaitError} \<Longrightarrow> i < length (sv_subs s) \<Longrightarrow> sb_pc (sv_subs s ! i) = Failing \<Longrightarrow>
    \<exists>s'. server_exec k [ErrorReceived i] s = Some s' \<and> sv_pc s' = Finished"
  by (cases k) auto

text \<open>A server that waits for an error returns in some execution exactly if a subscriber can still fail.\<close>

lemma waiting_returns_iff:
  assumes "sv_pc s = AwaitError"
  shows "(\<exists>es s'. server_exec k es s = Some s' \<and> sv_pc s' = Finished) \<longleftrightarrow> \<not> deaf s"
proof
  assume "\<exists>es s'. server_exec k es s = Some s' \<and> sv_pc s' = Finished"
  then show "\<not> deaf s" using deaf_server.after [of k _ s] assms by fastforce
next
  assume "\<not> deaf s"
  then obtain i where i: "i < length (sv_subs s)" "can_fail (sv_subs s ! i)" by (auto simp: deaf_def in_set_conv_nth)
  let ?b = "sv_subs s ! i"
  define es where "es = (case sb_pc ?b of Failing \<Rightarrow> [] | InRun \<Rightarrow> [RunEnds False] | _ \<Rightarrow> [Delivered, RunEnds False])"
  have "\<exists>s1. server_exec k (map (SubEvent i) es) s = Some s1 \<and> sv_pc s1 = AwaitError \<and> i < length (sv_subs s1) \<and>
      sb_pc (sv_subs s1 ! i) = Failing"
    using i assms by (cases "sb_pc ?b") (auto simp: es_def can_fail_def cancel_sub_def)
  then obtain s1 where s1: "server_exec k (map (SubEvent i) es) s = Some s1" "sv_pc s1 = AwaitError"
      "i < length (sv_subs s1)" "sb_pc (sv_subs s1 ! i) = Failing" by blast
  obtain s' where "server_exec k [ErrorReceived i] s1 = Some s'" "sv_pc s' = Finished"
    using waiting_failing [of s1 i k] s1 by auto
  then have "server_exec k (map (SubEvent i) es @ [ErrorReceived i]) s = Some s' \<and> sv_pc s' = Finished"
    using s1(1) by (simp only: exec_append option.case)
  then show "\<exists>es s'. server_exec k es s = Some s' \<and> sv_pc s' = Finished" by blast
qed

section \<open>What becomes of the servers\<close>

text \<open>
  C37: Which servers return when their context ends. \<open>UpdateRoot\<close> does, with its subscription
  cancelled. \<open>serveNet\<close> and \<open>serveNode\<close> have cancelled their subscriptions and then wait for
  an error: they return in some execution exactly if at that moment a run was going on that can still
  fail, or had failed; an idle monitor server never returns. \<open>ServeStatus\<close> returns in some
  execution exactly if a subscriber can still get a message and fail at it. And a
  \<open>ServeStatus\<close> whose subscription is refused never gets to its select.
\<close>

theorem servers_at_context_end:
  assumes "sv_pc s = Selecting" and "server_exec StatusServer fs (status_start False) = Some t"
  shows "\<exists>s1. server_step k CtxEnds s = Some s1 \<and>
    ((\<exists>es s'. server_exec k es s1 = Some s' \<and> sv_pc s' = Finished) \<longleftrightarrow>
      (case k of
         RootServer \<Rightarrow> True
       | StatusServer \<Rightarrow> \<exists>b \<in> set (sv_subs s). can_fail b
       | _ \<Rightarrow> \<exists>b \<in> set (sv_subs s). sb_pc b \<in> {InRun, Failing})) \<and>
    (k = RootServer \<longrightarrow> sv_pc s1 = Finished \<and> (\<forall>b \<in> set (sv_subs s1). \<not> sb_open b)) \<and>
    sv_pc t = StuckOnError"
proof -
  let ?s1 = "ctx_end k s"
  have step: "server_step k CtxEnds s = Some ?s1" using assms(1) by simp
  have "sv_pc t = StuckOnError"
    using returned_server.after [of StatusServer fs "status_start False" t StuckOnError] assms(2) by (simp add: status_start_def)
  moreover have "(\<exists>es s'. server_exec k es ?s1 = Some s' \<and> sv_pc s' = Finished) \<longleftrightarrow> \<not> deaf ?s1" if "k \<noteq> RootServer"
    using that by (intro waiting_returns_iff) (simp add: ctx_end_subs)
  moreover have "\<exists>es s'. server_exec k es ?s1 = Some s' \<and> sv_pc s' = Finished" if "k = RootServer"
    using that by (intro exI [of _ "[]"]) (simp add: ctx_end_subs root_ctx_end_def)
  moreover have "\<not> sb_open b" if "b \<in> set (sv_subs ?s1)" "k = RootServer" for b
    using that by (auto simp: root_ctx_end_def cancel_all_def cancel_sub_def)
  ultimately show ?thesis
    using step by (cases k) (auto simp: deaf_def ctx_end_subs ctx_end_defs simp del: server_step.simps ctx_end.simps)
qed

theorem servers_at_context_end_witness:
  "\<not> (\<exists>es s'. server_exec NodeServer es (node_ctx_end (node_start True True)) = Some s' \<and> sv_pc s' = Finished)"
proof -
  let ?s = "node_start True True"
  have "sv_pc ?s = Selecting" "server_exec StatusServer [] (status_start False) = Some (status_start False)"
    by (simp_all add: node_start_def)
  from servers_at_context_end [OF this, of NodeServer] show ?thesis
    by (auto simp: node_start_def subscribed_def)
qed

text \<open>
  A run that takes longer than a second, as that of a peer which is slow to read, loses the
  subscription without an error: the server waits on, and nothing is served any more although
  its connection stays open. Only \<open>UpdateRoot\<close> ends, with its context.
\<close>

lemma timed_out_subscriber:
  assumes "k \<noteq> RootServer"
  defines "slow \<equiv> [SubEvent 0 Delivered, SubEvent 0 TimesOut, SubEvent 0 (RunEnds True), SubEvent 0 RangeEnds]"
  shows "\<exists>s. server_exec k slow (net_start True) = Some s \<and> sv_pc s = Selecting \<and>
    (\<forall>es s'. server_exec k es s = Some s' \<longrightarrow> sv_pc s' \<noteq> Finished)"
proof -
  let ?s = "\<lparr>sv_pc = Selecting, sv_subs = [\<lparr>sb_pc = Over, sb_open = False\<rparr>]\<rparr>"
  have run: "server_exec k slow (net_start True) = Some ?s"
    by (simp add: slow_def net_start_def subscribed_def cancel_sub_def)
  have pres: "preserved (server_step k) (\<lambda>s. deaf s \<and> sv_pc s \<in> {Selecting, AwaitError})"
  proof
    show "deaf s' \<and> sv_pc s' \<in> {Selecting, AwaitError}"
      if "deaf s \<and> sv_pc s \<in> {Selecting, AwaitError}" "server_step k e s = Some s'" for s e s'
      using deaf_step [of s k e s'] that assms(1) by (cases "e = CtxEnds") (auto simp: ctx_end_subs split: if_splits)
  qed
  have "deaf ?s" by (simp add: deaf_def can_fail_def)
  then have "sv_pc s' \<noteq> Finished" if "server_exec k es ?s = Some s'" for es s'
    using preserved.after [OF pres that] by auto
  then show ?thesis using run by auto
qed

text \<open>
  When \<open>serveNode\<close> returns after the failure of one subscriber, the other one stays subscribed,
  and its goroutine blocks for ever at the next message that it cannot send.
\<close>

lemma node_server_leaks:
  "\<exists>es s. server_exec NodeServer es (node_start True True) = Some s \<and> CtxEnds \<notin> set es \<and> sv_pc s = Finished \<and>
     (\<forall>fs t. server_exec NodeServer fs s = Some t \<longrightarrow> sb_pc (sv_subs t ! 1) = Failing)"
proof -
  let ?es = "[SubEvent 0 Delivered, SubEvent 0 (RunEnds False), ErrorReceived 0, SubEvent 1 Delivered, SubEvent 1 (RunEnds False)]"
  let ?s = "\<lparr>sv_pc = Finished, sv_subs = [\<lparr>sb_pc = Over, sb_open = False\<rparr>, \<lparr>sb_pc = Failing, sb_open = False\<rparr>]\<rparr>"
  have "server_exec NodeServer ?es (node_start True True) = Some ?s"
    by (simp add: node_start_def subscribed_def cancel_sub_def)
  moreover have "preserved (server_step NodeServer) (\<lambda>s. sv_pc s = Finished \<and> sb_pc (sv_subs s ! 1) = Failing)"
  proof
    show "sv_pc s' = Finished \<and> sb_pc (sv_subs s' ! 1) = Failing"
      if "sv_pc s = Finished \<and> sb_pc (sv_subs s ! 1) = Failing" "server_step NodeServer e s = Some s'" for s e s'
    proof (cases e)
      case (SubEvent i f)
      show ?thesis
        by (cases f) (use that SubEvent in \<open>auto simp: nth_list_update split: if_splits\<close>)
    qed (use that in \<open>auto split: if_splits\<close>)
  qed
  from preserved.after [OF this] have "sb_pc (sv_subs t ! 1) = Failing" if "server_exec NodeServer fs ?s = Some t" for fs t
    using that by fastforce
  ultimately show ?thesis by (intro exI [of _ ?es] exI [of _ ?s]) auto
qed

end
