(* ===== verification/Handlers.thy ===== *)
theory Handlers
  imports Booster Socks5 Servers
begin

text \<open>
  Package \<open>booster\<close>, \<open>handlers.go\<close>: what a node does with the packets of a
  connection, and what it serves to its peers (how the serving goroutines wait and end is in
  \<open>Servers\<close>). A handler's error is the one it logs; \<open>Panic\<close>
  and \<open>Hang\<close> are those of the goroutine that runs it.
\<close>

section \<open>Handlers\<close>

definition payload_of :: "env \<Rightarrow> packet \<Rightarrow> gtype \<Rightarrow> gvalue booster_step" where
  "payload_of E p ty = reading (\<lambda>b. net_decode (env_lib E) p ModulePayload ty)"

definition handle_ctrl :: "env \<Rightarrow> peer \<Rightarrow> packet \<Rightarrow> unit booster_step" where
  "handle_ctrl E pr p =
     on_failure (peer_close pr)
       (and_then (payload_of E p TCtrl) (\<lambda>v.
         case v of
           VCtrl oper \<Rightarrow>
             if oper = CtrlStop then bo_close else if oper = CtrlRestart then bo_restart else done_with ()
         | _ \<Rightarrow> fail_with Panic))"

text \<open>
  Stopping and resetting the heartbeat timer: nothing for an accepted connection, a nil
  dereference without a timer.
\<close>

definition set_timer :: "bool \<Rightarrow> peer \<Rightarrow> unit booster_step" where
  "set_timer armed pr b =
     (case pr of
        Accepted k \<Rightarrow> (Inr (), b)
      | Wired c \<Rightarrow>
         (case bc_timer (the_conn (bo_net b) c) of
            None \<Rightarrow> (Inl Panic, b)
          | Some _ \<Rightarrow> (Inr (), b\<lparr>bo_net := upd_conn c (\<lambda>x. x\<lparr>bc_timer := Some armed\<rparr>) (bo_net b)\<rparr>)))"

text \<open>
  \<open>HandleHeartbeat\<close> in two parts: up to its wait until the heartbeat expires (at time
  \<open>now\<close>), and from there on (at time \<open>later\<close>).
\<close>

definition heartbeat_received :: "env \<Rightarrow> gotime \<Rightarrow> peer \<Rightarrow> packet \<Rightarrow> payload_heartbeat booster_step" where
  "heartbeat_received E now pr p =
     on_failure (peer_close pr)
       (and_then (payload_of E p THeartbeat) (\<lambda>v.
         case v of
           VHeartbeat h \<Rightarrow>
             if hb_ttl h < now then fail_with (Error (HeartbeatExpired (hb_ttl h)))
             else and_then (set_timer False pr) (\<lambda>_. done_with h)
         | _ \<Rightarrow> fail_with Panic))"

definition heartbeat_answer :: "env \<Rightarrow> gotime \<Rightarrow> peer \<Rightarrow> payload_heartbeat \<Rightarrow> unit booster_step" where
  "heartbeat_answer E later pr h =
     on_failure (peer_close pr)
       (and_then (set_timer True pr) (\<lambda>_.
        and_then (reading (\<lambda>b. compose_heartbeat (env_lib E) later (bo_net b) (Some h))) (\<lambda>p.
        peer_send E p pr)))"

definition handle_heartbeat :: "env \<Rightarrow> gotime \<Rightarrow> gotime \<Rightarrow> peer \<Rightarrow> packet \<Rightarrow> unit booster_step" where
  "handle_heartbeat E now later pr p = and_then (heartbeat_received E now pr p) (heartbeat_answer E later pr)"

definition send_node :: "env \<Rightarrow> gotime \<Rightarrow> peer \<Rightarrow> nat \<Rightarrow> unit booster_step" where
  "send_node E now pr x =
     and_then (reading (\<lambda>b. compose_node (env_lib E) now (bo_net b) x)) (\<lambda>p. peer_send E p pr)"

definition handle_connect :: "env \<Rightarrow> gotime \<Rightarrow> peer \<Rightarrow> packet \<Rightarrow> unit booster_step" where
  "handle_connect E now pr p =
     deferring (peer_close pr)
       (and_then (payload_of E p TConnect) (\<lambda>v.
         case v of
           VConnect target \<Rightarrow>
             and_then (wire E now target) (\<lambda>tc.
             and_then (reading (\<lambda>b. Inr (bc_node (the_conn (bo_net b) tc)))) (\<lambda>x.
             send_node E now pr x))
         | _ \<Rightarrow> fail_with Panic))"

definition handle_disconnect :: "env \<Rightarrow> gotime \<Rightarrow> peer \<Rightarrow> packet \<Rightarrow> unit booster_step" where
  "handle_disconnect E now pr p =
     deferring (peer_close pr)
       (and_then (payload_of E p TDisconnect) (\<lambda>v.
         case v of
           VDisconnect i \<Rightarrow>
             and_then (reading (\<lambda>b.
                 case map_of (nw_outgoing (bo_net b)) i of
                   None \<Rightarrow> Inl (Error (UnknownIdentifier i)) | Some c \<Rightarrow> Inr c)) (\<lambda>c.
             and_then (reading (\<lambda>b. Inr (bc_node (the_conn (bo_net b) c)))) (\<lambda>x.
             and_then (\<lambda>b. (Inr (), b\<lparr>bo_net := upd_heap (upd_node x (\<lambda>v. v\<lparr>node_to_be_traced := False\<rparr>)) (bo_net b)\<rparr>)) (\<lambda>_.
             and_then (dropping (peer_close (Wired c))) (\<lambda>_.
             send_node E now pr x))))
         | _ \<Rightarrow> fail_with Panic))"

definition handle_tunnel :: "env \<Rightarrow> nat \<Rightarrow> packet \<Rightarrow> unit booster_step" where
  "handle_tunnel E c p =
     and_then (payload_of E p TProxyUpdate) (\<lambda>v.
       case v of
         VProxyUpdate u \<Rightarrow> (\<lambda>b. on_net (update_node (env_sha1 E) (bc_node (the_conn (bo_net b) c)) u True) b)
       | _ \<Rightarrow> fail_with Panic)"

section \<open>\<open>Handle\<close>\<close>

text \<open>
  The inner \<open>handler\<close>: the errors of the handlers stay in them; only a packet whose header
  cannot be decoded and an unexpected message are errors here.
\<close>

definition handle_packet :: "env \<Rightarrow> gotime \<Rightarrow> gotime \<Rightarrow> peer \<Rightarrow> packet \<Rightarrow> unit booster_step" where
  "handle_packet E now later pr p =
     and_then (reading (\<lambda>b. net_decode (env_lib E) p ModuleHeader THeader)) (\<lambda>v.
       case v of
         VHeader h \<Rightarrow>
           (let i = hdr_id h in
            if i = MessageConnect then dropping (handle_connect E now pr p)
            else if i = MessageDisconnect then dropping (handle_disconnect E now pr p)
            else if i = MessageHeartbeat then dropping (handle_heartbeat E now later pr p)
            else if i = MessageProxyUpdate then
              (case pr of Wired c \<Rightarrow> dropping (handle_tunnel E c p) | Accepted k \<Rightarrow> done_with ())
            else if i = MessageNotify then go (ServeStatusOn pr)
            else if i = MessageMonitor then go (ServeMonitorOn pr p)
            else if i = MessageCtrl then dropping (handle_ctrl E pr p)
            else fail_with (Error (UnexpectedMessage i)))
       | _ \<Rightarrow> fail_with Panic)"

text \<open>
  The loop over the packets that the consumer delivers, each with the times at which it is
  handled. When the packets end \<open>Handle\<close> returns and does not close the connection.
\<close>

fun handle_packets :: "env \<Rightarrow> peer \<Rightarrow> (gotime \<times> gotime \<times> packet) list \<Rightarrow> unit booster_step" where
  "handle_packets E pr [] b = (Inr (), b)"
| "handle_packets E pr ((now, later, p) # ps) b =
     and_then (on_failure (peer_close pr) (handle_packet E now later pr p)) (\<lambda>_. handle_packets E pr ps) b"

definition peer_consume :: "peer \<Rightarrow> unit booster_step" where
  "peer_consume pr b =
     (case pr of
        Wired c \<Rightarrow> on_net (bconn_consume c) b
      | Accepted k \<Rightarrow>
         (case conn_consume (bo_accepted b ! k) of
            (r, cn) \<Rightarrow>
              (case r of Inl e \<Rightarrow> Inl (Error (RecvFailed e)) | Inr _ \<Rightarrow> Inr (),
               b\<lparr>bo_accepted := (bo_accepted b)[k := cn]\<rparr>)))"

definition handle_conn :: "env \<Rightarrow> peer \<Rightarrow> (gotime \<times> gotime \<times> packet) list \<Rightarrow> unit booster_step" where
  "handle_conn E pr ps =
     and_then (on_failure (peer_close pr) (peer_consume pr)) (\<lambda>_. handle_packets E pr ps)"

section \<open>Serving\<close>

text \<open>What the subscribers run for a message of the pub/sub: \<open>UpdateRoot\<close> and \<open>ServeStatus\<close>.\<close>

definition update_root_run :: "env \<Rightarrow> gvalue \<Rightarrow> unit booster_step" where
  "update_root_run E v =
     (case v of
        VProxyUpdate u \<Rightarrow> (\<lambda>b. dropping (on_net (update_node (env_sha1 E) (nw_local (bo_net b)) u True)) b)
      | _ \<Rightarrow> fail_with (Error UnexpectedPayload))"

definition local_id :: "booster \<Rightarrow> string" where
  "local_id b = node_id (the_node (nw_heap (bo_net b)) (nw_local (bo_net b)))"

definition serve_status_run :: "env \<Rightarrow> gotime \<Rightarrow> peer \<Rightarrow> gvalue \<Rightarrow> unit booster_step" where
  "serve_status_run E now pr v =
     (case v of
        VProxyUpdate u \<Rightarrow>
          and_then (reading (\<lambda>b. encode_default (env_lib E) now
              (Some (VProxyUpdate (u\<lparr>pu_node_id := local_id b\<rparr>))) MessageProxyUpdate)) (\<lambda>p.
            peer_send E p pr)
      | _ \<Rightarrow> fail_with (Error UnexpectedPayload))"

definition json_meta :: "metadata" where
  "json_meta = \<lparr>encoding = EncodingJson, compression = CompressionNone, encryption = EncryptionNone\<rparr>"

definition serve_net_run :: "env \<Rightarrow> gotime \<Rightarrow> peer \<Rightarrow> bandwidth_message \<Rightarrow> unit booster_step" where
  "serve_net_run E now pr bm =
     and_then (reading (\<lambda>b. net_encode (env_lib E) now
         (Some (VNetUsage (local_id b) \<lparr>bw_node_id = '''', bw_tot = bm_tot bm, bw_bandwidth = bm_bandwidth bm,
            bw_type = (if bm_download bm then ''download'' else ''upload'')\<rparr>)) MessageNetworkUsageUpdate json_meta))
       (\<lambda>p. peer_send E p pr)"

text \<open>\<open>serveNode\<close>: the first message, and the two subscriptions, which leave the compression and encryption zero.\<close>

definition serve_node_send :: "env \<Rightarrow> gotime \<Rightarrow> peer \<Rightarrow> nat \<Rightarrow> unit booster_step" where
  "serve_node_send E now pr x =
     and_then (reading (\<lambda>b. net_encode (env_lib E) now
         (Some (VNodePtr (build_protocol_node (nw_heap (bo_net b)) x))) MessageNodeStatus json_meta))
       (\<lambda>p. peer_send E p pr)"

fun serve_nodes :: "env \<Rightarrow> gotime \<Rightarrow> peer \<Rightarrow> nat list \<Rightarrow> unit booster_step" where
  "serve_nodes E now pr [] b = (Inr (), b)"
| "serve_nodes E now pr (x # xs) b = and_then (serve_node_send E now pr x) (\<lambda>_. serve_nodes E now pr xs) b"

definition serve_node_state :: "env \<Rightarrow> gotime \<Rightarrow> peer \<Rightarrow> unit booster_step" where
  "serve_node_state E now pr =
     and_then (reading (\<lambda>b. Inr (nw_nodes (bo_net b)))) (\<lambda>(root, nodes). serve_nodes E now pr (root # nodes))"

definition serve_node_run :: "env \<Rightarrow> gotime \<Rightarrow> peer \<Rightarrow> net_message \<Rightarrow> unit booster_step" where
  "serve_node_run E now pr m =
     (let meta = \<lparr>encoding = EncodingJson, compression = 0, encryption = 0\<rparr>;
          (v, msg) = (case m of NetworkUpdated u \<Rightarrow> (VNetworkUpdate u, MessageNetworkUpdate)
                      | TunnelEvent u \<Rightarrow> (VProxyUpdate u, MessageProxyUpdate)) in
      and_then (reading (\<lambda>b. net_encode (env_lib E) now (Some v) msg meta)) (\<lambda>p. peer_send E p pr))"

section \<open>\<open>ServeMonitor\<close>\<close>

text \<open>
  The request names the feature; \<open>serve\<close> is \<open>serveNode\<close> or \<open>serveNet\<close>, which
  is waited for and whose error is logged. The connection is closed at the end.
\<close>

definition serve_monitor :: "env \<Rightarrow> (server_kind \<Rightarrow> unit booster_step) \<Rightarrow> peer \<Rightarrow> packet \<Rightarrow> unit booster_step" where
  "serve_monitor E serve pr p =
     deferring (peer_close pr)
       (and_then (payload_of E p TMonitor) (\<lambda>v.
         case v of
           VMonitor f \<Rightarrow>
             if f = MonitorNode then dropping (serve NodeServer)
             else if f = MonitorNet then dropping (serve NetServer)
             else done_with ()
         | _ \<Rightarrow> fail_with Panic))"

end
