(* ===== verification/Booster_Props.thy ===== *)
theory Booster_Props
  imports Steps Handlers Network_Props
begin

text \<open>
  What a booster node guarantees (\<open>booster.go\<close>, \<open>handlers.go\<close>): the invariant of its network is
  kept whatever its peers send; what a dial adds, and what wiring to a node establishes.
\<close>

section \<open>The invariant\<close>

text \<open>
  \<open>keeps k m\<close>: from a well-formed network with at least \<open>k\<close> connection objects the
  step leads to a well-formed one, and no connection object disappears.
\<close>

definition keeps :: "nat \<Rightarrow> 'a booster_step \<Rightarrow> bool" where
  "keeps k m \<longleftrightarrow> (\<forall>b. net_wf (bo_net b) \<longrightarrow> k \<le> length (nw_conns (bo_net b)) \<longrightarrow>
     net_wf (bo_net (snd (m b))) \<and> length (nw_conns (bo_net b)) \<le> length (nw_conns (bo_net (snd (m b)))))"

named_theorems keeps_intros "steps that keep the invariant of the network"

lemma keepsI:
  assumes "\<And>b. net_wf (bo_net b) \<Longrightarrow> k \<le> length (nw_conns (bo_net b)) \<Longrightarrow> net_wf (bo_net (snd (m b)))"
    and "\<And>b. length (nw_conns (bo_net b)) \<le> length (nw_conns (bo_net (snd (m b))))"
  shows "keeps k m"
  using assms by (simp add: keeps_def)

lemma keepsD:
  assumes "keeps k m" and "net_wf (bo_net b)" and "k \<le> length (nw_conns (bo_net b))" and "m b = (r, b')"
  shows "net_wf (bo_net b')" and "length (nw_conns (bo_net b)) \<le> length (nw_conns (bo_net b'))"
  using assms unfolding keeps_def by (metis snd_conv)+

lemma keeps_mono: "keeps j m \<Longrightarrow> j \<le> k \<Longrightarrow> keeps k m"
  unfolding keeps_def by auto

lemma keeps_idle: "(\<And>b. bo_net (snd (m b)) = bo_net b) \<Longrightarrow> keeps k m"
  by (simp add: keeps_def)

lemma keeps_done [keeps_intros]: "keeps k (done_with x)" "keeps k (fail_with e)" "keeps k (reading f)" "keeps k (go t)"
  by (simp_all add: keeps_def done_with_def fail_with_def reading_def go_def)

lemma keeps_signal [keeps_intros]: "keeps k (signal_run s)"
  by (simp add: keeps_def signal_run_def)

text \<open>It is an instance of the judgement of \<open>Steps\<close>, which has the rules for the combinators.\<close>

interpretation keeping: step_logic "\<lambda>b. net_wf (bo_net b) \<and> k \<le> length (nw_conns (bo_net b))"
    "\<lambda>b b'. length (nw_conns (bo_net b)) \<le> length (nw_conns (bo_net b'))" for k
  by unfold_locales auto

lemma keeps_holds:
  "keeps k m \<longleftrightarrow> holds (\<lambda>b. net_wf (bo_net b) \<and> k \<le> length (nw_conns (bo_net b)))
     (\<lambda>b b'. length (nw_conns (bo_net b)) \<le> length (nw_conns (bo_net b'))) True m"
  by (auto simp: keeps_def holds_def)

lemma keeps_and_then [keeps_intros]: "keeps k m \<Longrightarrow> (\<And>x. keeps k (f x)) \<Longrightarrow> keeps k (and_then m f)"
  unfolding keeps_holds by (rule keeping.and_then)

lemma keeps_dropping [keeps_intros]: "keeps k m \<Longrightarrow> keeps k (dropping m)"
  unfolding keeps_holds by (rule keeping.dropping)

lemma keeps_on_failure [keeps_intros]: "keeps k m \<Longrightarrow> keeps k c \<Longrightarrow> keeps k (on_failure c m)"
  unfolding keeps_holds by (rule keeping.on_failure)

lemma keeps_deferring [keeps_intros]: "keeps k m \<Longrightarrow> keeps k c \<Longrightarrow> keeps k (deferring c m)"
  unfolding keeps_holds by (rule keeping.deferring)

lemma keeps_on_net [keeps_intros]:
  assumes "\<And>n. net_wf n \<Longrightarrow> k \<le> length (nw_conns n) \<Longrightarrow> net_wf (snd (m n))"
    and "\<And>n. length (nw_conns n) \<le> length (nw_conns (snd (m n)))"
  shows "keeps k (on_net m)"
  using assms by (auto simp: keeps_def on_net_def split: prod.split) (metis snd_conv)+


lemma length_conns_close [simp]: "length (nw_conns (snd (bconn_close c n))) = length (nw_conns n)"
  by (auto simp: bconn_close_def Let_def split: option.split prod.splits sum.splits stop.splits)

lemma send_timeout_state:
  "snd (case bconn_close c m of (Inl Hang, n) \<Rightarrow> (Inl Hang, n) | (_, n) \<Rightarrow> (Inl (Error SendTimeout), n)) =
   snd (bconn_close c m)"
proof -
  obtain r n where "bconn_close c m = (r, n)" by fastforce
  then show ?thesis by (auto split: sum.split stop.split)
qed

lemma length_conns_send [simp]: "length (nw_conns (snd (bconn_send it ord p c n))) = length (nw_conns n)"
proof (cases "bc_conn (the_conn n c)")
  case (Some cn)
  obtain r cn' where r: "conn_send p ord cn = (r, cn')" by fastforce
  show ?thesis
    by (cases it; cases r) (simp_all add: bconn_send_def Some r send_timeout_state)
qed (simp add: bconn_send_def)

lemma length_conns_add [simp]: "length (nw_conns (snd (add_conn c n))) = length (nw_conns n)"
  by (auto simp: inserted_def Let_def intro: add_conn_cases [of n c])

lemma length_conns_consume [simp]: "length (nw_conns (snd (bconn_consume c n))) = length (nw_conns n)"
  by (auto simp: bconn_consume_def split: option.split prod.split sum.split)

lemma net_wf_consume [wf_intros]: "net_wf n \<Longrightarrow> net_wf (snd (bconn_consume c n))"
  by (auto simp: bconn_consume_def split: option.split prod.split sum.split intro!: net_wf_upd_conn)

lemma net_wf_update_node [wf_intros]:
  assumes "net_wf n" and "node_ref (nw_heap n) x"
  shows "net_wf (snd (update_node sha1 x p ack n))"
proof -
  have add: "net_wf (net_add_tunnel x t (m\<lparr>nw_heap := hp\<rparr>))"
    if "net_wf m" and "new_tunnel sha1 tgt (nw_heap m) = (t, hp)" for m t hp tgt
  proof -
    have "hp = snd (new_tunnel sha1 tgt (nw_heap m))" using that(2) by simp
    then have hp: "heap_wf hp" "node_ref hp y = node_ref (nw_heap m) y" for y
      using that(1) heap_wf_new_tunnel [of "nw_heap m" sha1 tgt]
      by (simp_all add: net_wf_def node_ref_def new_tunnel_def)
    have "heap_wf (add_tunnel x t hp)"
      using open_tunnel_wf [of "nw_heap m" sha1 x tgt] that by (auto simp: open_tunnel_def net_wf_def)
    moreover have "node_ref (add_tunnel x t hp) y = node_ref hp y" for y
      by (auto simp: add_tunnel_def Let_def split: option.split)
    ultimately show ?thesis
      using that(1) hp unfolding net_add_tunnel_def
      by (intro net_wf_upd_heap net_wf_heap_only) auto
  qed
  have rem: "net_wf (snd (net_remove_tunnel x tgt ack m))" if "net_wf m" and "node_ref (nw_heap m) x" for m tgt
  proof -
    obtain r hp where r: "remove_tunnel x tgt ack (nw_heap m) = (r, hp)" by fastforce
    then have "snd (net_remove_tunnel x tgt ack m) = m\<lparr>nw_heap := hp\<rparr>"
      by (auto simp: net_remove_tunnel_def split: sum.split)
    moreover have "heap_wf hp" "node_ref hp y = node_ref (nw_heap m) y" for y
      using r that heap_wf_remove_tunnel [of "nw_heap m" x tgt ack] node_ref_remove [of x tgt ack "nw_heap m" y]
      by (simp_all add: net_wf_def)
    ultimately show ?thesis using that by (simp add: net_wf_heap_only)
  qed
  let ?p = "p\<lparr>pu_node_id := node_id (the_node (nw_heap n) x)\<rparr>"
  let ?n = "publish (TunnelEvent ?p) n"
  have wf: "net_wf ?n" "node_ref (nw_heap ?n) x" using assms by (simp_all add: net_wf_publish)
  obtain t hp where t: "new_tunnel sha1 (pu_target p) (nw_heap ?n) = (t, hp)" by fastforce
  show ?thesis
    using rem [OF wf, of "pu_target p"] add [OF wf(1) t] wf t
    by (cases "pu_operation p = TunnelRemoved"; cases "pu_operation p = TunnelAdded") (simp_all add: update_node_def)
qed

lemma keeps_peer_close [keeps_intros]: "keeps k (peer_close pr)"
proof (cases pr)
  case (Wired c)
  have "keeps k (on_net (bconn_close c))"
    by (intro keeps_intros net_wf_close) simp_all
  then show ?thesis unfolding keeps_def by (simp add: peer_close_def Wired)
next
  case (Accepted j)
  then show ?thesis by (simp add: keeps_def peer_close_def)
qed

lemma keeps_peer_send [keeps_intros]: "keeps k (peer_send E p pr)"
proof (cases pr)
  case (Wired c)
  have "keeps k (on_net (bconn_send (env_in_time E p) (env_order E p) p c))"
    by (intro keeps_intros net_wf_send) simp_all
  then show ?thesis unfolding keeps_def by (simp add: peer_send_def Wired)
next
  case (Accepted j)
  then show ?thesis by (simp add: keeps_def peer_send_def split: prod.split)
qed

lemma keeps_peer_consume [keeps_intros]: "keeps k (peer_consume pr)"
proof (cases pr)
  case (Wired c)
  have "keeps k (on_net (bconn_consume c))"
    by (intro keeps_intros net_wf_consume) simp_all
  then show ?thesis unfolding keeps_def by (simp add: peer_consume_def Wired)
next
  case (Accepted j)
  then show ?thesis by (simp add: keeps_def peer_consume_def split: prod.split)
qed

text \<open>Steps that only write a field of a connection object or of a node that no invariant is about.\<close>

lemma keeps_set_timer [keeps_intros]: "keeps k (set_timer armed pr)" "keeps k (start_timer c)"
  by (auto simp: keeps_def set_timer_def start_timer_def net_wf_upd_conn split: peer.split option.split)

lemma net_wf_upd_node_flag:
  assumes "net_wf n" and "\<And>v. node_tunnels (f v) = node_tunnels v"
  shows "net_wf (upd_heap (upd_node x f) n)"
  using assms(1)
  by (intro net_wf_upd_heap heap_wf_upd)
     (auto simp: net_wf_def node_wf_cong [OF assms(2)] dest: heap_wf_node [rotated])

lemma keeps_flag [keeps_intros]:
  assumes "\<And>v. node_tunnels (f v) = node_tunnels v"
  shows "keeps k (\<lambda>b. (Inr (), b\<lparr>bo_net := upd_heap (upd_node x f) (bo_net b)\<rparr>))"
  using net_wf_upd_node_flag [OF _ assms] by (simp add: keeps_def)

lemma keeps_activate [keeps_intros]: "keeps k (activate c)"
proof (rule keepsI)
  fix b :: booster assume b: "net_wf (bo_net b)"
  let ?x = "bc_node (the_conn (bo_net b) c)" and ?n = "bo_net b"
  have "net_wf (upd_heap (upd_node ?x (\<lambda>v. v\<lparr>node_to_be_traced := True\<rparr>)) (upd_heap (set_is_active ?x True) ?n))"
    using b unfolding set_is_active_def by (intro net_wf_upd_node_flag) simp_all
  moreover have "bo_net (snd (activate c b)) =
      upd_heap (upd_node ?x (\<lambda>v. v\<lparr>node_to_be_traced := True\<rparr>)) (upd_heap (set_is_active ?x True) ?n)"
    by (simp add: activate_def Let_def upd_heap_def)
  ultimately show "net_wf (bo_net (snd (activate c b)))" by simp
qed (simp add: activate_def Let_def)

lemma net_wf_close_untraced [wf_intros]: "net_wf n \<Longrightarrow> net_wf (close_untraced c n)"
  unfolding close_untraced_def by (intro net_wf_close net_wf_upd_node_flag) simp_all

lemma close_untraced_conns [simp]: "length (nw_conns (close_untraced c n)) = length (nw_conns n)"
  by (simp add: close_untraced_def)

lemma close_all_wf: "net_wf n \<Longrightarrow> net_wf (fold (\<lambda>(k, c). close_untraced c) xs n)"
  by (induction xs arbitrary: n) (simp_all add: case_prod_unfold net_wf_close_untraced)

lemma close_all_conns [simp]: "length (nw_conns (fold (\<lambda>(k, c). close_untraced c) xs n)) = length (nw_conns n)"
  by (induction xs arbitrary: n) (simp_all add: case_prod_unfold)

lemma keeps_restart [keeps_intros]: "keeps k bo_restart" "keeps k bo_close"
  by (simp_all add: keeps_def bo_restart_def bo_close_def signal_run_def close_all_wf)

text \<open>The two outcomes of \<open>RecvHello\<close>.\<close>

lemma recv_hello_cases:
  obtains e where "recv_hello E cn raddr n = (Inl e, n)"
  | cn' h host x hp where "(\<exists>p. conn_recv cn = (Inr p, cn') \<and> net_decode (env_lib E) p ModulePayload THello = Inr (VHello h))"
      and "host = (case split_host_port raddr of None \<Rightarrow> '''' | Some (host, _) \<Rightarrow> host)"
      and "new_node (env_sha1 E) (env_resolve E) host (he_pport h) (he_bport h) False (nw_heap n) = (Inr x, hp)"
      and "recv_hello E cn raddr n =
        (Inr (length (nw_conns n)), snd (new_conn cn' x (node_id (the_node hp x)) (n\<lparr>nw_heap := hp\<rparr>)))"
proof -
  obtain r cn' where r: "conn_recv cn = (r, cn')" by fastforce
  show ?thesis
  proof (cases r)
    case (Inl e)
    then show ?thesis using r that(1) by (simp add: recv_hello_def)
  next
    case (Inr p)
    show ?thesis
    proof (cases "\<exists>h. net_decode (env_lib E) p ModulePayload THello = Inr (VHello h)")
      case True
      then obtain h where h: "net_decode (env_lib E) p ModulePayload THello = Inr (VHello h)" ..
      let ?host = "case split_host_port raddr of None \<Rightarrow> '''' | Some (host, _) \<Rightarrow> host"
      obtain s hp where s: "new_node (env_sha1 E) (env_resolve E) ?host (he_pport h) (he_bport h) False (nw_heap n) = (s, hp)"
        by fastforce
      show ?thesis
      proof (cases s)
        case (Inl e)
        then show ?thesis using r \<open>r = Inr p\<close> h s that(1) by (simp add: recv_hello_def Let_def)
      next
        case (Inr x)
        then show ?thesis using r \<open>r = Inr p\<close> h s that(2) [of cn' h ?host x hp]
          by (simp add: recv_hello_def Let_def new_conn_def)
      qed
    next
      case False
      have "\<exists>e. recv_hello E cn raddr n = (Inl e, n)"
      proof (cases "net_decode (env_lib E) p ModulePayload THello")
        case (Inr v)
        then show ?thesis using False r \<open>r = Inr p\<close> by (cases v) (auto simp: recv_hello_def)
      qed (use r Inr in \<open>simp add: recv_hello_def\<close>)
      then show ?thesis using that(1) by blast
    qed
  qed
qed

lemma new_node_extends:
  assumes "new_node sha1 resolve host pp bp loc hp = (Inr x, hp')" and "heap_wf hp"
  shows "heap_wf hp'" and "node_ref hp' x" and "node_ref hp y \<Longrightarrow> node_ref hp' y"
  using assms heap_wf_new_node [OF assms(2), of sha1 resolve host pp bp loc]
  by (auto simp: new_node_def node_ref_def split: option.splits)

lemma net_wf_recv_hello [wf_intros]:
  assumes "net_wf n"
  shows "net_wf (snd (recv_hello E cn raddr n))"
proof (cases rule: recv_hello_cases [of E cn raddr n])
  case (2 cn' h host x hp)
  have wf: "heap_wf (nw_heap n)" using assms by (simp add: net_wf_def)
  have "net_wf (n\<lparr>nw_heap := hp\<rparr>)"
    using new_node_extends [OF 2(3) wf] by (intro net_wf_heap_only assms) auto
  then have "net_wf (snd (new_conn cn' x (node_id (the_node hp x)) (n\<lparr>nw_heap := hp\<rparr>)))"
    using new_node_extends(2) [OF 2(3) wf] by (intro new_conn_wf) simp_all
  then show ?thesis using 2(4) by simp
qed (simp add: assms)

lemma recv_hello_conns:
  "length (nw_conns n) \<le> length (nw_conns (snd (recv_hello E cn raddr n)))"
  "recv_hello E cn raddr n = (Inr c, n') \<Longrightarrow> c < length (nw_conns n')"
  by (cases rule: recv_hello_cases [of E cn raddr n]; auto simp: new_conn_def)+

lemma keeps_dial [keeps_intros]: "keeps k (dial_booster E addr)"
proof (cases "net_dial default_net_config (env_dial E addr)")
  case (Inr d)
  obtain cn raddr where d: "d = (cn, raddr)" by fastforce
  have "keeps k (on_net (recv_hello E cn raddr))"
    by (intro keeps_intros net_wf_recv_hello recv_hello_conns)
  then show ?thesis unfolding keeps_def by (simp add: dial_booster_def Inr d)
qed (simp add: keeps_def dial_booster_def)

lemma dial_conn:
  assumes "dial_booster E addr b = (Inr c, b')"
  shows "c < length (nw_conns (bo_net b'))"
  using assms recv_hello_conns(2) unfolding dial_booster_def on_net_def
  by (fastforce split: sum.splits prod.splits)

text \<open>\<open>Wire\<close> after the dial, and as a whole.\<close>

lemma keeps_wiring:
  "keeps (Suc c) (and_then
         (on_failure (peer_close (Wired c))
           (and_then (on_net (add_conn c)) (\<lambda>_.
            and_then (reading f) (\<lambda>p.
            and_then (peer_send E p (Wired c)) (\<lambda>_.
            and_then (reading g) (\<lambda>p.
            peer_send E p (Wired c)))))))
         (\<lambda>_. and_then (start_timer c) (\<lambda>_. and_then (activate c) (\<lambda>_.
            and_then (go (HandleConn (Wired c))) (\<lambda>_. done_with c)))))"
  by (intro keeps_intros net_wf_add_conn) simp_all

lemma keeps_wire [keeps_intros]: "keeps k (wire E now target)"
  unfolding keeps_def
proof (intro allI impI)
  fix b :: booster assume b: "net_wf (bo_net b)" "k \<le> length (nw_conns (bo_net b))"
  obtain r b' where r: "dial_booster E target b = (r, b')" by fastforce
  note b' = keepsD [OF keeps_dial b r]
  show "net_wf (bo_net (snd (wire E now target b))) \<and>
      length (nw_conns (bo_net b)) \<le> length (nw_conns (bo_net (snd (wire E now target b))))"
  proof (cases r)
    case (Inl e)
    then show ?thesis using r b' by (simp add: wire_def and_then_def)
  next
    case (Inr c)
    then have "Suc c \<le> length (nw_conns (bo_net b'))" using dial_conn r by fastforce
    from keeps_wiring [unfolded keeps_def, rule_format, OF b'(1) this] r Inr b'(2)
    show ?thesis unfolding wire_def by (subst (1 2) and_then_def) (fastforce intro: order_trans)
  qed
qed

section \<open>The handlers keep the invariant\<close>

definition peer_bound :: "peer \<Rightarrow> nat" where
  "peer_bound pr = (case pr of Wired c \<Rightarrow> Suc c | Accepted k \<Rightarrow> 0)"

lemma keeps_send_node [keeps_intros]: "keeps k (send_node E now pr x)"
  unfolding send_node_def by (intro keeps_intros)

lemma keeps_case_gvalue:
  assumes "\<And>v. keeps k (f v)"
  shows "keeps k (and_then (payload_of E p ty) f)"
  unfolding payload_of_def by (intro keeps_intros assms)

lemma keeps_update_node [keeps_intros]:
  "keeps (Suc c) (\<lambda>b. on_net (update_node sha1 (bc_node (the_conn (bo_net b) c)) u True) b)"
proof (rule keepsI)
  fix b :: booster assume "net_wf (bo_net b)" "Suc c \<le> length (nw_conns (bo_net b))"
  then have "net_wf (snd (update_node sha1 (bc_node (the_conn (bo_net b) c)) u True (bo_net b)))"
    by (intro net_wf_update_node net_wf_conn) simp_all
  then show "net_wf (bo_net (snd (on_net (update_node sha1 (bc_node (the_conn (bo_net b) c)) u True) b)))"
    by (simp add: on_net_def case_prod_unfold)
qed (simp add: on_net_def case_prod_unfold update_node_other)

lemma keeps_handle_ctrl [keeps_intros]: "keeps k (handle_ctrl E pr p)"
  unfolding handle_ctrl_def
  by (intro keeps_on_failure keeps_case_gvalue keeps_peer_close) (auto split: gvalue.split intro!: keeps_intros)

lemma keeps_heartbeat [keeps_intros]: "keeps k (handle_heartbeat E now later pr p)"
proof -
  have "keeps k (heartbeat_received E now pr p)"
    unfolding heartbeat_received_def
    by (intro keeps_on_failure keeps_case_gvalue keeps_peer_close) (auto split: gvalue.split intro!: keeps_intros)
  moreover have "keeps k (heartbeat_answer E later pr h)" for h
    unfolding heartbeat_answer_def by (intro keeps_intros)
  ultimately show ?thesis unfolding handle_heartbeat_def by (rule keeps_and_then)
qed

lemma keeps_handle_connect [keeps_intros]: "keeps k (handle_connect E now pr p)"
  unfolding handle_connect_def
  by (intro keeps_deferring keeps_case_gvalue keeps_peer_close) (auto split: gvalue.split intro!: keeps_intros)

lemma keeps_handle_disconnect [keeps_intros]: "keeps k (handle_disconnect E now pr p)"
  unfolding handle_disconnect_def
  by (intro keeps_deferring keeps_case_gvalue keeps_peer_close) (auto split: gvalue.split intro!: keeps_intros)

lemma keeps_handle_tunnel [keeps_intros]: "keeps (Suc c) (handle_tunnel E c p)"
  unfolding handle_tunnel_def
  by (intro keeps_case_gvalue) (auto split: gvalue.split intro!: keeps_intros)

lemma keeps_handle_packet [keeps_intros]: "keeps (peer_bound pr) (handle_packet E now later pr p)"
  unfolding handle_packet_def Let_def
proof (intro keeps_and_then keeps_done)
  fix v
  show "keeps (peer_bound pr) (case v of
         VHeader h \<Rightarrow>
           if hdr_id h = MessageConnect then dropping (handle_connect E now pr p)
            else if hdr_id h = MessageDisconnect then dropping (handle_disconnect E now pr p)
            else if hdr_id h = MessageHeartbeat then dropping (handle_heartbeat E now later pr p)
            else if hdr_id h = MessageProxyUpdate then
              (case pr of Wired c \<Rightarrow> dropping (handle_tunnel E c p) | Accepted k \<Rightarrow> done_with ())
            else if hdr_id h = MessageNotify then go (ServeStatusOn pr)
            else if hdr_id h = MessageMonitor then go (ServeMonitorOn pr p)
            else if hdr_id h = MessageCtrl then dropping (handle_ctrl E pr p)
            else fail_with (Error (UnexpectedMessage (hdr_id h)))
       | _ \<Rightarrow> fail_with Panic)"
    by (cases v; cases pr) (simp_all add: peer_bound_def keeps_intros)
qed

lemma keeps_handle_packets [keeps_intros]: "keeps (peer_bound pr) (handle_packets E pr ps)"
proof (induction ps)
  case Nil
  then show ?case by (intro keeps_idle) simp
next
  case (Cons x ps)
  obtain now later p where x: "x = (now, later, p)" by (cases x) auto
  have "handle_packets E pr (x # ps) =
      and_then (on_failure (peer_close pr) (handle_packet E now later pr p)) (\<lambda>_. handle_packets E pr ps)"
    by (rule ext) (simp add: x)
  then show ?case by (simp only:) (intro keeps_intros Cons.IH)
qed

section \<open>Properties of a node\<close>

text \<open>
  Whatever packets a peer sends, in whatever order and at whatever times, handling them keeps the
  node's network well formed: the node heap with positive tunnel counts, the connection table with
  distinct identifiers that point to connections of that identifier, and the tracer; and no
  connection object disappears.
\<close>

theorem handlers_keep_network:
  assumes "net_wf (bo_net b)" and "case pr of Wired c \<Rightarrow> c < length (nw_conns (bo_net b)) | Accepted k \<Rightarrow> True"
  shows "net_wf (bo_net (snd (handle_conn E pr ps b))) \<and>
    length (nw_conns (bo_net b)) \<le> length (nw_conns (bo_net (snd (handle_conn E pr ps b))))"
proof -
  have "keeps (peer_bound pr) (handle_conn E pr ps)"
    unfolding handle_conn_def by (intro keeps_intros)
  moreover have "peer_bound pr \<le> length (nw_conns (bo_net b))"
    using assms(2) by (cases pr) (simp_all add: peer_bound_def)
  ultimately show ?thesis using assms(1) by (simp add: keeps_def)
qed

section \<open>Dialling and wiring\<close>

text \<open>
  A successful dial adds a connection object and a node, both fresh: the node is inactive, not to
  be traced and without tunnels, and its identifier is that of the connection.
\<close>

definition fresh_link :: "conn \<Rightarrow> node \<Rightarrow> network \<Rightarrow> network" where
  "fresh_link cn v n = n\<lparr>nw_heap := (nw_heap n)\<lparr>heap_nodes := heap_nodes (nw_heap n) @ [v]\<rparr>,
     nw_conns := nw_conns n @ [\<lparr>bc_id = node_id v, bc_booster_id = nw_booster_id n,
       bc_node = length (heap_nodes (nw_heap n)), bc_conn = Some cn, bc_timer = None\<rparr>]\<rparr>"

lemma fresh_link_simps [simp]:
  "nw_outgoing (fresh_link cn v n) = nw_outgoing n"
  "nw_published (fresh_link cn v n) = nw_published n"
  "length (nw_conns (fresh_link cn v n)) = Suc (length (nw_conns n))"
  "length (heap_nodes (nw_heap (fresh_link cn v n))) = Suc (length (heap_nodes (nw_heap n)))"
  "the_conn (fresh_link cn v n) (length (nw_conns n)) = \<lparr>bc_id = node_id v, bc_booster_id = nw_booster_id n,
     bc_node = length (heap_nodes (nw_heap n)), bc_conn = Some cn, bc_timer = None\<rparr>"
  "the_node (nw_heap (fresh_link cn v n)) (length (heap_nodes (nw_heap n))) = v"
  by (simp_all add: fresh_link_def the_conn_def the_node_def)

lemma fresh_link_old: "d < length (nw_conns n) \<Longrightarrow> the_conn (fresh_link cn v n) d = the_conn n d"
  by (simp add: fresh_link_def the_conn_def nth_append)

lemma dial_booster_fresh:
  assumes "dial_booster E addr b = (Inr c, b')"
  obtains cn v where "c = length (nw_conns (bo_net b))" and "b' = b\<lparr>bo_net := fresh_link cn v (bo_net b)\<rparr>"
    and "\<not> node_active v" and "\<not> node_to_be_traced v" and "node_tunnels v = []"
proof -
  obtain cn raddr where d: "net_dial default_net_config (env_dial E addr) = Inr (cn, raddr)"
    using assms by (auto simp: dial_booster_def split: sum.splits)
  then have b': "b' = b\<lparr>bo_net := snd (recv_hello E cn raddr (bo_net b))\<rparr>"
      "fst (recv_hello E cn raddr (bo_net b)) = Inr c"
    using assms by (auto simp: dial_booster_def on_net_def split: prod.splits)
  show ?thesis
  proof (cases rule: recv_hello_cases [of E cn raddr "bo_net b"])
    case (2 cn' h host x hp)
    obtain v where v: "x = length (heap_nodes (nw_heap (bo_net b)))"
        "hp = (nw_heap (bo_net b))\<lparr>heap_nodes := heap_nodes (nw_heap (bo_net b)) @ [v]\<rparr>"
        "\<not> node_active v" "\<not> node_to_be_traced v" "node_tunnels v = []"
      using 2(3) by (auto simp: new_node_def split: option.splits)
    then show ?thesis using that [of cn' v] b' 2(4) by (simp add: new_conn_def the_node_def fresh_link_def)
  qed (use b' in simp)
qed

lemma network_update_remote:
  "\<exists>u. network_update oper x n = NetworkUpdated u \<and> nu_operation u = oper \<and>
     map_option pn_id (nu_remote_node u) = Some (node_id (the_node (nw_heap n) x))"
  by (simp add: network_update_def build_protocol_node_def)

lemma node_id_active [simp]: "node_id (the_node (set_is_active x a hp) y) = node_id (the_node hp y)"
  by (cases "y < length (heap_nodes hp)"; cases "x < length (heap_nodes hp)")
     (auto simp: set_is_active_def upd_node_def the_node_def nth_list_update list_update_beyond)

text \<open>Closing the connection of a node that is not to be traced.\<close>

definition closed_link :: "nat \<Rightarrow> network \<Rightarrow> network" where
  "closed_link c n =
     (let x = bc_node (the_conn n c);
          m = upd_heap (set_is_active x False) (upd_conn c (\<lambda>b. b\<lparr>bc_conn := None\<rparr>) n) in
      publish (network_update NodeRemoved x m) m)"

lemma bconn_close_untraced:
  assumes "bc_conn (the_conn n c) \<noteq> None" and "\<not> node_to_be_traced (the_node (nw_heap n) (bc_node (the_conn n c)))"
  shows "bconn_close c n = (Inr (), closed_link c n)"
proof -
  have "node_to_be_traced (the_node (set_is_active x False hp) y) = node_to_be_traced (the_node hp y)" for x y hp
    by (cases "y < length (heap_nodes hp)"; cases "x < length (heap_nodes hp)")
       (auto simp: set_is_active_def upd_node_def the_node_def nth_list_update list_update_beyond)
  then show ?thesis
    using assms by (auto simp: bconn_close_def closed_link_def Let_def)
qed

lemma closed_link_simps:
  assumes "c < length (nw_conns n)"
  shows "nw_outgoing (closed_link c n) = nw_outgoing n" and "nw_tracer (closed_link c n) = nw_tracer n"
    and "bc_conn (the_conn (closed_link c n) c) = None"
    and "bc_node (the_conn (closed_link c n) d) = bc_node (the_conn n d)"
    and "d \<noteq> c \<Longrightarrow> the_conn (closed_link c n) d = the_conn n d"
    and "node_to_be_traced (the_node (nw_heap (closed_link c n)) y) = node_to_be_traced (the_node (nw_heap n) y)"
    and "y \<noteq> bc_node (the_conn n c) \<Longrightarrow> is_active (nw_heap (closed_link c n)) y = is_active (nw_heap n) y"
    and "\<exists>u. nw_published (closed_link c n) = nw_published n @ [NetworkUpdated u] \<and> nu_operation u = NodeRemoved \<and>
      map_option pn_id (nu_remote_node u) = Some (node_id (the_node (nw_heap n) (bc_node (the_conn n c))))"
proof -
  show "bc_node (the_conn (closed_link c n) d) = bc_node (the_conn n d)"
    "bc_conn (the_conn (closed_link c n) c) = None"
    using assms by (simp_all add: closed_link_def Let_def the_conn_upd)
  show "d \<noteq> c \<Longrightarrow> the_conn (closed_link c n) d = the_conn n d"
    using assms by (simp add: closed_link_def Let_def the_conn_upd)
  show "node_to_be_traced (the_node (nw_heap (closed_link c n)) y) = node_to_be_traced (the_node (nw_heap n) y)"
    by (cases "y < length (heap_nodes (nw_heap n))"; cases "bc_node (the_conn n c) < length (heap_nodes (nw_heap n))")
       (auto simp: closed_link_def Let_def set_is_active_def upd_node_def the_node_def nth_list_update list_update_beyond)
  show "y \<noteq> bc_node (the_conn n c) \<Longrightarrow> is_active (nw_heap (closed_link c n)) y = is_active (nw_heap n) y"
    by (simp add: closed_link_def Let_def set_is_active_def upd_node_def is_active_def the_node_def)
  let ?m = "upd_heap (set_is_active (bc_node (the_conn n c)) False) (upd_conn c (\<lambda>b. b\<lparr>bc_conn := None\<rparr>) n)"
  show "\<exists>u. nw_published (closed_link c n) = nw_published n @ [NetworkUpdated u] \<and> nu_operation u = NodeRemoved \<and>
      map_option pn_id (nu_remote_node u) = Some (node_id (the_node (nw_heap n) (bc_node (the_conn n c))))"
    using network_update_remote [of NodeRemoved "bc_node (the_conn n c)" ?m] by (auto simp: closed_link_def Let_def)
qed (simp_all add: closed_link_def Let_def)

lemma closed_link_inactive:
  assumes "net_wf n" and "c < length (nw_conns n)"
  shows "\<not> is_active (nw_heap (closed_link c n)) (bc_node (the_conn n c))"
    and "bc_node (the_conn n c) \<notin> set (snd (nw_nodes (closed_link c n)))"
proof -
  show "\<not> is_active (nw_heap (closed_link c n)) (bc_node (the_conn n c))"
    using net_wf_conn [OF assms]
    by (simp add: closed_link_def Let_def is_active_def the_node_def set_is_active_def upd_node_def node_ref_def)
  then show "bc_node (the_conn n c) \<notin> set (snd (nw_nodes (closed_link c n)))" by (auto simp: nw_nodes_def)
qed

text \<open>Closing a link that was never registered leaves the nodes on offer as they were.\<close>

lemma closed_fresh_link_nodes:
  assumes "net_wf n"
  shows "nw_nodes (closed_link (length (nw_conns n)) (fresh_link cn v n)) = nw_nodes n"
proof -
  let ?f = "fresh_link cn v n"
  let ?m = "closed_link (length (nw_conns n)) ?f"
  have len: "length (nw_conns n) < length (nw_conns ?f)" by simp
  have "the_conn ?m d = the_conn n d" "is_active (nw_heap ?m) (bc_node (the_conn n d)) = is_active (nw_heap n) (bc_node (the_conn n d))"
    if "(i, d) \<in> set (nw_outgoing n)" for i d
  proof -
    have d: "d < length (nw_conns n)" using assms that by (auto simp: net_wf_def)
    then show "the_conn ?m d = the_conn n d"
      using closed_link_simps(5) [OF len, of d] fresh_link_old [OF d] by simp
    have x: "bc_node (the_conn n d) < length (heap_nodes (nw_heap n))"
      using net_wf_conn [OF assms d] by (simp add: node_ref_def)
    then have "is_active (nw_heap ?m) (bc_node (the_conn n d)) = is_active (nw_heap ?f) (bc_node (the_conn n d))"
      by (intro closed_link_simps(7) [OF len]) simp
    then show "is_active (nw_heap ?m) (bc_node (the_conn n d)) = is_active (nw_heap n) (bc_node (the_conn n d))"
      using x by (simp add: is_active_def the_node_def fresh_link_def nth_append)
  qed
  moreover have "nw_local ?m = nw_local n" "nw_outgoing ?m = nw_outgoing n"
    by (simp_all add: closed_link_def fresh_link_def Let_def)
  ultimately show ?thesis
    by (auto simp: nw_nodes_def intro!: map_cong filter_cong split: prod.splits)
qed

lemma wire_refused:
  assumes "dial_booster E target b = (Inr c, b1)" and "add_conn c (bo_net b1) = (Inl (Error x), bo_net b1)"
    and "bconn_close c (bo_net b1) = (Inr (), m)"
  shows "wire E now target b = (Inl (Error x), b1\<lparr>bo_net := m\<rparr>)"
proof -
  have "on_failure (peer_close (Wired c)) (and_then (on_net (add_conn c)) f) b1 = (Inl (Error x), b1\<lparr>bo_net := m\<rparr>)"
    for f :: "unit \<Rightarrow> unit booster_step"
    by (simp add: on_failure_def and_then_def fail_with_def on_net_def assms(2,3) dropping_def peer_close_def)
  then show ?thesis
    unfolding wire_def
    by (subst and_then_def) (simp only: assms(1) prod.case sum.case, subst and_then_def, simp only: prod.case sum.case)
qed

text \<open>
  Wiring to a node that is already connected: the new connection is refused and closed, and the
  connected one is untouched, still registered and still offered by \<open>Nodes\<close>; yet its
  removal is announced, by one "node removed" event with the identifier that both have.
\<close>

theorem duplicate_wire_announces_removal:
  assumes "net_wf (bo_net b)" and "dial_booster E target b = (Inr c, b1)"
    and "map_of (nw_outgoing (bo_net b)) (bc_id (the_conn (bo_net b1) c)) = Some cc"
    and "bc_conn (the_conn (bo_net b) cc) \<noteq> None"
  shows "\<exists>b' u. wire E now target b = (Inl (Error (ConnectionPresent (bc_id (the_conn (bo_net b1) c)))), b') \<and>
    nw_nodes (bo_net b') = nw_nodes (bo_net b) \<and> nw_outgoing (bo_net b') = nw_outgoing (bo_net b) \<and>
    the_conn (bo_net b') cc = the_conn (bo_net b) cc \<and> bc_conn (the_conn (bo_net b') c) = None \<and>
    nw_published (bo_net b') = nw_published (bo_net b) @ [NetworkUpdated u] \<and> nu_operation u = NodeRemoved \<and>
    map_option pn_id (nu_remote_node u) = Some (bc_id (the_conn (bo_net b1) c)) \<and> bo_tasks b' = bo_tasks b"
proof -
  let ?n = "bo_net b"
  from dial_booster_fresh [OF assms(2)] obtain cn v where c: "c = length (nw_conns ?n)"
    and b1: "b1 = b\<lparr>bo_net := fresh_link cn v ?n\<rparr>" and v: "\<not> node_to_be_traced v" .
  let ?f = "fresh_link cn v ?n"
  let ?m = "closed_link c ?f"
  have cc: "cc < length (nw_conns ?n)" using assms(1,3) by (auto simp: net_wf_def dest!: map_of_SomeD)
  have len: "c < length (nw_conns ?f)" by (simp add: c)
  have "add_conn c ?f = (Inl (Error (ConnectionPresent (node_id v))), ?f)"
    using assms(3,4) fresh_link_old [OF cc] by (simp add: add_conn_def b1 c)
  moreover have "bconn_close c ?f = (Inr (), ?m)" by (rule bconn_close_untraced) (simp_all add: c v)
  ultimately have "wire E now target b = (Inl (Error (ConnectionPresent (node_id v))), b\<lparr>bo_net := ?m\<rparr>)"
    using wire_refused [OF assms(2)] by (simp add: b1)
  moreover obtain u where "nw_published ?m = nw_published ?n @ [NetworkUpdated u]" "nu_operation u = NodeRemoved"
      "map_option pn_id (nu_remote_node u) = Some (node_id v)"
    using closed_link_simps(8) [OF len] by (auto simp: c)
  ultimately show ?thesis
    using closed_fresh_link_nodes [OF assms(1), of cn v] closed_link_simps(1,3) [OF len] closed_link_simps(5) [OF len, of cc] fresh_link_old [OF cc] cc
    by (intro exI [of _ "b\<lparr>bo_net := ?m\<rparr>"] exI [of _ u]) (simp add: b1 c)
qed

text \<open>A node that is connected to 10.0.0.2 and can dial it again.\<close>

definition hello_bytes :: bytes where
  "hello_bytes = fst (c_out (snd (conn_send hello_packet (map snd (pkt_modules hello_packet)) demo_conn)))"

definition demo_env :: env where
  "demo_env = \<lparr>env_lib = net_lib, env_sha1 = demo_sha1, env_resolve = Some,
     env_dial = (\<lambda>addr. Inr (((hello_bytes, EOF), ([], None)), ''10.0.0.2:50000'')),
     env_order = (\<lambda>p. map snd (pkt_modules p)), env_in_time = (\<lambda>p. True)\<rparr>"

definition demo_booster :: booster where
  "demo_booster = \<lparr>bo_id = ''b'', bo_net = demo_network, bo_accepted = [demo_conn], bo_tasks = [], bo_run = Waiting\<rparr>"

lemma demo_booster_wf: "net_wf (bo_net demo_booster)"
  by (simp add: demo_booster_def demo_network_wf)

theorem duplicate_wire_announces_removal_witness:
  "fst (wire demo_env 0 ''10.0.0.2:4884'' demo_booster) = Inl (Error (ConnectionPresent ''10.0.0.248841080'')) \<and>
   nw_nodes (bo_net (snd (wire demo_env 0 ''10.0.0.2:4884'' demo_booster))) = nw_nodes demo_network"
proof -
  let ?b1 = "snd (dial_booster demo_env ''10.0.0.2:4884'' demo_booster)"
  have d: "dial_booster demo_env ''10.0.0.2:4884'' demo_booster = (Inr 1, ?b1)"
    and i: "bc_id (the_conn (bo_net ?b1) 1) = ''10.0.0.248841080''"
    and r: "map_of (nw_outgoing (bo_net demo_booster)) ''10.0.0.248841080'' = Some 0"
    and o: "bc_conn (the_conn (bo_net demo_booster) 0) \<noteq> None" by code_simp+
  from duplicate_wire_announces_removal [OF demo_booster_wf d r [folded i] o, of 0] i show ?thesis
    by (auto simp: demo_booster_def)
qed

text \<open>Walking through a successful sequence of steps.\<close>

lemma and_then_InrE':
  assumes "and_then m f b = (Inr y, b'')"
  obtains x b' where "m b = (Inr x, b')" and "f x b' = (Inr y, b'')"
  using assms by (rule and_then_InrE)

lemma on_failure_Inr: "on_failure c m b = (Inr x, b') \<longleftrightarrow> m b = (Inr x, b')"
proof -
  obtain r b1 where "m b = (r, b1)" by fastforce
  then show ?thesis
    by (cases r) (auto simp: on_failure_def and_then_def fail_with_def split: stop.splits sum.splits prod.splits)
qed

lemma reading_Inr: "reading f b = (Inr x, b') \<longleftrightarrow> f b = Inr x \<and> b' = b"
  by (auto simp: reading_def)

lemma peer_send_Wired_Inr:
  assumes "peer_send E p (Wired c) b = (Inr (), b')"
  obtains cn cn' where "bc_conn (the_conn (bo_net b) c) = Some cn" and "conn_send p (env_order E p) cn = (Inr (), cn')"
    and "b' = b\<lparr>bo_net := upd_conn c (\<lambda>x. x\<lparr>bc_conn := Some cn'\<rparr>) (bo_net b)\<rparr>"
proof -
  obtain n' where n': "bconn_send (env_in_time E p) (env_order E p) p c (bo_net b) = (Inr (), n')" "b' = b\<lparr>bo_net := n'\<rparr>"
    using assms by (auto simp: peer_send_def on_net_def split: prod.splits)
  then obtain cn where cn: "bc_conn (the_conn (bo_net b) c) = Some cn"
    by (auto simp: bconn_send_def split: option.splits)
  obtain r cn' where r: "conn_send p (env_order E p) cn = (r, cn')" by fastforce
  show ?thesis
    using n' cn r that by (auto simp: bconn_send_def Let_def split: if_splits sum.splits prod.splits stop.splits)
qed

lemma add_conn_Inr:
  assumes "add_conn c n = (Inr (), n')"
  obtains m where "n' = inserted c m" and "m = n \<or> (\<exists>y. m = upd_heap (copy_tunnels y (bc_node (the_conn n c))) n)"
  using assms by (cases rule: add_conn_cases [of n c]) auto

lemma the_node_copy_tunnels:
  "node_active (the_node (copy_tunnels y z hp) x) = node_active (the_node hp x)"
  "length (heap_nodes (copy_tunnels y z hp)) = length (heap_nodes hp)"
  by (cases "z < length (heap_nodes hp)"; auto simp: copy_tunnels_def upd_node_def the_node_def nth_list_update list_update_beyond)+

lemma wire_Inr:
  assumes "wire E now target b = (Inr c, b')"
  obtains b1 b2 b3 b4 p q where "dial_booster E target b = (Inr c, b1)"
    and "on_net (add_conn c) b1 = (Inr (), b2)"
    and "peer_send E p (Wired c) b2 = (Inr (), b3)" and "peer_send E q (Wired c) b3 = (Inr (), b4)"
    and "b' = snd (go (HandleConn (Wired c)) (snd (activate c (snd (start_timer c b4)))))"
proof -
  from and_then_InrE' [OF assms [unfolded wire_def]] obtain k b1 where d: "dial_booster E target b = (Inr k, b1)"
    and r1: "and_then
         (on_failure (peer_close (Wired k))
           (and_then (on_net (add_conn k)) (\<lambda>_.
            and_then (reading (\<lambda>b. encode_default (env_lib E) now None MessageNotify)) (\<lambda>p.
            and_then (peer_send E p (Wired k)) (\<lambda>_.
            and_then (reading (\<lambda>b. compose_heartbeat (env_lib E) now (bo_net b) None)) (\<lambda>p.
            peer_send E p (Wired k)))))))
         (\<lambda>_. and_then (start_timer k) (\<lambda>_. and_then (activate k) (\<lambda>_.
            and_then (go (HandleConn (Wired k))) (\<lambda>_. done_with k)))) b1 = (Inr c, b')" .
  from and_then_InrE' [OF r1] obtain u b4
    where in1: "(on_failure (peer_close (Wired k))
           (and_then (on_net (add_conn k)) (\<lambda>_.
            and_then (reading (\<lambda>b. encode_default (env_lib E) now None MessageNotify)) (\<lambda>p.
            and_then (peer_send E p (Wired k)) (\<lambda>_.
            and_then (reading (\<lambda>b. compose_heartbeat (env_lib E) now (bo_net b) None)) (\<lambda>p.
            peer_send E p (Wired k))))))) b1 = (Inr u, b4)"
      and out: "and_then (start_timer k) (\<lambda>_. and_then (activate k) (\<lambda>_.
            and_then (go (HandleConn (Wired k))) (\<lambda>_. done_with k))) b4 = (Inr c, b')" .
  have kc: "k = c" and b': "b' = snd (go (HandleConn (Wired k)) (snd (activate k (snd (start_timer k b4)))))"
    using out by (auto simp: and_then_def start_timer_def activate_def go_def done_with_def Let_def)
  from and_then_InrE' [OF in1 [unfolded on_failure_Inr]] obtain u1 b2 where a: "on_net (add_conn k) b1 = (Inr u1, b2)"
    and r2: "and_then (reading (\<lambda>b. encode_default (env_lib E) now None MessageNotify)) (\<lambda>p.
            and_then (peer_send E p (Wired k)) (\<lambda>_.
            and_then (reading (\<lambda>b. compose_heartbeat (env_lib E) now (bo_net b) None)) (\<lambda>p.
            peer_send E p (Wired k)))) b2 = (Inr u, b4)" .
  from and_then_InrE' [OF r2] obtain p b2' where "reading (\<lambda>b. encode_default (env_lib E) now None MessageNotify) b2 = (Inr p, b2')"
    and r3: "and_then (peer_send E p (Wired k)) (\<lambda>_.
            and_then (reading (\<lambda>b. compose_heartbeat (env_lib E) now (bo_net b) None)) (\<lambda>p.
            peer_send E p (Wired k))) b2' = (Inr u, b4)" .
  then have b2': "b2' = b2" by (simp add: reading_Inr)
  from and_then_InrE' [OF r3] obtain u2 b3 where s1: "peer_send E p (Wired k) b2' = (Inr u2, b3)"
    and r4: "and_then (reading (\<lambda>b. compose_heartbeat (env_lib E) now (bo_net b) None)) (\<lambda>p. peer_send E p (Wired k)) b3 = (Inr u, b4)" .
  from and_then_InrE' [OF r4] obtain q b3' where "reading (\<lambda>b. compose_heartbeat (env_lib E) now (bo_net b) None) b3 = (Inr q, b3')"
    and s2: "peer_send E q (Wired k) b3' = (Inr u, b4)" .
  then have "b3' = b3" by (simp add: reading_Inr)
  then show ?thesis
    using that [of b1 b2 p b3 q b4] d a s1 s2 b' kc b2' by simp
qed

text \<open>The state after each of the last steps of a successful \<open>Wire\<close>.\<close>

lemma add_conn_fresh:
  assumes "add_conn (length (nw_conns n)) (fresh_link cn v n) = (Inr (), n')"
  defines "c \<equiv> length (nw_conns n)" and "x \<equiv> length (heap_nodes (nw_heap n))"
  shows "c < length (nw_conns n')" and "x < length (heap_nodes (nw_heap n'))"
    and "bc_id (the_conn n' c) = node_id v" and "bc_node (the_conn n' c) = x"
    and "map_of (nw_outgoing n') (node_id v) = Some c"
    and "\<exists>u. nw_published n' = nw_published n @ [NetworkUpdated u] \<and> nu_operation u = NodeAdded \<and>
      map_option pn_id (nu_remote_node u) = Some (node_id v)"
proof -
  let ?f = "fresh_link cn v n"
  from add_conn_Inr [OF assms(1)] obtain m where m: "n' = inserted c m" "m = ?f \<or> (\<exists>y. m = upd_heap (copy_tunnels y x) ?f)"
    by (auto simp: c_def x_def)
  have m': "the_conn m c = the_conn ?f c" "nw_published m = nw_published n" "length (nw_conns m) = Suc c"
      "node_id (the_node (nw_heap m) x) = node_id v" "length (heap_nodes (nw_heap m)) = Suc x"
    using m(2) by (auto simp: c_def x_def the_conn_def the_node_copy_tunnels(2) the_node_def copy_tunnels_def upd_node_def
        upd_heap_def fresh_link_def)
  show "c < length (nw_conns n')" "x < length (heap_nodes (nw_heap n'))" "bc_id (the_conn n' c) = node_id v"
      "bc_node (the_conn n' c) = x" "map_of (nw_outgoing n') (node_id v) = Some c"
    using m'(1,3,5) by (simp_all add: m(1) inserted_def Let_def the_conn_ids c_def x_def update_conv')
  let ?k = "(upd_conn c (\<lambda>b. b\<lparr>bc_booster_id := nw_booster_id m\<rparr>) m)\<lparr>nw_outgoing := AList.update (node_id v) c (nw_outgoing m)\<rparr>"
  have "nw_published n' = nw_published n @ [network_update NodeAdded x ?k]"
    using m'(1,2) by (simp add: m(1) inserted_def Let_def the_conn_ids c_def x_def)
  moreover have "nw_heap ?k = nw_heap m" by simp
  ultimately show "\<exists>u. nw_published n' = nw_published n @ [NetworkUpdated u] \<and> nu_operation u = NodeAdded \<and>
      map_option pn_id (nu_remote_node u) = Some (node_id v)"
    using network_update_remote [of NodeAdded x ?k] m'(4) by auto
qed

lemma activated_conn:
  fixes t :: task
  assumes "c < length (nw_conns (bo_net b))" and "bc_node (the_conn (bo_net b) c) < length (heap_nodes (nw_heap (bo_net b)))"
    and "map_of (nw_outgoing (bo_net b)) (bc_id (the_conn (bo_net b) c)) = Some c" and "bc_conn (the_conn (bo_net b) c) \<noteq> None"
  defines "b' \<equiv> snd (go t (snd (activate c (snd (start_timer c b)))))"
  shows "the_conn (bo_net b') c = (the_conn (bo_net b) c)\<lparr>bc_timer := Some True\<rparr>"
    and "nw_outgoing (bo_net b') = nw_outgoing (bo_net b)" and "nw_published (bo_net b') = nw_published (bo_net b)"
    and "bo_tasks b' = bo_tasks b @ [t]"
    and "bc_node (the_conn (bo_net b) c) \<in> set (snd (nw_nodes (bo_net b')))"
    and "node_to_be_traced (the_node (nw_heap (bo_net b')) (bc_node (the_conn (bo_net b) c)))"
proof -
  show conn: "the_conn (bo_net b') c = (the_conn (bo_net b) c)\<lparr>bc_timer := Some True\<rparr>"
    and out: "nw_outgoing (bo_net b') = nw_outgoing (bo_net b)" and "nw_published (bo_net b') = nw_published (bo_net b)"
    and "bo_tasks b' = bo_tasks b @ [t]"
    using assms(1) by (simp_all add: b'_def start_timer_def activate_def go_def Let_def the_conn_upd)
  show "node_to_be_traced (the_node (nw_heap (bo_net b')) (bc_node (the_conn (bo_net b) c)))"
    using assms(1,2)
    by (simp add: b'_def start_timer_def activate_def go_def Let_def the_conn_upd the_node_def upd_node_def set_is_active_def)
  have "is_active (nw_heap (bo_net b')) (bc_node (the_conn (bo_net b) c))"
    using assms(1,2)
    by (simp add: b'_def start_timer_def activate_def go_def Let_def the_conn_upd is_active_def the_node_def upd_node_def set_is_active_def)
  moreover have "(bc_id (the_conn (bo_net b) c), c) \<in> set (nw_outgoing (bo_net b'))"
    using assms(3) out by (simp add: map_of_SomeD)
  ultimately show "bc_node (the_conn (bo_net b) c) \<in> set (snd (nw_nodes (bo_net b')))"
    using conn assms(4) by (auto simp: nw_nodes_def intro!: image_eqI [of _ _ "(bc_id (the_conn (bo_net b) c), c)"])
qed

lemma sent_over_link:
  assumes "peer_send E p (Wired c) b = (Inr (), b1)" and "peer_send E q (Wired c) b1 = (Inr (), b')"
    and "c < length (nw_conns (bo_net b))"
  obtains cn where "b' = b\<lparr>bo_net := upd_conn c (\<lambda>x. x\<lparr>bc_conn := Some cn\<rparr>) (bo_net b)\<rparr>"
proof -
  obtain cn1 where b1: "b1 = b\<lparr>bo_net := upd_conn c (\<lambda>x. x\<lparr>bc_conn := Some cn1\<rparr>) (bo_net b)\<rparr>"
    using assms(1) by (auto elim: peer_send_Wired_Inr)
  obtain cn where "b' = b1\<lparr>bo_net := upd_conn c (\<lambda>x. x\<lparr>bc_conn := Some cn\<rparr>) (bo_net b1)\<rparr>"
    using assms(2) by (auto elim: peer_send_Wired_Inr)
  then have "b' = b\<lparr>bo_net := upd_conn c (\<lambda>x. x\<lparr>bc_conn := Some cn\<rparr>) (bo_net b)\<rparr>"
    using assms(3) by (simp add: b1 upd_conn_def)
  then show thesis by (rule that)
qed

text \<open>
  C15: When \<open>Wire\<close> succeeds, the new connection is registered under its identifier and open, its
  heartbeat timer runs, its node is active, offered by \<open>Nodes\<close> and to be traced, one goroutine
  was started to handle it, and the only event published is one "node added" for it; the two packets
  sent are the notify packet and a first heartbeat.
\<close>

theorem wire_establishes_connection:
  assumes "net_wf (bo_net b)" and "wire E now target b = (Inr c, b')"
  shows "map_of (nw_outgoing (bo_net b')) (bc_id (the_conn (bo_net b') c)) = Some c \<and>
    bc_conn (the_conn (bo_net b') c) \<noteq> None \<and> bc_timer (the_conn (bo_net b') c) = Some True \<and>
    bc_node (the_conn (bo_net b') c) \<in> set (snd (nw_nodes (bo_net b'))) \<and>
    node_to_be_traced (the_node (nw_heap (bo_net b')) (bc_node (the_conn (bo_net b') c))) \<and>
    bo_tasks b' = bo_tasks b @ [HandleConn (Wired c)] \<and>
    (\<exists>u. nw_published (bo_net b') = nw_published (bo_net b) @ [NetworkUpdated u] \<and> nu_operation u = NodeAdded \<and>
      map_option pn_id (nu_remote_node u) = Some (bc_id (the_conn (bo_net b') c)))"
proof -
  from wire_Inr [OF assms(2)] obtain b1 b2 b3 b4 p q where d: "dial_booster E target b = (Inr c, b1)"
    and add: "on_net (add_conn c) b1 = (Inr (), b2)"
    and s: "peer_send E p (Wired c) b2 = (Inr (), b3)" "peer_send E q (Wired c) b3 = (Inr (), b4)"
    and b': "b' = snd (go (HandleConn (Wired c)) (snd (activate c (snd (start_timer c b4)))))" .
  from dial_booster_fresh [OF d] obtain cn v where c: "c = length (nw_conns (bo_net b))"
    and b1: "b1 = b\<lparr>bo_net := fresh_link cn v (bo_net b)\<rparr>" .
  obtain n2 where n2: "add_conn c (fresh_link cn v (bo_net b)) = (Inr (), n2)" "b2 = b\<lparr>bo_net := n2\<rparr>"
    using add by (auto simp: on_net_def b1 split: prod.splits)
  note fresh = add_conn_fresh [OF n2(1) [unfolded c], folded c]
  obtain cn2 where b4: "b4 = b\<lparr>bo_net := upd_conn c (\<lambda>x. x\<lparr>bc_conn := Some cn2\<rparr>) n2\<rparr>"
    using sent_over_link [OF s] fresh(1) by (auto simp: n2(2))
  note up = the_conn_upd [OF fresh(1)]
  have "c < length (nw_conns (bo_net b4))" "bc_node (the_conn (bo_net b4) c) < length (heap_nodes (nw_heap (bo_net b4)))"
      "map_of (nw_outgoing (bo_net b4)) (bc_id (the_conn (bo_net b4) c)) = Some c"
      "bc_conn (the_conn (bo_net b4) c) \<noteq> None"
    using fresh(1-5) by (simp_all add: b4 up)
  note act = activated_conn [OF this, of "HandleConn (Wired c)", folded b']
  show ?thesis
    using act(5,6) fresh(3-6) by (simp add: act(1-4) b4 up)
qed


text \<open>A node without connections, and a library with the messages that it exchanges.\<close>

definition wire_lib :: codec_lib where
  "wire_lib = table_lib [(PbHeader (new_header MessageHello epoch_stamp), [9, 1]), (PbHello ''4884'' ''1080'', [1]),
     (PbHeader ((new_header MessageNotify epoch_stamp)\<lparr>pbh_modules := []\<rparr>), [9, 5]),
     (PbHeader (new_header MessageHeartbeat epoch_stamp), [9, 4]),
     (PbHeartbeat \<lparr>pbe_id = ''heartbeat'', pbe_hops = 1, pbe_ttl = Some epoch_stamp\<rparr>, [4]),
     (PbHeartbeat \<lparr>pbe_id = ''heartbeat'', pbe_hops = 2, pbe_ttl = Some epoch_stamp\<rparr>, [4, 2]),
     (PbHeader (new_header MessageDisconnect epoch_stamp), [9, 3]), (PbDisconnect ''10.0.0.248841080'', [3]),
     (PbHeader (new_header MessageCtrl epoch_stamp), [9, 7]), (PbCtrl CtrlStop, [7])]"

lemma wire_lib_ok: "proto_ok wire_lib"
  unfolding wire_lib_def by (rule table_lib_ok) (simp add: message_ids)

definition wire_env :: env where
  "wire_env = demo_env\<lparr>env_lib := wire_lib\<rparr>"

definition lone_booster :: booster where
  "lone_booster = demo_booster\<lparr>bo_net := (new_net demo_heap 0 ''b'')\<lparr>nw_tracer := snd (tr_run new_tracer)\<rparr>\<rparr>"

lemma lone_booster_wf: "net_wf (bo_net lone_booster)"
  unfolding lone_booster_def
  by (simp add: new_net_wf tr_run_wf new_tracer_wf demo_heap_wf demo_heap_refs)

theorem handlers_keep_network_witness:
  "net_wf (bo_net (snd (handle_conn wire_env (Wired 0) [(0, 0, crash_packet)] demo_booster)))"
proof -
  have "0 < length (nw_conns (bo_net demo_booster))" by code_simp
  with handlers_keep_network [OF demo_booster_wf, of "Wired 0"] show ?thesis by simp
qed

definition notify_packet :: packet where
  "notify_packet = \<lparr>pkt_meta = default_meta, pkt_modules =
     [(''HE'', \<lparr>mod_id = ''HE'', mod_size = 2, mod_payload = [9, 5]\<rparr>)]\<rparr>"

definition heartbeat_packet :: packet where
  "heartbeat_packet = \<lparr>pkt_meta = default_meta, pkt_modules =
     [(''HE'', \<lparr>mod_id = ''HE'', mod_size = 2, mod_payload = [9, 4]\<rparr>),
      (''PA'', \<lparr>mod_id = ''PA'', mod_size = 1, mod_payload = [4]\<rparr>)]\<rparr>"

lemmas encode_defs = encode_default_def net_encode_def protocol_encode_def call_encoder_def
  add_net_module_def add_module_def new_module_def new_packet_def ModuleHeader_def ModulePayload_def Let_def

lemma notify_encoded: "encode_default wire_lib 0 None MessageNotify = Inr notify_packet"
proof -
  have "encode_header wire_lib 0 (VMessage MessageNotify) = Inr [9, 5]" by code_simp
  then show ?thesis by (simp add: encode_defs notify_packet_def)
qed

lemma heartbeat_encoded: 
  assumes "nw_heartbeat_ttl n = 0"
  shows "compose_heartbeat wire_lib 0 n None = Inr heartbeat_packet"
proof -
  have "encode_header wire_lib 0 (VMessage MessageHeartbeat) = Inr [9, 4]" by code_simp
  moreover have "payload_encoders wire_lib MessageHeartbeat = Some (encode_heartbeat wire_lib)"
    by (simp add: payload_encoders_def message_ids)
  moreover have "encode_heartbeat wire_lib (VHeartbeat (next_heartbeat 0 0 None)) = Inr [4]" by code_simp
  ultimately show ?thesis using assms by (simp add: compose_heartbeat_def encode_defs heartbeat_packet_def)
qed

lemma wire_intro:
  assumes "dial_booster E target b = (Inr c, b1)" and "on_net (add_conn c) b1 = (Inr (), b2)"
    and "encode_default (env_lib E) now None MessageNotify = Inr p" and "peer_send E p (Wired c) b2 = (Inr (), b3)"
    and "compose_heartbeat (env_lib E) now (bo_net b3) None = Inr q" and "peer_send E q (Wired c) b3 = (Inr (), b4)"
  shows "wire E now target b = (Inr c, snd (go (HandleConn (Wired c)) (snd (activate c (snd (start_timer c b4))))))"
  by (simp add: wire_def and_then_def assms reading_def on_failure_def start_timer_def activate_def go_def done_with_def Let_def)

theorem wire_establishes_connection_witness:
  "snd (nw_nodes (bo_net (snd (wire wire_env 0 ''10.0.0.2:4884'' lone_booster)))) \<noteq> []"
proof -
  let ?b1 = "snd (dial_booster wire_env ''10.0.0.2:4884'' lone_booster)"
  let ?b2 = "snd (on_net (add_conn 0) ?b1)"
  let ?b3 = "snd (peer_send wire_env notify_packet (Wired 0) ?b2)"
  let ?b4 = "snd (peer_send wire_env heartbeat_packet (Wired 0) ?b3)"
  have "fst (dial_booster wire_env ''10.0.0.2:4884'' lone_booster) = Inr 0" "fst (on_net (add_conn 0) ?b1) = Inr ()"
      "fst (peer_send wire_env notify_packet (Wired 0) ?b2) = Inr ()"
      "fst (peer_send wire_env heartbeat_packet (Wired 0) ?b3) = Inr ()" "nw_heartbeat_ttl (bo_net ?b3) = 0"
    by code_simp+
  moreover have "env_lib wire_env = wire_lib" by (simp add: wire_env_def)
  ultimately have "wire wire_env 0 ''10.0.0.2:4884'' lone_booster =
      (Inr 0, snd (go (HandleConn (Wired 0)) (snd (activate 0 (snd (start_timer 0 ?b4))))))"
    using notify_encoded heartbeat_encoded [of "bo_net ?b3"]
    by (intro wire_intro [where ?b1.0 = ?b1 and ?b2.0 = ?b2 and ?b3.0 = ?b3 and ?b4.0 = ?b4]) (simp_all add: prod_eq_iff)
  then obtain b' where "wire wire_env 0 ''10.0.0.2:4884'' lone_booster = (Inr 0, b')" by blast
  from wire_establishes_connection [OF lone_booster_wf this] this show ?thesis by auto
qed

end
