(* ===== verification/Handler_Props.thy ===== *)
theory Handler_Props
  imports Booster_Props
begin

text \<open>
  What the handlers and commands of a node do (\<open>handlers.go\<close>, \<open>senders.go\<close>,
  \<open>receivers.go\<close>): disconnecting, packets that are not expected, heartbeats, the hello exchange,
  peers that go away, monitors, and how a node is stopped.
\<close>

section \<open>Handlers\<close>

lemma compose_node_stops:
  assumes "valid_time now" and "compose_node L now n x = Inl e"
  shows "\<exists>e'. e = Error e'"
proof -
  obtain ts where "timestamp_proto now = Some ts"
    using timestamp_roundtrip [OF assms(1)] by (auto)
  then have h: "encode_header L now (VMessage MessageNodeStatus) = Inl d \<Longrightarrow> \<exists>d'. d = Error d'" for d
    by (auto simp: encode_header_def proto_marshal_def message_ids split: sum.splits)
  have enc: "payload_encoders L MessageNodeStatus = Some (encode_node L)"
    by (simp add: payload_encoders_def message_ids)
  have pl: "encode_node L (VNode v) = Inl d \<Longrightarrow> \<exists>d'. d = Error d'" for v d
    by (auto simp: encode_node_def proto_marshal_def split: sum.splits)
  have add: "add_net_module m raw q = Inl d \<Longrightarrow> \<exists>d'. d = Error d'" for m raw q d
    by (auto simp: add_net_module_def split: sum.splits prod.splits)
  have lift: "lift_proto r = Inl d \<Longrightarrow> (\<And>d. r = Inl d \<Longrightarrow> \<exists>d'. d = Error d') \<Longrightarrow> \<exists>d'. d = Error d'" for r :: "proto_error stop + 'a" and d
    by (cases r) (auto simp: lift_proto_def split: stop.splits)
  show ?thesis
    using assms(2) unfolding compose_node_def encode_default_def net_encode_def protocol_encode_def Let_def
    by (auto simp: enc call_encoder_def protocol_encode_def split: sum.splits dest!: add elim!: lift intro: h pl)
qed

lemma send_node_Accepted:
  assumes "valid_time now"
  obtains r b' where "send_node E now (Accepted k) x b = (r, b')" and "bo_net b' = bo_net b"
    and "length (bo_accepted b') = length (bo_accepted b)" and "\<And>d. r = Inl d \<Longrightarrow> \<exists>e. d = Error e"
proof -
  obtain r b' where r: "send_node E now (Accepted k) x b = (r, b')" by fastforce
  have "bo_net (snd (send_node E now (Accepted k) x b)) = bo_net b \<and>
      length (bo_accepted (snd (send_node E now (Accepted k) x b))) = length (bo_accepted b)"
    by (simp add: send_node_def and_then_def reading_def peer_send_def split: prod.split sum.split)
  moreover have "\<exists>e. d = Error e" if "r = Inl d" for d
    using r that compose_node_stops [OF assms]
    by (fastforce simp: send_node_def and_then_def reading_def peer_send_def split: prod.splits sum.splits)
  ultimately show thesis using r that by simp
qed

lemma accepted_dropped:
  "dropping (peer_close (Accepted k)) b = (Inr (), b\<lparr>bo_accepted := (bo_accepted b)[k := conn_close (bo_accepted b ! k)]\<rparr>)"
  by (simp add: dropping_def peer_close_def)

lemma disconnect_known:
  assumes "net_decode (env_lib E) p ModulePayload TDisconnect = Inr (VDisconnect i)" and "valid_time now"
    and "map_of (nw_outgoing (bo_net b)) i = Some c" and "k < length (bo_accepted b)"
  defines "x \<equiv> bc_node (the_conn (bo_net b) c)"
  defines "n1 \<equiv> upd_heap (upd_node x (\<lambda>v. v\<lparr>node_to_be_traced := False\<rparr>)) (bo_net b)"
  assumes "bconn_close c n1 = (Inr (), n2)"
  shows "bo_net (snd (handle_disconnect E now (Accepted k) p b)) = n2"
    and "c_closed (bo_accepted (snd (handle_disconnect E now (Accepted k) p b)) ! k)"
proof -
  let ?b2 = "b\<lparr>bo_net := n2\<rparr>"
  obtain r b3 where r: "send_node E now (Accepted k) x ?b2 = (r, b3)" "bo_net b3 = n2"
      "length (bo_accepted b3) = length (bo_accepted b)" "\<And>d. r = Inl d \<Longrightarrow> \<exists>e. d = Error e"
    by (rule send_node_Accepted [OF assms(2), of E k x ?b2]) auto
  have "snd (handle_disconnect E now (Accepted k) p b) =
      b3\<lparr>bo_accepted := (bo_accepted b3)[k := conn_close (bo_accepted b3 ! k)]\<rparr>"
    using assms(3) assms(7) r(1,4) unfolding n1_def x_def
    by (cases r) (auto simp: handle_disconnect_def deferring_def and_then_def payload_of_def reading_def assms(1) dropping_def
        peer_close_def on_net_def accepted_dropped fail_with_def done_with_def)
  then show "bo_net (snd (handle_disconnect E now (Accepted k) p b)) = n2"
      "c_closed (bo_accepted (snd (handle_disconnect E now (Accepted k) p b)) ! k)"
    using r(2,3) assms(4) by (simp_all add: conn_close_def)
qed


definition disconnect_packet :: packet where
  "disconnect_packet = \<lparr>pkt_meta = default_meta, pkt_modules =
     [(''HE'', \<lparr>mod_id = ''HE'', mod_size = 2, mod_payload = [9, 3]\<rparr>),
      (''PA'', \<lparr>mod_id = ''PA'', mod_size = 1, mod_payload = [3]\<rparr>)]\<rparr>"


text \<open>Decoding the header of a packet that is not JSON never crashes.\<close>

lemma header_decode:
  assumes "proto_ok L" and "encoding (pkt_meta p) \<noteq> EncodingJson"
  shows "(\<exists>e. net_decode L p ModuleHeader THeader = Inl (Error e)) \<or> (\<exists>h. net_decode L p ModuleHeader THeader = Inr (VHeader h))"
proof -
  have hang: "decode_header L bs ty \<noteq> Inl Hang" for bs ty
    using assms(1) unfolding decode_header_def proto_unmarshal_def set_value_def
    by (auto split: sum.splits pb.splits option.splits if_splits dest: unmarshal_type)
  have type: "decode_header L bs THeader = Inr v \<Longrightarrow> \<exists>h. v = VHeader h" for bs v
    by (rule decode_header_type)
  consider e where "get_module p ModuleHeader = Inl e"
    | md e where "get_module p ModuleHeader = Inr md" "decode_header L (mod_payload md) THeader = Inl (Error e)"
    | md v where "get_module p ModuleHeader = Inr md" "decode_header L (mod_payload md) THeader = Inr v"
    using hang decode_header_not_Panic [OF assms(1)] by (metis stop.exhaust sumE)
  then show ?thesis
    using assms(2) type
    by cases (auto simp: net_decode_def decode_with_def call_decoder_def protocol_decode_def lift_proto_def)
qed

text \<open>
  A packet that a node does not expect on a connection ends it: if its header cannot be decoded,
  or its message is none of connect, disconnect, heartbeat, tunnel update, notify, monitor and
  control, the connection is closed and the packets after it are not handled; nothing else changes.
\<close>

theorem unexpected_packet_ends_connection:
  assumes "k < length (bo_accepted b)" and "proto_ok (env_lib E)"
    and "encoding (pkt_meta p) \<noteq> EncodingJson"
    and "\<And>h. net_decode (env_lib E) p ModuleHeader THeader = Inr (VHeader h) \<Longrightarrow>
      hdr_id h \<notin> {MessageConnect, MessageDisconnect, MessageHeartbeat, MessageProxyUpdate, MessageNotify, MessageMonitor, MessageCtrl}"
  shows "\<exists>e. handle_packets E (Accepted k) ((now, later, p) # ps) b =
    (Inl (Error e), b\<lparr>bo_accepted := (bo_accepted b)[k := conn_close (bo_accepted b ! k)]\<rparr>)"
proof -
  have "\<exists>e. handle_packet E now later (Accepted k) p b = (Inl (Error e), b)"
  proof (cases "net_decode (env_lib E) p ModuleHeader THeader")
    case (Inl e)
    obtain e' where "e = Error e'"
      using header_decode [OF assms(2,3)] Inl by (metis Inl_Inr_False sum.inject(1))
    then show ?thesis using Inl by (cases e) (auto simp: handle_packet_def and_then_def reading_def)
  next
    case (Inr v)
    obtain h where h: "v = VHeader h"
      using header_decode [OF assms(2,3)] Inr by (metis Inl_Inr_False sum.inject(2))
    then show ?thesis
      using Inr assms(4) by (auto simp: handle_packet_def and_then_def reading_def fail_with_def Let_def)
  qed
  then show ?thesis
    by (auto simp: and_then_def on_failure_def dropping_def peer_close_def fail_with_def)
qed

theorem unexpected_packet_ends_connection_witness:
  "c_closed (bo_accepted (snd (handle_packets demo_env (Accepted 0) [(0, 0, hello_packet), (0, 0, crash_packet)] demo_booster)) ! 0)"
proof -
  have k: "0 < length (bo_accepted demo_booster)" by (simp add: demo_booster_def)
  have L: "env_lib demo_env = net_lib" by (simp add: demo_env_def)
  have e: "encoding (pkt_meta hello_packet) \<noteq> EncodingJson" by code_simp
  have "net_decode net_lib hello_packet ModuleHeader THeader = Inr (VHeader \<lparr>hdr_id = MessageHello, hdr_version = Version,
      hdr_sent_at = 0, hdr_modules = [ModulePayload]\<rparr>)" by code_simp
  with unexpected_packet_ends_connection [OF k, of demo_env hello_packet 0 0 "[(0, 0, crash_packet)]"] k L e net_lib_ok
  show ?thesis by (auto simp: message_ids conn_close_def)
qed



text \<open>
  One broken peer stops the node from accepting: the accepting goroutine takes the incoming
  connections in turn, sends each its hello and starts a goroutine to handle it, up to the first one
  on which the hello cannot be sent; then \<open>ListenAndServe\<close> returns that error, and the
  connections after it are not accepted.
\<close>

theorem accept_stops_at_broken_peer:
  assumes "encode_default (env_lib E) now
      (Some (VHello \<lparr>he_bport = node_bport (nw_heap (bo_net b)) (nw_local (bo_net b)),
        he_pport = node_pport (nw_heap (bo_net b)) (nw_local (bo_net b))\<rparr>)) MessageHello = Inr p"
    and "\<forall>s \<in> set xs. fst (conn_send p (env_order E p) (open_socket default_net_config s)) = Inr ()"
    and "conn_send p (env_order E p) (open_socket default_net_config bad) = (Inl e, bad')"
  shows "\<exists>b'. accept_loop E now (map Inr xs @ Inr bad # rs) b = (Inl (Error (SendFailed e)), b') \<and> bo_net b' = bo_net b \<and>
    bo_accepted b' = bo_accepted b @ map (\<lambda>s. snd (conn_send p (env_order E p) (open_socket default_net_config s))) xs @ [bad'] \<and>
    bo_tasks b' = bo_tasks b @ map (\<lambda>j. HandleConn (Accepted (length (bo_accepted b) + j))) [0..<length xs]"
  using assms(1,2)
proof (induction xs arbitrary: b)
  case Nil
  then show ?case
    using assms(3) by (simp add: accept_conn_def send_hello_def and_then_def reading_def peer_send_def Let_def nth_append)
next
  case (Cons s xs)
  let ?cn = "open_socket default_net_config s"
  let ?k = "length (bo_accepted b)"
  let ?b1 = "b\<lparr>bo_accepted := bo_accepted b @ [snd (conn_send p (env_order E p) ?cn)], bo_tasks := bo_tasks b @ [HandleConn (Accepted ?k)]\<rparr>"
  obtain cn' where cn': "conn_send p (env_order E p) ?cn = (Inr (), cn')"
    using Cons.prems(2) by (cases "conn_send p (env_order E p) ?cn") auto
  have "accept_conn E now ?cn b = (Inr (), ?b1)"
    using Cons.prems(1) cn' by (simp add: accept_conn_def send_hello_def and_then_def reading_def peer_send_def Let_def nth_append go_def)
  moreover have "map (\<lambda>j. HandleConn (Accepted (?k + j))) [0..<length (s # xs)] =
      HandleConn (Accepted ?k) # map (\<lambda>j. HandleConn (Accepted (Suc ?k + j))) [0..<length xs]"
    by (simp add: upt_conv_Cons map_Suc_upt [symmetric] comp_def del: upt_Suc)
  ultimately show ?case
    using Cons.IH [of ?b1] Cons.prems cn' by (auto simp: and_then_def)
qed

theorem accept_stops_at_broken_peer_witness:
  "\<exists>b' e. accept_loop wire_env 0 (map Inr [(([], EOF), ([], None)), (([], EOF), ([], Some 0)), (([], EOF), ([], None))]) lone_booster = (Inl (Error (SendFailed e)), b') \<and>
    bo_tasks b' = [HandleConn (Accepted 1)]"
proof -
  have p: "node_bport (nw_heap (bo_net lone_booster)) (nw_local (bo_net lone_booster)) = ''4884''"
      "node_pport (nw_heap (bo_net lone_booster)) (nw_local (bo_net lone_booster)) = ''1080''" by code_simp+
  have "encode_header wire_lib 0 (VMessage MessageHello) = Inr [9, 1]" "encode_hello wire_lib hello_value = Inr [1]"
    by code_simp+
  moreover have "payload_encoders wire_lib MessageHello = Some (encode_hello wire_lib)"
    by (simp add: payload_encoders_def message_ids)
  ultimately have enc: "encode_default wire_lib 0 (Some hello_value) MessageHello = Inr hello_packet"
    by (simp add: encode_defs hello_packet_def)
  have L: "env_lib wire_env = wire_lib" by (simp add: wire_env_def)
  let ?s = "(([], EOF), ([], None)) :: socket" and ?bad = "open_socket default_net_config (([], EOF), ([], Some 0))"
  have s1: "fst (conn_send hello_packet (env_order wire_env hello_packet) (open_socket default_net_config ?s)) = Inr ()" by code_simp
  have "isl (fst (conn_send hello_packet (env_order wire_env hello_packet) ?bad))" by code_simp
  then obtain e where s2: "conn_send hello_packet (env_order wire_env hello_packet) ?bad =
      (Inl e, snd (conn_send hello_packet (env_order wire_env hello_packet) ?bad))"
    by (auto simp: prod_eq_iff isl_def)
  have b: "bo_tasks lone_booster = []" "length (bo_accepted lone_booster) = 1"
    by (simp_all add: lone_booster_def demo_booster_def)
  from accept_stops_at_broken_peer [of wire_env 0 lone_booster hello_packet "[?s]" "(([], EOF), ([], Some 0))" e _ "[Inr ?s]", OF _ _ s2] s1 enc p
  show ?thesis by (auto simp: L b hello_value_def simp del: open_socket_pair)
qed

text \<open>
  C16: The hello exchange: what a node sends to a connection it accepts is read back by the peer
  that dialled it. The peer's new connection object has the identifier of a node with the host of
  the remote address and the two ports of the sender, reads on where the hello ended, and nothing
  else of the peer's network changes but that one node and one connection object were added.
\<close>

theorem hello_exchange:
  assumes "proto_ok (env_lib E)" and "env_lib F = env_lib E" and "valid_time now"
    and "\<And>q. iterates (env_order E q) q"
    and "accept_conn E now (open_conn r ([], None) default_net_config) b = (Inr (), b')"
    and "env_dial F addr = Inr (((fst (c_out (last (bo_accepted b'))) @ rest, e), w), raddr)"
    and "split_host_port raddr = Some (host, port)"
    and "env_resolve F (join_host_port host (node_bport (nw_heap (bo_net b)) (nw_local (bo_net b)))) = Some baddr"
    and "env_resolve F (join_host_port host (node_pport (nw_heap (bo_net b)) (nw_local (bo_net b)))) = Some paddr"
  shows "\<exists>c b2 cn. dial_booster F addr a = (Inr c, b2) \<and> nw_outgoing (bo_net b2) = nw_outgoing (bo_net a) \<and>
    nw_conns (bo_net b2) = nw_conns (bo_net a) @ [the_conn (bo_net b2) c] \<and>
    bc_conn (the_conn (bo_net b2) c) = Some cn \<and> c_in cn = (rest, e) \<and>
    bc_id (the_conn (bo_net b2) c) = sha1_hash (env_sha1 F) [bytes_of host,
      bytes_of (node_bport (nw_heap (bo_net b)) (nw_local (bo_net b))),
      bytes_of (node_pport (nw_heap (bo_net b)) (nw_local (bo_net b)))] \<and>
    node_baddr (the_node (nw_heap (bo_net b2)) (bc_node (the_conn (bo_net b2) c))) = baddr \<and>
    node_paddr (the_node (nw_heap (bo_net b2)) (bc_node (the_conn (bo_net b2) c))) = paddr"
proof -
  let ?bp = "node_bport (nw_heap (bo_net b)) (nw_local (bo_net b))" and ?pp = "node_pport (nw_heap (bo_net b)) (nw_local (bo_net b))"
  let ?v = "VHello \<lparr>he_bport = ?bp, he_pport = ?pp\<rparr>"
  let ?cn = "open_conn r ([], None) default_net_config"
  obtain p where p: "encode_default (env_lib E) now (Some ?v) MessageHello = Inr p"
    using assms(5) by (auto simp: accept_conn_def send_hello_def and_then_def reading_def Let_def split: sum.splits)
  have dec: "net_decode (env_lib E) p ModulePayload THello = Inr ?v" and wf: "packet_wf p" "module_count_ok p"
    using encode_default_decodes [OF assms(1,3) _ p] by auto
  have s: "sendable (p, env_order E p)" using wf assms(4) by (simp add: sendable_def)
  let ?bs = "packet_bytes net_tags p (env_order E p)" and ?p = "received p (env_order E p)"
  have send: "conn_send p (env_order E p) ?cn = (Inr (), ?cn\<lparr>c_out := (?bs, None)\<rparr>)"
    using conn_send_bytes [OF s, of ?cn "[]"] by (simp add: open_conn_def)
  have out: "fst (c_out (last (bo_accepted b'))) = ?bs"
    using assms(5) p send
    by (auto simp: accept_conn_def send_hello_def and_then_def reading_def Let_def peer_send_def nth_append go_def)
  have "packet_decode net_tags new_packet (?bs @ rest, e) = (Inr ?p, (rest, e))"
    using parsesD [OF packet_format.dec_enc [OF s], of rest e] by simp
  then have recv: "conn_recv (open_conn (?bs @ rest, e) w default_net_config) = (Inr ?p, open_conn (rest, e) w default_net_config)"
    by (simp add: conn_recv_def open_conn_def)
  have dec': "net_decode (env_lib F) ?p ModulePayload THello = Inr ?v"
    using dec net_decode_cong [of ?p p "env_lib E" ModulePayload THello] received_same_map [OF wf(1) assms(4)]
    by (simp add: received_def assms(2))
  have "recv_hello F (open_conn (?bs @ rest, e) w default_net_config) raddr (bo_net a) =
      (let x = length (heap_nodes (nw_heap (bo_net a)));
           v = \<lparr>node_id = sha1_hash (env_sha1 F) [bytes_of host, bytes_of ?bp, bytes_of ?pp], node_baddr = baddr,
             node_paddr = paddr, node_is_local = False, node_to_be_traced = False, node_stopped = False,
             node_active = False, node_tunnels = []\<rparr>;
           hp = (nw_heap (bo_net a))\<lparr>heap_nodes := heap_nodes (nw_heap (bo_net a)) @ [v]\<rparr>;
           (c, n') = new_conn (open_conn (rest, e) w default_net_config) x (node_id v) ((bo_net a)\<lparr>nw_heap := hp\<rparr>)
       in (Inr c, n'))"
    using assms(7-9) by (simp add: recv_hello_def recv dec' new_node_def Let_def the_node_def)
  then show ?thesis
    using assms(6)
    by (simp add: dial_booster_def on_net_def out Let_def new_conn_def the_conn_def the_node_def nth_append)
      (simp add: open_conn_def)
qed

lemma nw_nodes_upd_conn:
  assumes "c < length (nw_conns n)" and "bc_node (f (the_conn n c)) = bc_node (the_conn n c)"
    and "bc_conn (f (the_conn n c)) = None \<longleftrightarrow> bc_conn (the_conn n c) = None"
  shows "nw_nodes (upd_conn c f n) = nw_nodes n"
proof -
  have "bc_node (the_conn (upd_conn c f n) d) = bc_node (the_conn n d)"
      "bc_conn (the_conn (upd_conn c f n) d) = None \<longleftrightarrow> bc_conn (the_conn n d) = None" for d
    using assms by (auto simp: the_conn_upd)
  then show ?thesis by (simp add: nw_nodes_def)
qed

lemma upd_timer_same:
  assumes "bc_timer (the_conn n c) = t"
  shows "upd_conn c (\<lambda>x. x\<lparr>bc_timer := t\<rparr>) n = n"
proof -
  have "(nw_conns n ! c)\<lparr>bc_timer := t\<rparr> = nw_conns n ! c"
    using assms by (cases "nw_conns n ! c") (simp add: the_conn_def)
  then show ?thesis by (simp add: upd_conn_def)
qed

text \<open>Closing the connection of a node that is to be traced, whether or not the call returns.\<close>

lemma bconn_close_traced:
  assumes "bc_conn (the_conn n c) \<noteq> None" and "node_to_be_traced (the_node (nw_heap n) (bc_node (the_conn n c)))"
  defines "m \<equiv> upd_heap (set_is_active (bc_node (the_conn n c)) False) (upd_conn c (\<lambda>b. b\<lparr>bc_conn := None\<rparr>) n)"
  shows "snd (bconn_close c n) =
    (publish (network_update NodeRemoved (bc_node (the_conn n c)) m) m)\<lparr>nw_tracer :=
      snd (tr_trace (node_id (the_node (nw_heap n) (bc_node (the_conn n c)))) (nw_tracer n))\<rparr>"
proof -
  have "node_to_be_traced (the_node (set_is_active x False hp) y) = node_to_be_traced (the_node hp y)" for x y hp
    by (cases "y < length (heap_nodes hp)"; cases "x < length (heap_nodes hp)")
       (auto simp: set_is_active_def upd_node_def the_node_def nth_list_update list_update_beyond)
  moreover obtain r t where "tr_trace (node_id (the_node (nw_heap n) (bc_node (the_conn n c)))) (nw_tracer n) = (r, t)"
    by fastforce
  ultimately show ?thesis
    using assms(1,2) by (auto simp: bconn_close_def m_def Let_def split: sum.split stop.split)
qed

text \<open>
  A peer that goes away is not noticed at once: when its packets end, \<open>Handle\<close> returns and
  leaves the connection open and the node active and offered by \<open>Nodes\<close>. The heartbeat timer
  is what closes it: when it fires, the node is no longer offered, and it is among the traced
  entities.
\<close>

theorem lost_peer_until_timer:
  assumes "net_wf (bo_net b)" and "c < length (nw_conns (bo_net b))" and "bc_conn (the_conn (bo_net b) c) = Some cn"
    and "\<not> c_running cn" and "node_to_be_traced (the_node (nw_heap (bo_net b)) (bc_node (the_conn (bo_net b) c)))"
  shows "let (r, b1) = handle_conn E (Wired c) [] b; b2 = snd (timer_fires c b1); x = bc_node (the_conn (bo_net b) c) in
    r = Inr () \<and> nw_nodes (bo_net b1) = nw_nodes (bo_net b) \<and> nw_published (bo_net b1) = nw_published (bo_net b) \<and>
    x \<notin> set (snd (nw_nodes (bo_net b2))) \<and>
    node_id (the_node (nw_heap (bo_net b)) x) \<in> set (tr_conns (nw_tracer (bo_net b2))) \<and>
    snd (timer_fires c b2) = b2"
proof -
  let ?n = "bo_net b" and ?x = "bc_node (the_conn (bo_net b) c)" and ?cn = "cn\<lparr>c_consumers := Suc (c_consumers cn)\<rparr>"
  let ?n1 = "upd_conn c (\<lambda>x. x\<lparr>bc_conn := Some ?cn\<rparr>) ?n"
  let ?n2 = "upd_conn c (\<lambda>x. x\<lparr>bc_timer := Some False\<rparr>) ?n1"
  let ?m = "snd (bconn_close c ?n2)"
  have consume: "bconn_consume c ?n = (Inr (), ?n1)"
  proof -
    have "conn_consume cn = (Inr (), ?cn)" using assms(4) by (cases cn) (simp add: conn_consume_def Let_def)
    then show ?thesis using assms(3) by (simp add: bconn_consume_def)
  qed
  have h: "handle_conn E (Wired c) [] b = (Inr (), b\<lparr>bo_net := ?n1\<rparr>)"
    by (simp add: handle_conn_def and_then_def on_failure_def peer_consume_def on_net_def consume)
  have c2: "bc_conn (the_conn ?n2 c) = Some ?cn" "bc_node (the_conn ?n2 c) = ?x" "nw_heap ?n2 = nw_heap ?n"
    using assms(2) by (simp_all add: the_conn_upd)
  have timer: "snd (timer_fires c (b\<lparr>bo_net := ?n1\<rparr>)) = b\<lparr>bo_net := ?m\<rparr>"
    using c2(1) by (simp add: timer_fires_def Let_def peer_close_def on_net_def case_prod_unfold)
  have x: "?x < length (heap_nodes (nw_heap ?n))"
    using net_wf_conn [OF assms(1,2)] by (simp add: node_ref_def)
  have same: "nw_nodes ?n1 = nw_nodes ?n"
    using assms(2,3) by (intro nw_nodes_upd_conn) simp_all
  have closed: "bc_conn (the_conn ?m c) = None" "bc_timer (the_conn ?m c) = Some False"
      "\<not> is_active (nw_heap ?m) ?x" "node_id (the_node (nw_heap ?n) ?x) \<in> set (tr_conns (nw_tracer ?m))"
    using bconn_close_traced [of ?n2 c] c2 assms(2,5) x
    by (simp_all add: the_conn_upd is_active_def the_node_def set_is_active_def upd_node_def tr_trace_def tr_refresh_def
        ping_round_def)
  have "?x \<notin> set (snd (nw_nodes ?m))" using closed(3) by (auto simp: nw_nodes_def)
  moreover have "snd (timer_fires c (b\<lparr>bo_net := ?m\<rparr>)) = b\<lparr>bo_net := ?m\<rparr>"
  proof -
    have "upd_conn c (\<lambda>x. x\<lparr>bc_timer := Some False\<rparr>) ?m = ?m"
      by (rule upd_timer_same [OF closed(2)])
    then show ?thesis using closed(1) by (simp add: timer_fires_def Let_def)
  qed
  ultimately show ?thesis using same closed(4) by (simp add: h timer Let_def)
qed

theorem lost_peer_until_timer_witness:
  "1 \<in> set (snd (nw_nodes (bo_net (snd (handle_conn demo_env (Wired 0) [] demo_booster))))) \<and>
   1 \<notin> set (snd (nw_nodes (bo_net (snd (timer_fires 0 (snd (handle_conn demo_env (Wired 0) [] demo_booster)))))))"
proof -
  have c: "0 < length (nw_conns (bo_net demo_booster))" "bc_conn (the_conn (bo_net demo_booster) 0) = Some demo_conn"
      "\<not> c_running demo_conn" "bc_node (the_conn (bo_net demo_booster) 0) = 1"
      "node_to_be_traced (the_node (nw_heap (bo_net demo_booster)) 1)"
      "snd (nw_nodes (bo_net demo_booster)) = [1]" by code_simp+
  from lost_peer_until_timer [OF demo_booster_wf c(1,2,3), of demo_env] c(4-6) show ?thesis
    by (simp add: Let_def case_prod_unfold)
qed

lemma hello_ready: "encode_default wire_lib 0 (Some hello_value) MessageHello = Inr hello_packet"
proof -
  have "encode_header wire_lib 0 (VMessage MessageHello) = Inr [9, 1]" "encode_hello wire_lib hello_value = Inr [1]"
    by code_simp+
  moreover have "payload_encoders wire_lib MessageHello = Some (encode_hello wire_lib)"
    by (simp add: payload_encoders_def message_ids)
  ultimately show ?thesis by (simp add: encode_defs hello_packet_def)
qed

theorem hello_exchange_witness:
  "\<exists>b' c b2. accept_conn wire_env 0 demo_conn lone_booster = (Inr (), b') \<and>
    dial_booster (wire_env\<lparr>env_dial := (\<lambda>a. Inr (((fst (c_out (last (bo_accepted b'))), EOF), ([], None)), ''10.0.0.7:5''))\<rparr>)
      ''a'' demo_booster = (Inr c, b2) \<and> bc_id (the_conn (bo_net b2) c) = ''10.0.0.748841080''"
proof -
  have p: "node_bport (nw_heap (bo_net lone_booster)) (nw_local (bo_net lone_booster)) = ''4884''"
      "node_pport (nw_heap (bo_net lone_booster)) (nw_local (bo_net lone_booster)) = ''1080''" by code_simp+
  have env: "env_lib wire_env = wire_lib" "env_order wire_env = (\<lambda>q. map snd (pkt_modules q))" "env_resolve wire_env = Some"
      "env_sha1 wire_env = demo_sha1"
    by (simp_all add: wire_env_def demo_env_def)
  obtain cn where cn: "conn_send hello_packet (map snd (pkt_modules hello_packet)) demo_conn = (Inr (), cn)"
  proof -
    have "fst (conn_send hello_packet (map snd (pkt_modules hello_packet)) demo_conn) = Inr ()" by code_simp
    then show ?thesis using that [of "snd (conn_send hello_packet (map snd (pkt_modules hello_packet)) demo_conn)"]
      by (simp add: prod_eq_iff)
  qed
  let ?b' = "snd (accept_conn wire_env 0 demo_conn lone_booster)"
  have acc: "accept_conn wire_env 0 demo_conn lone_booster = (Inr (), ?b')"
    using hello_ready cn
    by (simp add: accept_conn_def send_hello_def and_then_def reading_def peer_send_def p env Let_def go_def hello_value_def nth_append)
  have it: "iterates (env_order wire_env q) q" for q by (simp add: env iterates_def)
  have host: "split_host_port ''10.0.0.7:5'' = Some (''10.0.0.7'', ''5'')" by code_simp
  have i: "sha1_hash demo_sha1 [bytes_of ''10.0.0.7'', bytes_of ''4884'', bytes_of ''1080''] = ''10.0.0.748841080''" by code_simp
  let ?F = "wire_env\<lparr>env_dial := (\<lambda>a. Inr (((fst (c_out (last (bo_accepted ?b'))), EOF), ([], None)), ''10.0.0.7:5''))\<rparr>"
  have F: "env_resolve ?F = Some" "env_sha1 ?F = demo_sha1" "env_lib ?F = env_lib wire_env"
      "env_dial ?F ''a'' = Inr (((fst (c_out (last (bo_accepted ?b'))) @ [], EOF), ([], None)), ''10.0.0.7:5'')"
    by (simp_all add: env)
  have acc': "accept_conn wire_env 0 (open_conn ([], EOF) ([], None) default_net_config) lone_booster = (Inr (), ?b')"
    using acc by (simp add: demo_conn_def)
  from hello_exchange [OF _ F(3) valid_epoch it acc' F(4) host, of
      "join_host_port ''10.0.0.7'' ''4884''" "join_host_port ''10.0.0.7'' ''1080''" demo_booster] wire_lib_ok i
  obtain c b2 where "dial_booster ?F ''a'' demo_booster = (Inr c, b2)" "bc_id (the_conn (bo_net b2) c) = ''10.0.0.748841080''"
    unfolding F p env by auto
  then show ?thesis using acc by blast
qed

text \<open>
  The monitor client crashes when the node closes the connection: whatever the packets before
  were, as long as \<open>Run\<close> accepts their payloads, the closed channel yields a nil packet whose
  module is asked for. Before that, the goroutine ends only at a packet without a payload or when
  \<open>Run\<close> returns an error.
\<close>

theorem monitor_crashes_at_close:
  assumes "\<forall>p \<in> set ps. \<exists>m. get_module p ModulePayload = Inr m \<and> run m = None"
  shows "monitor_run run (map Some ps) = Continues \<and> monitor_run run (map Some ps @ None # rest) = Crashes"
  using assms by (induction ps) (auto simp: monitor_round_def)

theorem monitor_crashes_at_close_witness:
  "monitor_run (\<lambda>m. None) [Some hello_packet, None] = Crashes"
proof -
  have "\<exists>m. get_module hello_packet ModulePayload = Inr m"
    by (simp add: get_module_def hello_packet_def ModulePayload_def)
  with monitor_crashes_at_close [of "[hello_packet]" "\<lambda>m. None" "[]"] show ?thesis by simp
qed

text \<open>Closing all connections of a node that restarts.\<close>

lemma close_untraced_facts:
  assumes "c < length (nw_conns n)" and "node_ref (nw_heap n) (bc_node (the_conn n c))"
  shows "bc_conn (the_conn (close_untraced c n) d) = (if d = c then None else bc_conn (the_conn n d))"
    and "bc_node (the_conn (close_untraced c n) d) = bc_node (the_conn n d)"
    and "nw_outgoing (close_untraced c n) = nw_outgoing n" and "nw_tracer (close_untraced c n) = nw_tracer n"
    and "node_ref (nw_heap (close_untraced c n)) x = node_ref (nw_heap n) x"
proof -
  let ?x = "bc_node (the_conn n c)"
  let ?n1 = "upd_heap (upd_node ?x (\<lambda>x. x\<lparr>node_to_be_traced := False\<rparr>)) n"
  have "close_untraced c n = ?n1" if "bc_conn (the_conn n c) = None"
    using that by (simp add: close_untraced_def bconn_close_def)
  moreover have "close_untraced c n = closed_link c ?n1" if "bc_conn (the_conn n c) \<noteq> None"
    using bconn_close_untraced [of ?n1 c] assms(2) that
    by (simp add: close_untraced_def the_node_def upd_node_def node_ref_def)
  ultimately show "bc_conn (the_conn (close_untraced c n) d) = (if d = c then None else bc_conn (the_conn n d))"
    "bc_node (the_conn (close_untraced c n) d) = bc_node (the_conn n d)"
    "nw_outgoing (close_untraced c n) = nw_outgoing n" "nw_tracer (close_untraced c n) = nw_tracer n"
    "node_ref (nw_heap (close_untraced c n)) x = node_ref (nw_heap n) x"
    using assms(1) by (cases "bc_conn (the_conn n c) = None"; auto simp: closed_link_def Let_def the_conn_upd set_is_active_def)+
qed

lemma close_all_facts:
  assumes "\<forall>(i, c) \<in> set xs. c < length (nw_conns n) \<and> node_ref (nw_heap n) (bc_node (the_conn n c))"
  shows "bc_conn (the_conn (fold (\<lambda>(k, c). close_untraced c) xs n) d) = (if d \<in> snd ` set xs then None else bc_conn (the_conn n d)) \<and>
    bc_node (the_conn (fold (\<lambda>(k, c). close_untraced c) xs n) d) = bc_node (the_conn n d) \<and>
    nw_outgoing (fold (\<lambda>(k, c). close_untraced c) xs n) = nw_outgoing n \<and>
    nw_tracer (fold (\<lambda>(k, c). close_untraced c) xs n) = nw_tracer n"
  using assms
proof (induction xs arbitrary: n)
  case (Cons x xs)
  obtain i c where x: "x = (i, c)" by fastforce
  have c: "c < length (nw_conns n)" "node_ref (nw_heap n) (bc_node (the_conn n c))" using Cons.prems by (auto simp: x)
  note facts = close_untraced_facts [OF c]
  have "\<forall>(i, d) \<in> set xs. d < length (nw_conns (close_untraced c n)) \<and>
      node_ref (nw_heap (close_untraced c n)) (bc_node (the_conn (close_untraced c n) d))"
    using Cons.prems by (auto simp: facts)
  from Cons.IH [OF this] show ?case by (auto simp: x facts)
qed simp

definition ctrl_packet :: packet where
  "ctrl_packet = \<lparr>pkt_meta = default_meta, pkt_modules =
     [(''HE'', \<lparr>mod_id = ''HE'', mod_size = 2, mod_payload = [9, 7]\<rparr>),
      (''PA'', \<lparr>mod_id = ''PA'', mod_size = 1, mod_payload = [7]\<rparr>)]\<rparr>"

text \<open>
  Stopping and restarting from a peer: a control packet that says stop is received by a
  \<open>Run\<close> that is waiting, and hangs the handling of that connection for ever when nothing is
  waiting any more, so the second stop of a node never returns. A restart closes every registered
  connection first, none of whose nodes is offered or traced afterwards.
\<close>

theorem stop_and_restart:
  assumes "net_decode (env_lib E) p ModulePayload TCtrl = Inr (VCtrl oper)" and "net_wf (bo_net b)"
    and "oper = CtrlStop \<or> oper = CtrlRestart"
  shows "(fst (handle_ctrl E pr p b) = (if bo_run b = Waiting then Inr () else Inl Hang)) \<and>
    bo_run (snd (handle_ctrl E pr p b)) =
      (if bo_run b = Waiting then (if oper = CtrlStop then Stopped else Restarted) else bo_run b) \<and>
    fst (handle_ctrl E pr p (snd (handle_ctrl E pr p b))) = Inl Hang \<and>
    (if oper = CtrlStop then bo_net (snd (handle_ctrl E pr p b)) = bo_net b
     else snd (nw_nodes (bo_net (snd (handle_ctrl E pr p b)))) = [] \<and>
       nw_tracer (bo_net (snd (handle_ctrl E pr p b))) = nw_tracer (bo_net b) \<and>
       (\<forall>i c. (i, c) \<in> set (nw_outgoing (bo_net b)) \<longrightarrow> bc_conn (the_conn (bo_net (snd (handle_ctrl E pr p b))) c) = None))"
proof -
  have ops: "CtrlRestart \<noteq> CtrlStop" by (simp add: CtrlRestart_def CtrlStop_def)
  let ?n' = "fold (\<lambda>(k, c). close_untraced c) (nw_outgoing (bo_net b)) (bo_net b)"
  have h: "handle_ctrl E pr p b' =
      (if oper = CtrlStop then signal_run Stopped b'
       else signal_run Restarted (b'\<lparr>bo_net := fold (\<lambda>(k, c). close_untraced c) (nw_outgoing (bo_net b')) (bo_net b')\<rparr>))" for b'
    using assms(1,3) ops
    by (auto simp: handle_ctrl_def on_failure_def and_then_def payload_of_def reading_def bo_close_def bo_restart_def signal_run_def)
  have "\<forall>(i, c) \<in> set (nw_outgoing (bo_net b)). c < length (nw_conns (bo_net b)) \<and> node_ref (nw_heap (bo_net b)) (bc_node (the_conn (bo_net b) c))"
    using assms(2) net_wf_conn [OF assms(2)] by (auto simp: net_wf_def)
  note facts = close_all_facts [OF this]
  have closed: "bc_conn (the_conn ?n' c) = None" if "(i, c) \<in> set (nw_outgoing (bo_net b))" for i c
    using facts [of c] that by force
  have og: "nw_outgoing ?n' = nw_outgoing (bo_net b)" using facts by blast
  have "snd (nw_nodes ?n') = []"
    unfolding nw_nodes_def og using closed by (auto simp: filter_empty_conv)
  then show ?thesis
    using closed facts assms(3) ops by (cases "oper = CtrlStop") (auto simp: h signal_run_def)
qed

theorem stop_and_restart_witness:
  "fst (handle_ctrl wire_env (Accepted 0) ctrl_packet demo_booster) = Inr () \<and>
   fst (handle_ctrl wire_env (Accepted 0) ctrl_packet (snd (handle_ctrl wire_env (Accepted 0) ctrl_packet demo_booster))) = Inl Hang"
proof -
  have "net_decode (env_lib wire_env) ctrl_packet ModulePayload TCtrl = Inr (VCtrl CtrlStop)" by code_simp
  from stop_and_restart [OF this demo_booster_wf, of "Accepted 0"] show ?thesis
    by (simp add: demo_booster_def)
qed

text \<open>
  The identifier of a node is the hash of its two ports one after the other, so two nodes of one
  process whose ports have the same digits in a row get the same one, and creating the second crashes
  the process: the network is already registered.
\<close>

theorem same_digits_crash_new:
  assumes "itoa pp @ itoa bp = itoa pp' @ itoa bp'" and "\<And>host port. env_resolve E (join_host_port host port) \<noteq> None"
    and "new_booster E pp bp ns = (Inr b, ns')"
  shows "fst (new_booster E pp' bp' ns') = Inl Panic"
proof -
  have "bytes_of (itoa pp') @ bytes_of (itoa bp') = bytes_of (itoa pp) @ bytes_of (itoa bp)"
    unfolding bytes_of_def map_append [symmetric] assms(1) ..
  then have i: "booster_id E pp' bp' = booster_id E pp bp"
    by (simp add: booster_id_def sha1_hash_def)
  obtain ba pa where a: "env_resolve E (join_host_port ''localhost'' (itoa bp')) = Some ba"
      "env_resolve E (join_host_port ''localhost'' (itoa pp')) = Some pa"
    using assms(2) by (metis not_Some_eq)
  have "map_of ns' (booster_id E pp bp) \<noteq> None"
    using assms(3) by (auto simp: new_booster_def Let_def nets_set_def update_conv' split: prod.splits sum.splits option.splits)
  then show ?thesis
    by (auto simp: new_booster_def new_node_def a i nets_set_def Let_def)
qed

theorem same_digits_crash_new_witness:
  "fst (new_booster wire_env 12 3 (snd (new_booster wire_env 1 23 []))) = Inl Panic"
proof -
  have e: "itoa 1 @ itoa 23 = itoa 12 @ itoa 3" by code_simp
  have r: "env_resolve wire_env a \<noteq> None" for a by (simp add: wire_env_def demo_env_def)
  have "\<exists>b. new_booster wire_env 1 23 [] = (Inr b, snd (new_booster wire_env 1 23 []))"
    by (simp add: new_booster_def new_node_def wire_env_def demo_env_def nets_set_def Let_def)
  then obtain b where "new_booster wire_env 1 23 [] = (Inr b, snd (new_booster wire_env 1 23 []))" ..
  from same_digits_crash_new [OF e r this] show ?thesis .
qed

text \<open>
  Monitor requests: whatever the server of the requested feature does short of crashing or hanging,
  and also when the request cannot be read or names an unknown feature, the connection that asked is
  closed in the end; for an unknown feature nothing else happens.
\<close>

theorem monitor_request_closes:
  assumes "k < length (bo_accepted b)" and "serve_monitor E serve (Accepted k) p b = (r, b')" and "r \<noteq> Inl Panic" and "r \<noteq> Inl Hang"
    and "\<And>kind c. length (bo_accepted (snd (serve kind c))) = length (bo_accepted c)"
  shows "c_closed (bo_accepted b' ! k) \<and>
    (\<forall>f. net_decode (env_lib E) p ModulePayload TMonitor = Inr (VMonitor f) \<longrightarrow> f \<notin> {MonitorNode, MonitorNet} \<longrightarrow>
      r = Inr () \<and> b' = b\<lparr>bo_accepted := (bo_accepted b)[k := conn_close (bo_accepted b ! k)]\<rparr>)"
proof -
  let ?m = "and_then (payload_of E p TMonitor) (\<lambda>v.
         case v of
           VMonitor f \<Rightarrow>
             if f = MonitorNode then dropping (serve NodeServer)
             else if f = MonitorNet then dropping (serve NetServer)
             else done_with ()
         | _ \<Rightarrow> fail_with Panic)"
  obtain q c where m: "?m b = (q, c)" by fastforce
  have run: "deferring (peer_close (Accepted k)) ?m b = (r, b')" using assms(2) by (simp add: serve_monitor_def)
  have len: "length (bo_accepted (snd (dropping (serve kind) x))) = length (bo_accepted x)" for kind x
    using assms(5) [of kind x]
    by (auto simp: dropping_def split: prod.splits sum.splits stop.splits)
  have "length (bo_accepted (snd (?m b))) = length (bo_accepted b)"
    using len by (simp add: and_then_def payload_of_def reading_def done_with_def fail_with_def
        split: sum.splits gvalue.splits)
  then have "length (bo_accepted c) = length (bo_accepted b)" by (simp add: m)
  moreover have "b' = c\<lparr>bo_accepted := (bo_accepted c)[k := conn_close (bo_accepted c ! k)]\<rparr>"
    using run m assms(3,4)
    by (auto simp: deferring_def and_then_def dropping_def peer_close_def done_with_def fail_with_def
        split: sum.splits stop.splits)
  ultimately have "c_closed (bo_accepted b' ! k)" using assms(1) by (simp add: conn_close_def)
  moreover have "r = Inr () \<and> b' = b\<lparr>bo_accepted := (bo_accepted b)[k := conn_close (bo_accepted b ! k)]\<rparr>"
    if "net_decode (env_lib E) p ModulePayload TMonitor = Inr (VMonitor f)" and "f \<notin> {MonitorNode, MonitorNet}" for f
    using run that
    by (auto simp: deferring_def and_then_def dropping_def peer_close_def done_with_def payload_of_def reading_def)
  ultimately show ?thesis by blast
qed

end
