(* ===== verification/Mirror.thy ===== *)
theory Mirror
  imports Handler_Props
begin

text \<open>
  A node as its peers see it: \<open>ServeStatus\<close> sends the tunnel events of a node's proxy to a
  peer, whose \<open>Handle\<close> charges them to the node the connection belongs to (\<open>handlers.go\<close>).
  The two ends are composed here over the bytes of the connection between them.
\<close>

section \<open>The sending end\<close>

fun event_update :: "tunnel_event \<Rightarrow> payload_proxy_update" where
  "event_update (Opened t) = tunnel_update TunnelAdded t"
| "event_update (Ended t) = tunnel_update TunnelRemoved t"

text \<open>The subscriber of \<open>ServeStatus\<close> on the events it receives, each at its time.\<close>

fun serve_events :: "env \<Rightarrow> peer \<Rightarrow> (gotime \<times> tunnel_event) list \<Rightarrow> unit booster_step" where
  "serve_events E pr [] b = (Inr (), b)"
| "serve_events E pr ((now, e) # es) b =
     and_then (serve_status_run E now pr (VProxyUpdate (event_update e))) (\<lambda>_. serve_events E pr es) b"

text \<open>A packet that a peer decodes to the event.\<close>

definition carries :: "codec_lib \<Rightarrow> tunnel_event \<Rightarrow> packet \<Rightarrow> bool" where
  "carries L e p \<longleftrightarrow>
     (\<exists>h. net_decode L p ModuleHeader THeader = Inr (VHeader h) \<and> hdr_id h = MessageProxyUpdate) \<and>
     (\<exists>i. net_decode L p ModulePayload TProxyUpdate = Inr (VProxyUpdate ((event_update e)\<lparr>pu_node_id := i\<rparr>)))"

lemma carries_received:
  "sendable (p, ord) \<Longrightarrow> carries L e (received p ord) \<longleftrightarrow> carries L e p"
  by (simp add: carries_def packet_over_connection(3))

lemma serve_status_sends:
  assumes "proto_ok (env_lib E)" and "valid_time now" and "\<And>q. iterates (env_order E q) q"
    and "k < length (bo_accepted b)" and "c_out (bo_accepted b ! k) = (out, None)"
    and "c_config (bo_accepted b ! k) = default_net_config"
    and "serve_status_run E now (Accepted k) (VProxyUpdate (event_update e)) b = (Inr (), b')"
  obtains p where "sendable (p, env_order E p)" and "carries (env_lib E) e p"
    and "b' = b\<lparr>bo_accepted := (bo_accepted b)[k := (bo_accepted b ! k)
      \<lparr>c_out := (out @ packet_bytes net_tags p (env_order E p), None)\<rparr>]\<rparr>"
proof -
  let ?v = "VProxyUpdate ((event_update e)\<lparr>pu_node_id := local_id b\<rparr>)"
  obtain p where p: "encode_default (env_lib E) now (Some ?v) MessageProxyUpdate = Inr p"
    and send: "peer_send E p (Accepted k) b = (Inr (), b')"
    using assms(7) by (auto simp: serve_status_run_def and_then_def reading_def split: sum.splits)
  have dec: "net_decode (env_lib E) p ModulePayload TProxyUpdate = Inr ?v" "packet_wf p" "module_count_ok p"
    using encode_default_decodes [OF assms(1,2) _ p] by auto
  have s: "sendable (p, env_order E p)" using dec assms(3) by (simp add: sendable_def)
  moreover have "carries (env_lib E) e p"
    using dec(1) encode_default_header [OF assms(1,2) p] by (auto simp: carries_def)
  moreover have "b' = b\<lparr>bo_accepted := (bo_accepted b)[k := (bo_accepted b ! k)
      \<lparr>c_out := (out @ packet_bytes net_tags p (env_order E p), None)\<rparr>]\<rparr>"
    using send conn_send_bytes [OF s assms(6,5)] by (simp add: peer_send_def)
  ultimately show ?thesis by (rule that)
qed

lemma serve_events_send:
  assumes "proto_ok (env_lib E)" and "\<And>q. iterates (env_order E q) q"
    and "\<forall>(now, e) \<in> set es. valid_time now"
    and "k < length (bo_accepted b)" and "c_out (bo_accepted b ! k) = (out, None)"
    and "c_config (bo_accepted b ! k) = default_net_config"
    and "serve_events E (Accepted k) es b = (Inr (), b')"
  shows "\<exists>ss. c_out (bo_accepted b' ! k) = (out @ stream_of ss, None) \<and> (\<forall>s \<in> set ss. sendable s) \<and>
    list_all2 (\<lambda>e s. carries (env_lib E) e (received (fst s) (snd s))) (map snd es) ss"
  using assms(3-7)
proof (induction es arbitrary: b out)
  case Nil
  then show ?case by (simp add: stream_of_def)
next
  case (Cons x es)
  obtain now e where x: "x = (now, e)" by fastforce
  from Cons.prems(5) x obtain b1 where
    run: "serve_status_run E now (Accepted k) (VProxyUpdate (event_update e)) b = (Inr (), b1)"
    and rest: "serve_events E (Accepted k) es b1 = (Inr (), b')"
    by (auto elim: and_then_InrE')
  have now: "valid_time now" using Cons.prems(1) x by simp
  from serve_status_sends [OF assms(1) now assms(2) Cons.prems(2-4) run] obtain p where
    s: "sendable (p, env_order E p)" and c: "carries (env_lib E) e p"
    and b1: "b1 = b\<lparr>bo_accepted := (bo_accepted b)[k := (bo_accepted b ! k)
      \<lparr>c_out := (out @ packet_bytes net_tags p (env_order E p), None)\<rparr>]\<rparr>" .
  have "\<exists>ss. c_out (bo_accepted b' ! k) = ((out @ packet_bytes net_tags p (env_order E p)) @ stream_of ss, None) \<and>
      (\<forall>s \<in> set ss. sendable s) \<and> list_all2 (\<lambda>e s. carries (env_lib E) e (received (fst s) (snd s))) (map snd es) ss"
    using Cons.prems b1 rest by (intro Cons.IH [of b1]) auto
  then obtain ss where ss: "c_out (bo_accepted b' ! k) = ((out @ packet_bytes net_tags p (env_order E p)) @ stream_of ss, None)"
      "\<forall>s \<in> set ss. sendable s" "list_all2 (\<lambda>e s. carries (env_lib E) e (received (fst s) (snd s))) (map snd es) ss" by blast
  let ?ss = "(p, env_order E p) # ss"
  have "c_out (bo_accepted b' ! k) = (out @ stream_of ?ss, None)" using ss(1) by (simp add: stream_of_def)
  moreover have "\<forall>s \<in> set ?ss. sendable s" using s ss(2) by simp
  moreover have "list_all2 (\<lambda>e s. carries (env_lib E) e (received (fst s) (snd s))) (map snd (x # es)) ?ss"
    using c s ss(3) x by (simp add: carries_received)
  ultimately show ?case by blast
qed

section \<open>The receiving end\<close>

lemma update_node_result: "fst (update_node sha1 x (event_update e \<lparr>pu_node_id := i\<rparr>) ack n) \<noteq> Inl Panic"
    "fst (update_node sha1 x (event_update e \<lparr>pu_node_id := i\<rparr>) ack n) \<noteq> Inl Hang"
  by (cases e; auto simp: update_node_def tunnel_update_def Let_def net_remove_tunnel_def split: prod.splits sum.splits)+

lemma update_node_id: "update_node sha1 x (u\<lparr>pu_node_id := i\<rparr>) ack n = update_node sha1 x u ack n"
  by (simp add: update_node_def)

abbreviation node_event :: "(bytes \<Rightarrow> string) \<Rightarrow> nat \<Rightarrow> tunnel_event \<Rightarrow> network \<Rightarrow> network" where
  "node_event sha1 x e n \<equiv> snd (update_node sha1 x (event_update e) True n)"

lemma node_event_heap: "nw_heap (node_event sha1 x e n) = node_ledger.apply_event sha1 x True e (nw_heap n)"
  by (cases e) (simp_all add: update_node_heap)

lemma node_events_heap:
  "nw_heap (fold (node_event sha1 x) es n) = fold (node_ledger.apply_event sha1 x True) es (nw_heap n)"
  by (induction es arbitrary: n) (simp_all add: node_event_heap)

lemma handle_packet_event:
  assumes "carries (env_lib F) e p"
  shows "handle_packet F t1 t2 (Wired c) p a =
    (Inr (), a\<lparr>bo_net := node_event (env_sha1 F) (bc_node (the_conn (bo_net a) c)) e (bo_net a)\<rparr>)"
proof -
  obtain h i where d: "net_decode (env_lib F) p ModuleHeader THeader = Inr (VHeader h)" "hdr_id h = MessageProxyUpdate"
      "net_decode (env_lib F) p ModulePayload TProxyUpdate = Inr (VProxyUpdate ((event_update e)\<lparr>pu_node_id := i\<rparr>))"
    using assms by (auto simp: carries_def)
  obtain r n where u: "update_node (env_sha1 F) (bc_node (the_conn (bo_net a) c)) (event_update e) True (bo_net a) = (r, n)"
    by fastforce
  have r: "r \<noteq> Inl Panic" "r \<noteq> Inl Hang"
    using update_node_result [where e = e and i = "pu_node_id (event_update e)" and ack = True and n = "bo_net a"
      and x = "bc_node (the_conn (bo_net a) c)" and ?sha1.0 = "env_sha1 F"] u by simp_all
  have "dropping (handle_tunnel F c p) a = (Inr (), a\<lparr>bo_net := n\<rparr>)"
    using r by (auto simp: dropping_def handle_tunnel_def and_then_def payload_of_def reading_def d(3) on_net_def update_node_id u
        split: sum.splits stop.splits)
  then show ?thesis
    using d u by (simp add: handle_packet_def and_then_def reading_def message_ids)
qed

lemma handle_packets_events:
  assumes "list_all2 (\<lambda>e tp. carries (env_lib F) e (snd (snd tp))) es tps"
  shows "handle_packets F (Wired c) tps a =
    (Inr (), a\<lparr>bo_net := fold (node_event (env_sha1 F) (bc_node (the_conn (bo_net a) c))) es (bo_net a)\<rparr>)"
  using assms
proof (induction tps arbitrary: es a rule: list.induct)
  case Nil
  then have "es = []" by simp
  then show ?case by simp
next
  case (Cons tp tps)
  then obtain e es' where es: "es = e # es'" "carries (env_lib F) e (snd (snd tp))"
      "list_all2 (\<lambda>e tp. carries (env_lib F) e (snd (snd tp))) es' tps"
    by (auto simp: list_all2_Cons2)
  obtain t1 t2 p where tp: "tp = (t1, t2, p)" by (cases tp)
  let ?a = "a\<lparr>bo_net := node_event (env_sha1 F) (bc_node (the_conn (bo_net a) c)) e (bo_net a)\<rparr>"
  have "handle_packet F t1 t2 (Wired c) p a = (Inr (), ?a)" using handle_packet_event es(2) tp by simp
  moreover have "the_conn (bo_net ?a) c = the_conn (bo_net a) c" by (simp add: the_conn_def update_node_other)
  ultimately show ?case using Cons.IH [OF es(3), of ?a] by (simp add: tp es(1) and_then_def on_failure_def)
qed

section \<open>Properties\<close>


definition mirror_lib :: codec_lib where
  "mirror_lib = table_lib [(PbHeader (new_header MessageProxyUpdate epoch_stamp), [9, 10]),
     (PbProxyUpdate \<lparr>pbp_node_id = ''localhost48841080'', pbp_target = ''a:1'', pbp_operation = TunnelAdded\<rparr>, [10])]"

lemma mirror_lib_ok: "proto_ok mirror_lib"
  unfolding mirror_lib_def by (rule table_lib_ok) (simp add: message_ids)

definition mirror_env :: env where
  "mirror_env = demo_env\<lparr>env_lib := mirror_lib\<rparr>"

definition mirror_packet :: packet where
  "mirror_packet = \<lparr>pkt_meta = default_meta, pkt_modules =
     [(''HE'', \<lparr>mod_id = ''HE'', mod_size = 2, mod_payload = [9, 10]\<rparr>),
      (''PA'', \<lparr>mod_id = ''PA'', mod_size = 1, mod_payload = [10]\<rparr>)]\<rparr>"

lemma mirror_ready:
  "encode_default mirror_lib 0 (Some (VProxyUpdate ((event_update (Opened ''a:1''))\<lparr>pu_node_id := ''localhost48841080''\<rparr>))) MessageProxyUpdate = Inr mirror_packet"
proof -
  have "encode_header mirror_lib 0 (VMessage MessageProxyUpdate) = Inr [9, 10]"
    "encode_proxy_update mirror_lib (VProxyUpdate ((event_update (Opened ''a:1''))\<lparr>pu_node_id := ''localhost48841080''\<rparr>)) = Inr [10]"
    by code_simp+
  moreover have "payload_encoders mirror_lib MessageProxyUpdate = Some (encode_proxy_update mirror_lib)"
    by (simp add: payload_encoders_def message_ids)
  ultimately show ?thesis by (simp add: encode_defs mirror_packet_def)
qed


end
