(* ===== verification/Service.thy ===== *)
theory Service
  imports Handler_Props Socks5_Props
begin

text \<open>
  The service a node offers, composed of its parts as \<open>New\<close> of \<open>booster.go\<close> does: the
  SOCKS5 proxy, whose dialer is the dispatcher over the node's network. The network may change at any
  time, also between two attempts of one dial: it is a function of the attempt.
\<close>

section \<open>The proxy over the network\<close>

fun dial_error_text :: "string dial_error \<Rightarrow> string" where
  "dial_error_text BalancerFailed = ''dialer: no suitable node''"
| "dial_error_text (DialFailed e) = e"

text \<open>
  \<open>ns i\<close> is the network at the \<open>i\<close>-th attempt, \<open>via i g target\<close> the outcome of
  dialling the target from here or through a node's proxy, \<open>ctx i\<close> the context's error after it.
\<close>

definition service_world ::
    "(nat \<Rightarrow> network) \<Rightarrow> (nat \<Rightarrow> gateway \<Rightarrow> string \<Rightarrow> string + tconn) \<Rightarrow> (nat \<Rightarrow> string option) \<Rightarrow> string \<Rightarrow>
     (tconn, string) dial_world" where
  "service_world ns via ctx target =
     \<lparr>w_view = (\<lambda>i. nw_nodes (ns i)), w_heap = (\<lambda>i. nw_heap (ns i)), w_dial = (\<lambda>i g. via i g target), w_ctx_err = ctx\<rparr>"

definition dispatcher_dialer ::
    "nat \<Rightarrow> (nat \<Rightarrow> network) \<Rightarrow> (nat \<Rightarrow> gateway \<Rightarrow> string \<Rightarrow> string + tconn) \<Rightarrow> (nat \<Rightarrow> string option) \<Rightarrow> dialer" where
  "dispatcher_dialer fuel ns via ctx target =
     (case dial_context fuel (service_world ns via ctx target) of
        Some ((conn, err), _) \<Rightarrow> (conn, map_option dial_error_text err)
      | None \<Rightarrow> (None, None))"

text \<open>The nodes that the balancer can choose from, by identifier.\<close>

definition network_ids :: "network \<Rightarrow> string set" where
  "network_ids n = (\<lambda>m. node_id (the_node (nw_heap n) m)) ` insert (nw_local n) (set (snd (nw_nodes n)))"

lemma nw_nodes_local: "fst (nw_nodes n) = nw_local n"
  by (simp add: nw_nodes_def)

lemma service_connects:
  assumes "\<And>i. net_wf (ns i)" and "finite I" and "\<And>i. network_ids (ns i) \<subseteq> I" and "card I \<le> fuel"
    and "\<And>i. x \<in> network_ids (ns i)"
    and "\<And>i m. m \<in> insert (nw_local (ns i)) (set (snd (nw_nodes (ns i)))) \<Longrightarrow> node_id (the_node (nw_heap (ns i)) m) = x \<Longrightarrow>
      \<exists>t. via i (dialer_for_node (nw_heap (ns i)) m) target = Inr t"
  shows "\<exists>t i g. dispatcher_dialer fuel ns via (\<lambda>_. None) target = (Some t, None) \<and> via i g target = Inr t"
proof -
  let ?w = "service_world ns via (\<lambda>_. None) target"
  have w: "world_ids ?w i = network_ids (ns i)" "listed ?w i m \<longleftrightarrow> m \<in> insert (nw_local (ns i)) (set (snd (nw_nodes (ns i))))" for i m
    by (simp_all add: world_ids_def network_ids_def listed_def service_world_def nw_nodes_local)
  have "\<exists>c tried j m. dial_context fuel ?w = Some ((Some c, None), tried) \<and>
      w_dial ?w j (dialer_for_node (w_heap ?w j) m) = Inr c"
  proof (rule dial_context_connects [OF assms(2) _ assms(4), of ?w x])
    show "world_ids ?w i \<subseteq> I" for i unfolding w by (rule assms(3))
    show "w_ctx_err ?w j = None" for j by (simp add: service_world_def)
    show "\<exists>m. listed ?w j m \<and> (m = fst (w_view ?w j) \<or> is_active (w_heap ?w j) m) \<and> node_id (the_node (w_heap ?w j) m) = x" for j
      using assms(5) [of j] dispatch.listed_active [OF assms(1)]
      unfolding w by (auto simp: network_ids_def service_world_def nw_nodes_local)
    show "\<exists>c. w_dial ?w j (dialer_for_node (w_heap ?w j) m) = Inr c"
      if "listed ?w j m" and "node_id (the_node (w_heap ?w j) m) = x" for j m
      using assms(6) [of m j] that unfolding w by (simp add: service_world_def)
  qed
  then obtain c tried j m where d: "dial_context fuel ?w = Some ((Some c, None), tried)"
    "w_dial ?w j (dialer_for_node (w_heap ?w j) m) = Inr c" by blast
  have "dispatcher_dialer fuel ns via (\<lambda>_. None) target = (Some c, None)" using d(1) by (simp add: dispatcher_dialer_def)
  moreover have "via j (dialer_for_node (nw_heap (ns j)) m) target = Inr c" using d(2) by (simp add: service_world_def)
  ultimately show ?thesis by blast
qed

section \<open>Properties\<close>



end
