(* ===== verification/Heartbeat.thy ===== *)
theory Heartbeat
  imports Handler_Props
begin

text \<open>
  The heartbeats of one connection over time. The node that wired the connection sends the first
  heartbeat and starts its timer; each end answers a heartbeat once its time is over
  (\<open>HandleHeartbeat\<close>), and only the end that wired has a timer (\<open>Wire\<close>). The expiry of a
  heartbeat is an instant of the sender's clock that is compared with the receiver's.
\<close>

section \<open>One end\<close>

text \<open>
  When a heartbeat is received at \<open>now\<close>: nothing if it has expired; otherwise the wait for its
  expiry, which ends \<open>late\<close> by the scheduling, and the answer that is sent then.
\<close>

definition heartbeat_reply :: "int \<Rightarrow> gotime \<Rightarrow> int \<Rightarrow> payload_heartbeat \<Rightarrow> (gotime \<times> payload_heartbeat) option" where
  "heartbeat_reply ttl now late h =
     (if hb_ttl h < now then None
      else let later = max now (hb_ttl h) + late in Some (later, next_heartbeat ttl later (Some h)))"

text \<open>It is what \<open>HandleHeartbeat\<close> does.\<close>

lemma heartbeat_reply_received:
  assumes "net_decode (env_lib E) p ModulePayload THeartbeat = Inr (VHeartbeat h)"
    and "\<And>c. pr = Wired c \<Longrightarrow> bc_timer (the_conn (bo_net b) c) \<noteq> None"
  shows "heartbeat_reply ttl now late h \<noteq> None \<longleftrightarrow> (\<exists>b'. heartbeat_received E now pr p b = (Inr h, b'))"
proof -
  obtain b' where t: "set_timer False pr b = (Inr (), b')"
    using assms(2) by (cases pr) (auto simp: set_timer_def)
  show ?thesis
  proof (cases "hb_ttl h < now")
    case True
    obtain r :: "net_error stop + payload_heartbeat" and b2 where r: "and_then (dropping (peer_close pr)) (\<lambda>_. fail_with (Error (HeartbeatExpired (hb_ttl h)))) b = (r, b2)"
      by fastforce
    then have "r \<noteq> Inr x" for x :: payload_heartbeat
      by (auto simp: and_then_def fail_with_def split: prod.splits sum.splits)
    then show ?thesis
      using True assms(1) r
      by (auto simp: heartbeat_reply_def heartbeat_received_def on_failure_def and_then_def payload_of_def reading_def fail_with_def
          split: prod.splits)
  next
    case False
    then show ?thesis
      using assms(1) t
      by (simp add: heartbeat_reply_def heartbeat_received_def on_failure_def and_then_def payload_of_def reading_def done_with_def Let_def)
  qed
qed

lemma heartbeat_reply_answer:
  assumes "heartbeat_reply (nw_heartbeat_ttl n) now late h = Some (later, h')"
  shows "compose_heartbeat L later n (Some h) = encode_default L later (Some (VHeartbeat h')) MessageHeartbeat"
  using assms by (auto simp: heartbeat_reply_def compose_heartbeat_def Let_def split: if_splits)

section \<open>A connection\<close>

text \<open>
  A round, from a heartbeat that the wiring end sends at \<open>sent\<close> to the next one: the heartbeat
  is on its way for \<open>there\<close>, the answer for \<open>back\<close>. Times are those of the wiring end's
  clock; the other clock is ahead of it by \<open>skew\<close>. The timer runs for twice the time to live.
\<close>

record hb_round =
  rd_there :: int
  rd_late :: int
  rd_back :: int
  rd_late_back :: int

datatype link = Alive gotime payload_heartbeat | ExpiredThere | TimerFired | ExpiredBack

definition link_round :: "int \<Rightarrow> int \<Rightarrow> hb_round \<Rightarrow> gotime \<Rightarrow> payload_heartbeat \<Rightarrow> link" where
  "link_round ttl skew rd sent h =
     (case heartbeat_reply ttl (sent + rd_there rd + skew) (rd_late rd) h of
        None \<Rightarrow> ExpiredThere
      | Some (answered, h1) \<Rightarrow>
         (let now = answered - skew + rd_back rd in
          if sent + 2 * ttl \<le> now then TimerFired
          else (case heartbeat_reply ttl now (rd_late_back rd) h1 of
                  None \<Rightarrow> ExpiredBack
                | Some (later, h2) \<Rightarrow> Alive later h2)))"

fun link_run :: "int \<Rightarrow> int \<Rightarrow> hb_round list \<Rightarrow> gotime \<Rightarrow> payload_heartbeat \<Rightarrow> link" where
  "link_run ttl skew [] sent h = Alive sent h"
| "link_run ttl skew (rd # rds) sent h =
     (case link_round ttl skew rd sent h of
        Alive sent' h' \<Rightarrow> link_run ttl skew rds sent' h'
      | dead \<Rightarrow> dead)"

definition punctual :: "int \<Rightarrow> int \<Rightarrow> hb_round \<Rightarrow> bool" where
  "punctual ttl skew rd \<longleftrightarrow> rd_there rd + skew \<le> ttl \<and> rd_late rd + rd_back rd - skew < ttl"

definition causal :: "hb_round \<Rightarrow> bool" where
  "causal rd \<longleftrightarrow> 0 \<le> rd_there rd \<and> 0 \<le> rd_late rd \<and> 0 \<le> rd_back rd \<and> 0 \<le> rd_late_back rd"

text \<open>A round of a heartbeat that expires \<open>ttl\<close> after it was sent.\<close>

lemma link_round_alive:
  assumes "hb_ttl h = sent + ttl" and "causal rd" and "punctual ttl skew rd"
  shows "\<exists>later h'. link_round ttl skew rd sent h = Alive later h' \<and> hb_ttl h' = later + ttl \<and>
    hb_hops h' = hb_hops h + 2 \<and> hb_id h' = hb_id h"
proof -
  let ?answered = "sent + ttl + rd_late rd"
  let ?h1 = "next_heartbeat ttl ?answered (Some h)"
  have there: "heartbeat_reply ttl (sent + rd_there rd + skew) (rd_late rd) h = Some (?answered, ?h1)"
    using assms by (simp add: heartbeat_reply_def punctual_def max_def Let_def)
  let ?now = "?answered - skew + rd_back rd"
  have intime: "\<not> sent + 2 * ttl \<le> ?now" "\<not> hb_ttl ?h1 < ?now"
    using assms by (auto simp: punctual_def causal_def next_heartbeat_def Let_def)
  let ?later = "max ?now (hb_ttl ?h1) + rd_late_back rd"
  have "link_round ttl skew rd sent h = Alive ?later (next_heartbeat ttl ?later (Some ?h1))"
    using intime by (simp add: link_round_def there Let_def) (simp add: heartbeat_reply_def Let_def)
  then show ?thesis by (auto simp: next_heartbeat_def Let_def)
qed

lemma link_round_dead:
  assumes "hb_ttl h = sent + ttl" and "causal rd" and "\<not> punctual ttl skew rd"
  shows "link_round ttl skew rd sent h = (if ttl < rd_there rd + skew then ExpiredThere else TimerFired)"
  using assms by (auto simp: link_round_def heartbeat_reply_def punctual_def causal_def Let_def max_def)

section \<open>Properties\<close>



end
