(* ===== verification/Whole.thy ===== *)
theory Whole
  imports Handlers Machines
begin

text \<open>
  A running node as a whole: the goroutines that accept connections, handle packets, serve
  subscribers, run timers and trace lost nodes, each of which works on the same network, take turns
  in any order. A turn is one handler, one run of a subscriber or one timer; a heartbeat takes two,
  since its handler waits in between and everything else goes on meanwhile.
\<close>

section \<open>State and events\<close>

text \<open>\<open>wh_waiting\<close>: the handlers that wait for the expiry of a heartbeat.\<close>

record whole =
  wh_node :: booster
  wh_waiting :: "(peer \<times> payload_heartbeat) list"

datatype node_event =
    Accepts gotime socket
  | Consumes peer
  | Handles peer gotime gotime packet
  | HeartbeatBegins peer gotime packet
  | HeartbeatEnds peer gotime
  | TimerFires nat
  | RootEvent gvalue
  | StatusEvent peer gotime gvalue
  | MonitorBegins peer packet
  | NodeShown peer gotime
  | NodeEvent peer gotime net_message
  | NetEvent peer gotime bandwidth_message
  | ServingEnds peer
  | Traced gotime tracer_message
  | RunSelects
  | Interrupted

text \<open>What runs on the node and leaves the waiting handlers alone.\<close>

definition on_node :: "unit booster_step \<Rightarrow> (whole, net_error stop, unit) step" where
  "on_node m s = (case m (wh_node s) of (r, b) \<Rightarrow> (r, s\<lparr>wh_node := b\<rparr>))"

text \<open>
  The subscriber of \<open>TraceNodes\<close> with \<open>b.Connect\<close>, by which the node asks itself over the
  network to wire the node that is back.
\<close>

definition local_baddr :: "booster \<Rightarrow> string" where
  "local_baddr b = node_baddr (the_node (nw_heap (bo_net b)) (nw_local (bo_net b)))"

definition reconnect_to :: "env \<Rightarrow> gotime \<Rightarrow> nat \<Rightarrow> string booster_step" where
  "reconnect_to E now c b =
     connect_cmd E now (local_baddr b) (node_baddr (the_node (nw_heap (bo_net b)) (bc_node (the_conn (bo_net b) c)))) b"

definition trace_event :: "env \<Rightarrow> gotime \<Rightarrow> tracer_message \<Rightarrow> unit booster_step" where
  "trace_event E now m b =
     (case (if msg_err m then None else map_of (nw_outgoing (bo_net b)) (msg_id m)) of
        None \<Rightarrow> on_net (traced_message (\<lambda>a n. (False, n)) m) b
      | Some c \<Rightarrow>
          (case reconnect_to E now c b of
             (Inl Panic, b') \<Rightarrow> (Inl Panic, b')
           | (Inl Hang, b') \<Rightarrow> (Inl Hang, b')
           | (Inl (Error e), b') \<Rightarrow> (Inr (), b')
           | (Inr x, b') \<Rightarrow> on_net (\<lambda>n. traced_message (\<lambda>a _. (True, n)) m (bo_net b)) b'))"

text \<open>Only after it has received a signal that is not a stop does \<open>Run\<close> get back to its \<open>select\<close>.\<close>

definition run_selects :: "unit booster_step" where
  "run_selects b = (Inr (), if bo_run b \<in> {Absent, Restarted} then b\<lparr>bo_run := Waiting\<rparr> else b)"

text \<open>The handler of a heartbeat up to its wait, and after it.\<close>

definition heartbeat_begins :: "env \<Rightarrow> peer \<Rightarrow> gotime \<Rightarrow> packet \<Rightarrow> (whole, net_error stop, unit) step" where
  "heartbeat_begins E pr now p s =
     (case heartbeat_received E now pr p (wh_node s) of
        (Inl (Error e), b) \<Rightarrow> (Inr (), s\<lparr>wh_node := b\<rparr>)
      | (Inl x, b) \<Rightarrow> (Inl x, s\<lparr>wh_node := b\<rparr>)
      | (Inr h, b) \<Rightarrow> (Inr (), s\<lparr>wh_node := b, wh_waiting := AList.update pr h (wh_waiting s)\<rparr>))"

definition heartbeat_ends :: "env \<Rightarrow> peer \<Rightarrow> gotime \<Rightarrow> (whole, net_error stop, unit) step" where
  "heartbeat_ends E pr later s =
     (case map_of (wh_waiting s) pr of
        None \<Rightarrow> (Inr (), s)
      | Some h \<Rightarrow>
          on_node (dropping (heartbeat_answer E later pr h)) (s\<lparr>wh_waiting := AList.delete pr (wh_waiting s)\<rparr>))"

section \<open>Steps\<close>

fun node_act :: "env \<Rightarrow> node_event \<Rightarrow> (whole, net_error stop, unit) step" where
  "node_act E (Accepts now sk) = on_node (accept_conn E now (open_socket default_net_config sk))"
| "node_act E (Consumes pr) = on_node (on_failure (peer_close pr) (peer_consume pr))"
| "node_act E (Handles pr now later p) = on_node (on_failure (peer_close pr) (handle_packet E now later pr p))"
| "node_act E (HeartbeatBegins pr now p) = heartbeat_begins E pr now p"
| "node_act E (HeartbeatEnds pr later) = heartbeat_ends E pr later"
| "node_act E (TimerFires c) = on_node (timer_fires c)"
| "node_act E (RootEvent v) = on_node (update_root_run E v)"
| "node_act E (StatusEvent pr now v) = on_node (serve_status_run E now pr v)"
| "node_act E (MonitorBegins pr p) = on_node (on_failure (peer_close pr) (and_then (payload_of E p TMonitor) (\<lambda>v. done_with ())))"
| "node_act E (NodeShown pr now) = on_node (serve_node_state E now pr)"
| "node_act E (NodeEvent pr now m) = on_node (serve_node_run E now pr m)"
| "node_act E (NetEvent pr now m) = on_node (serve_net_run E now pr m)"
| "node_act E (ServingEnds pr) = on_node (dropping (peer_close pr))"
| "node_act E (Traced now m) = on_node (trace_event E now m)"
| "node_act E RunSelects = on_node run_selects"
| "node_act E Interrupted = on_node bo_close"

text \<open>
  Which goroutines there are: a connection is handled after \<open>go b.Handle\<close>, by a goroutine that
  may be waiting with a heartbeat; what was subscribed or asked for is served; a timer fires when it
  is armed; a monitor gets what its request names.
\<close>

definition header_id :: "env \<Rightarrow> packet \<Rightarrow> message option" where
  "header_id E p = (case net_decode (env_lib E) p ModuleHeader THeader of Inr (VHeader h) \<Rightarrow> Some (hdr_id h) | _ \<Rightarrow> None)"

definition handling :: "peer \<Rightarrow> whole \<Rightarrow> bool" where
  "handling pr s \<longleftrightarrow> HandleConn pr \<in> set (bo_tasks (wh_node s)) \<and> pr \<notin> fst ` set (wh_waiting s)"

definition monitoring :: "env \<Rightarrow> peer \<Rightarrow> monitor_feature \<Rightarrow> whole \<Rightarrow> bool" where
  "monitoring E pr f s \<longleftrightarrow>
     list_ex (\<lambda>t. case t of ServeMonitorOn pr' p \<Rightarrow> pr' = pr \<and>
         net_decode (env_lib E) p ModulePayload TMonitor = Inr (VMonitor f) | _ \<Rightarrow> False) (bo_tasks (wh_node s))"

fun node_enabled :: "env \<Rightarrow> node_event \<Rightarrow> whole \<Rightarrow> bool" where
  "node_enabled E (Accepts now sk) s = True"
| "node_enabled E (Consumes pr) s = handling pr s"
| "node_enabled E (Handles pr now later p) s = handling pr s"
| "node_enabled E (HeartbeatBegins pr now p) s = (handling pr s \<and> header_id E p = Some MessageHeartbeat)"
| "node_enabled E (HeartbeatEnds pr later) s = (pr \<in> fst ` set (wh_waiting s))"
| "node_enabled E (TimerFires c) s =
     (c < length (nw_conns (bo_net (wh_node s))) \<and> bc_timer (the_conn (bo_net (wh_node s)) c) = Some True)"
| "node_enabled E (RootEvent v) s = True"
| "node_enabled E (StatusEvent pr now v) s = (ServeStatusOn pr \<in> set (bo_tasks (wh_node s)))"
| "node_enabled E (MonitorBegins pr p) s = (ServeMonitorOn pr p \<in> set (bo_tasks (wh_node s)))"
| "node_enabled E (NodeShown pr now) s = monitoring E pr MonitorNode s"
| "node_enabled E (NodeEvent pr now m) s = monitoring E pr MonitorNode s"
| "node_enabled E (NetEvent pr now m) s = monitoring E pr MonitorNet s"
| "node_enabled E (ServingEnds pr) s =
     list_ex (\<lambda>t. t = ServeStatusOn pr \<or> (case t of ServeMonitorOn pr' p \<Rightarrow> pr' = pr | _ \<Rightarrow> False)) (bo_tasks (wh_node s))"
| "node_enabled E (Traced now m) s = True"
| "node_enabled E RunSelects s = True"
| "node_enabled E Interrupted s = True"

text \<open>A panic of any goroutine ends the process: there is no next state.\<close>

definition node_step :: "env \<Rightarrow> node_event \<Rightarrow> whole \<Rightarrow> whole option" where
  "node_step E e s =
     (if node_enabled E e s then (case node_act E e s of (Inl Panic, s') \<Rightarrow> None | (r, s') \<Rightarrow> Some s') else None)"

definition started :: "booster \<Rightarrow> whole" where
  "started b = \<lparr>wh_node = b, wh_waiting = []\<rparr>"

abbreviation node_exec :: "env \<Rightarrow> node_event list \<Rightarrow> whole \<Rightarrow> whole option" where
  "node_exec E \<equiv> exec (node_step E)"

end
