(* ===== verification/Growth.thy ===== *)
theory Growth
  imports Booster_Props
begin

text \<open>
  A node only ever adds nodes and connection objects: those that exist keep their identifiers, a
  connection keeps its node, and a heartbeat timer that was made stays. So whatever was true of an
  object that some goroutine holds remains true while others run.
\<close>

section \<open>Growing heaps and networks\<close>

definition heap_grows :: "node_heap \<Rightarrow> node_heap \<Rightarrow> bool" where
  "heap_grows hp hp' \<longleftrightarrow> length (heap_nodes hp) \<le> length (heap_nodes hp') \<and>
     (\<forall>x < length (heap_nodes hp). node_id (the_node hp' x) = node_id (the_node hp x))"

definition grows :: "network \<Rightarrow> network \<Rightarrow> bool" where
  "grows n n' \<longleftrightarrow> heap_grows (nw_heap n) (nw_heap n') \<and> length (nw_conns n) \<le> length (nw_conns n') \<and>
     (\<forall>c < length (nw_conns n). bc_id (the_conn n' c) = bc_id (the_conn n c) \<and>
        bc_node (the_conn n' c) = bc_node (the_conn n c) \<and>
        (bc_timer (the_conn n c) \<noteq> None \<longrightarrow> bc_timer (the_conn n' c) \<noteq> None))"

text \<open>Every connection has the identifier of its node.\<close>

definition named :: "network \<Rightarrow> bool" where
  "named n \<longleftrightarrow>
     (\<forall>c < length (nw_conns n). bc_id (the_conn n c) = node_id (the_node (nw_heap n) (bc_node (the_conn n c))))"

text \<open>No connection object is new.\<close>

definition steady :: "network \<Rightarrow> network \<Rightarrow> bool" where
  "steady n n' \<longleftrightarrow> grows n n' \<and> length (nw_conns n') = length (nw_conns n)"

named_theorems steady_intros "operations that add no connection object"

lemma heap_grows_refl [simp, intro]: "heap_grows hp hp"
  by (simp add: heap_grows_def)

lemma heap_grows_trans: "heap_grows a b \<Longrightarrow> heap_grows b c \<Longrightarrow> heap_grows a c"
  by (auto simp: heap_grows_def)

lemma grows_refl [simp, intro]: "grows n n"
  by (simp add: grows_def)

lemma grows_trans: "grows a b \<Longrightarrow> grows b c \<Longrightarrow> grows a c"
  unfolding grows_def by (auto intro: heap_grows_trans)

lemma steady_refl [simp, intro]: "steady n n"
  by (simp add: steady_def)

lemma steady_trans: "steady a b \<Longrightarrow> steady b c \<Longrightarrow> steady a c"
  unfolding steady_def by (auto intro: grows_trans)

lemma named_steady:
  assumes "steady n n'" and "net_wf n" and "named n"
  shows "named n'"
  using assms net_wf_conn [OF assms(2)]
  by (auto simp: named_def steady_def grows_def heap_grows_def node_ref_def)

section \<open>Operations on the heap\<close>

lemma nth_update_if: "i < length xs \<Longrightarrow> xs[j := v] ! i = (if j = i then v else xs ! i)"
  by (cases "j = i") auto

lemma heap_grows_upd [intro]:
  assumes "\<And>v. node_id (f v) = node_id v"
  shows "heap_grows hp (upd_node x f hp)"
  using assms by (auto simp: heap_grows_def upd_node_def the_node_def nth_update_if)

lemma heap_grows_active [simp, intro]: "heap_grows hp (set_is_active x a hp)"
  unfolding set_is_active_def by (rule heap_grows_upd) simp

lemma heap_grows_copies [simp, intro]: "heap_grows hp (set_copies t k hp)"
  by (simp add: heap_grows_def set_copies_def the_node_def)

lemma heap_grows_add_tunnel [simp, intro]: "heap_grows hp (add_tunnel x t hp)"
  unfolding add_tunnel_def Let_def
  by (auto split: option.split intro!: heap_grows_trans [OF heap_grows_active heap_grows_copies]
      heap_grows_trans [OF heap_grows_active heap_grows_upd])

lemma heap_grows_remove_tunnel [simp, intro]: "heap_grows hp (snd (remove_tunnel x target ack hp))"
  by (auto simp: remove_tunnel_def split: option.split)

lemma heap_grows_new_tunnel [simp, intro]: "heap_grows hp (snd (new_tunnel sha1 target hp))"
  by (simp add: heap_grows_def new_tunnel_def the_node_def)

lemma heap_grows_new_node [simp, intro]: "heap_grows hp (snd (new_node sha1 resolve host pp bp loc hp))"
  by (auto simp: heap_grows_def new_node_def the_node_def nth_append split: option.split)

section \<open>Operations on the network\<close>

lemma steady_upd_heap [steady_intros]: "heap_grows (nw_heap n) (f (nw_heap n)) \<Longrightarrow> steady n (upd_heap f n)"
  by (simp add: steady_def grows_def)

lemma steady_upd_conn [steady_intros]:
  assumes "\<And>b. bc_id (f b) = bc_id b \<and> bc_node (f b) = bc_node b \<and> (bc_timer b \<noteq> None \<longrightarrow> bc_timer (f b) \<noteq> None)"
  shows "steady n (upd_conn c f n)"
  using assms by (auto simp: steady_def grows_def the_conn_def upd_conn_def nth_update_if)

lemma steady_fields [simp, intro, steady_intros]:
  "steady n (publish m n)" "steady n (n\<lparr>nw_tracer := t\<rparr>)" "steady n (n\<lparr>nw_outgoing := og\<rparr>)"
  by (simp_all add: steady_def grows_def the_conn_def publish_def)

lemma steady_close [simp, intro, steady_intros]: "steady n (snd (bconn_close c n))"
proof (cases "bc_conn (the_conn n c)")
  case (Some cn)
  let ?m = "publish (network_update NodeRemoved (bc_node (the_conn n c))
      (upd_heap (set_is_active (bc_node (the_conn n c)) False) (upd_conn c (\<lambda>b. b\<lparr>bc_conn := None\<rparr>) n)))
      (upd_heap (set_is_active (bc_node (the_conn n c)) False) (upd_conn c (\<lambda>b. b\<lparr>bc_conn := None\<rparr>) n))"
  have "steady n (upd_conn c (\<lambda>b. b\<lparr>bc_conn := None\<rparr>) n)" by (rule steady_upd_conn) simp
  also have "steady \<dots> (upd_heap (set_is_active (bc_node (the_conn n c)) False) \<dots>)" by (rule steady_upd_heap) simp
  finally (steady_trans) have m: "steady n ?m" by (rule steady_trans [OF _ steady_fields(1)])
  have "steady n (?m\<lparr>nw_tracer := t\<rparr>)" for t by (rule steady_trans [OF m steady_fields(2)])
  then show ?thesis using m
    by (auto simp: bconn_close_def Some Let_def split: prod.split sum.split stop.split)
qed (simp add: bconn_close_def)

lemma steady_send [simp, intro, steady_intros]: "steady n (snd (bconn_send it ord p c n))"
proof (cases "bc_conn (the_conn n c)")
  case (Some cn)
  obtain r cn' where r: "conn_send p ord cn = (r, cn')" by fastforce
  have upd: "steady n (upd_conn c (\<lambda>b. b\<lparr>bc_conn := Some cn'\<rparr>) n)" by (rule steady_upd_conn) simp
  then show ?thesis
    using steady_trans [OF upd steady_close]
    by (cases it; cases r) (simp_all add: bconn_send_def Some r send_timeout_state)
qed (simp add: bconn_send_def)

lemma steady_consume [simp, intro, steady_intros]: "steady n (snd (bconn_consume c n))"
  and steady_recv [simp, intro, steady_intros]: "steady n (snd (bconn_recv c n))"
  by (auto simp: bconn_consume_def bconn_recv_def split: option.split prod.split sum.split intro!: steady_upd_conn)

lemma steady_inserted: "steady n (inserted c n)"
  unfolding inserted_def Let_def
  by (rule steady_trans [OF steady_trans [OF steady_upd_conn steady_fields(3)] steady_fields(1)]) simp

lemma steady_add_conn [simp, intro, steady_intros]: "steady n (snd (add_conn c n))"
proof (cases rule: add_conn_cases [of n c])
  case (3 cc)
  have "steady n (upd_heap (copy_tunnels (bc_node (the_conn n cc)) (bc_node (the_conn n c))) n)"
    by (rule steady_upd_heap) (simp add: copy_tunnels_def heap_grows_upd)
  then show ?thesis using 3 by (auto intro: steady_trans steady_inserted)
qed (auto intro: steady_inserted)

lemma steady_update_node [simp, intro, steady_intros]: "steady n (snd (update_node sha1 x p ack n))"
proof -
  let ?m = "publish (TunnelEvent (p\<lparr>pu_node_id := node_id (the_node (nw_heap n) x)\<rparr>)) n"
  have m: "steady n ?m" by simp
  obtain r hp where r: "remove_tunnel x (pu_target p) ack (nw_heap ?m) = (r, hp)" by fastforce
  have "heap_grows (nw_heap ?m) hp" by (metis heap_grows_remove_tunnel r snd_conv)
  then have rem: "steady ?m (?m\<lparr>nw_heap := hp\<rparr>)" by (simp add: steady_def grows_def)
  obtain t hp' where t: "new_tunnel sha1 (pu_target p) (nw_heap ?m) = (t, hp')" by fastforce
  have "heap_grows (nw_heap ?m) (add_tunnel x t hp')"
    by (metis heap_grows_add_tunnel heap_grows_new_tunnel heap_grows_trans snd_conv t)
  then have add: "steady ?m (net_add_tunnel x t (?m\<lparr>nw_heap := hp'\<rparr>))"
    by (simp add: steady_def grows_def net_add_tunnel_def)
  show ?thesis
    using steady_trans [OF m rem] steady_trans [OF m add] r t m
    by (auto simp: update_node_def Let_def net_remove_tunnel_def split: sum.split)
qed

lemma steady_close_untraced [simp, intro]: "steady n (close_untraced c n)"
  unfolding close_untraced_def
  by (rule steady_trans [OF steady_upd_heap steady_close]) (simp add: heap_grows_upd)

lemma steady_close_all [simp, intro]: "steady n (fold (\<lambda>(k, c). close_untraced c) xs n)"
proof (induction xs arbitrary: n)
  case (Cons x xs)
  then show ?case by (auto simp: case_prod_unfold intro: steady_trans [OF steady_close_untraced])
qed simp

text \<open>\<open>RecvHello\<close> is where the connection objects come from.\<close>

lemma recv_hello_grows:
  assumes "net_wf n" and "named n"
  shows "grows n (snd (recv_hello E cn raddr n))" and "named (snd (recv_hello E cn raddr n))"
proof -
  have "grows n (snd (recv_hello E cn raddr n)) \<and> named (snd (recv_hello E cn raddr n))"
  proof (cases rule: recv_hello_cases [of E cn raddr n])
    case (2 cn' h host x hp)
    have hp: "heap_grows (nw_heap n) hp"
      by (metis heap_grows_new_node 2(3) snd_conv)
    have refs: "bc_node (the_conn n c) < length (heap_nodes (nw_heap n))" if "c < length (nw_conns n)" for c
      using net_wf_conn [OF assms(1) that] by (simp add: node_ref_def)
    let ?m = "n\<lparr>nw_heap := hp, nw_conns := nw_conns n @ [\<lparr>bc_id = node_id (the_node hp x),
        bc_booster_id = nw_booster_id n, bc_node = x, bc_conn = Some cn', bc_timer = None\<rparr>]\<rparr>"
    have old: "the_conn ?m c = the_conn n c" if "c < length (nw_conns n)" for c
      using that by (simp add: the_conn_def nth_append)
    have new: "the_conn ?m (length (nw_conns n)) = \<lparr>bc_id = node_id (the_node hp x),
        bc_booster_id = nw_booster_id n, bc_node = x, bc_conn = Some cn', bc_timer = None\<rparr>"
      by (simp add: the_conn_def)
    have "grows n ?m" using hp old by (simp add: grows_def)
    moreover have "named ?m"
      using assms(2) hp refs old new by (auto simp: named_def heap_grows_def less_Suc_eq)
    moreover have "snd (recv_hello E cn raddr n) = ?m" using 2(4) by (simp add: new_conn_def)
    ultimately show ?thesis by simp
  qed (use assms in simp)
  then show "grows n (snd (recv_hello E cn raddr n))" "named (snd (recv_hello E cn raddr n))" by simp_all
qed

end
