(* ===== verification/Node_Safety.thy ===== *)
theory Node_Safety
  imports Whole Growth
begin

text \<open>
  The invariant of a node as a whole, and that every handler keeps it, adds to the node only, and
  does not panic, but for one kind of connect request.
\<close>

section \<open>The invariant of a node\<close>

text \<open>A goroutine's connection exists; if it is one of the network, its heartbeat timer was made.\<close>

definition peer_ok :: "peer \<Rightarrow> booster \<Rightarrow> bool" where
  "peer_ok pr b \<longleftrightarrow>
     (case pr of
        Accepted k \<Rightarrow> k < length (bo_accepted b)
      | Wired c \<Rightarrow> c < length (nw_conns (bo_net b)) \<and> bc_timer (the_conn (bo_net b) c) \<noteq> None)"

fun task_ok :: "env \<Rightarrow> task \<Rightarrow> booster \<Rightarrow> bool" where
  "task_ok E (HandleConn pr) b = peer_ok pr b"
| "task_ok E (ServeStatusOn pr) b = peer_ok pr b"
| "task_ok E (ServeMonitorOn pr p) b = (peer_ok pr b \<and> header_id E p = Some MessageMonitor)"

definition node_ok :: "env \<Rightarrow> booster \<Rightarrow> bool" where
  "node_ok E b \<longleftrightarrow> net_wf (bo_net b) \<and> named (bo_net b) \<and> (\<forall>t \<in> set (bo_tasks b). task_ok E t b)"

definition grown :: "booster \<Rightarrow> booster \<Rightarrow> bool" where
  "grown b b' \<longleftrightarrow> grows (bo_net b) (bo_net b') \<and> length (bo_accepted b) \<le> length (bo_accepted b')"

lemma peer_ok_grown: "peer_ok pr b \<Longrightarrow> grown b b' \<Longrightarrow> peer_ok pr b'"
  by (auto simp: peer_ok_def grown_def grows_def split: peer.splits)

lemma task_ok_grown: "task_ok E t b \<Longrightarrow> grown b b' \<Longrightarrow> task_ok E t b'"
  by (cases t) (auto intro: peer_ok_grown)

text \<open>
  \<open>safe E S k X m\<close>: with the connections \<open>S\<close> in use and at least \<open>k\<close> connection
  objects, the step keeps the invariant and grows the node, and panics only if \<open>X\<close>.
\<close>

abbreviation using_peers :: "env \<Rightarrow> peer set \<Rightarrow> nat \<Rightarrow> booster \<Rightarrow> bool" where
  "using_peers E S k b \<equiv> node_ok E b \<and> (\<forall>pr \<in> S. peer_ok pr b) \<and> k \<le> length (nw_conns (bo_net b))"

abbreviation safe :: "env \<Rightarrow> peer set \<Rightarrow> nat \<Rightarrow> bool \<Rightarrow> 'a booster_step \<Rightarrow> bool" where
  "safe E S k \<equiv> holds (using_peers E S k) grown"

named_theorems safe_intros "steps that keep the invariant of a node"

interpretation node: step_logic "using_peers E S k" grown for E S k
  by unfold_locales (auto simp: grown_def intro: grows_trans)

lemmas [safe_intros] = node.returns node.fails node.hangs node.and_then node.dropping node.on_failure node.deferring

text \<open>Steps on the network alone, and those that also write a bare connection.\<close>

lemma safe_local:
  assumes "\<And>b. using_peers E S k b \<Longrightarrow> net_wf (bo_net (snd (m b)))"
    and "\<And>b. steady (bo_net b) (bo_net (snd (m b)))"
    and "\<And>b. length (bo_accepted b) \<le> length (bo_accepted (snd (m b)))"
    and "\<And>b. bo_tasks (snd (m b)) = bo_tasks b"
    and "\<And>b. using_peers E S k b \<Longrightarrow> fst (m b) = Inl Panic \<Longrightarrow> X"
  shows "safe E S k X m"
  unfolding holds_def
proof (intro allI impI)
  fix b assume b: "using_peers E S k b"
  have g: "grown b (snd (m b))" using assms(2,3) by (simp add: grown_def steady_def)
  have "named (bo_net (snd (m b)))"
    using named_steady [OF assms(2)] b by (simp add: node_ok_def)
  then have "node_ok E (snd (m b))"
    using assms(1,4) b g task_ok_grown by (auto simp: node_ok_def)
  moreover have "k \<le> length (nw_conns (bo_net (snd (m b))))"
    using b assms(2) by (simp add: steady_def)
  ultimately show "using_peers E S k (snd (m b)) \<and> grown b (snd (m b)) \<and> (fst (m b) = Inl Panic \<longrightarrow> X)"
    using assms(5) b g peer_ok_grown by blast
qed

lemma safe_net:
  assumes "\<And>n. net_wf n \<Longrightarrow> k \<le> length (nw_conns n) \<Longrightarrow> net_wf (snd (m n))"
    and "\<And>n. steady n (snd (m n))" and "\<And>n. fst (m n) \<noteq> Inl Panic"
  shows "safe E S k X (on_net m)"
  by (rule safe_local) (use assms in \<open>auto simp: on_net_def node_ok_def case_prod_unfold\<close>)

lemma safe_reading: "(\<And>b. using_peers E S k b \<Longrightarrow> f b \<noteq> Inl Panic) \<Longrightarrow> safe E S k X (reading f)"
  by (rule node.idle) (simp add: reading_def)

section \<open>Primitive steps\<close>

lemma not_panics [simp]:
  "fst (bconn_close c n) \<noteq> Inl Panic" "fst (bconn_send it ord p c n) \<noteq> Inl Panic"
  "fst (bconn_consume c n) \<noteq> Inl Panic" "fst (bconn_recv c n) \<noteq> Inl Panic" "fst (add_conn c n) \<noteq> Inl Panic"
  "fst (update_node sha1 x u ack n) \<noteq> Inl Panic"
proof -
  show close: "fst (bconn_close c n) \<noteq> Inl Panic" for c n
    by (auto simp: bconn_close_def Let_def split: option.split prod.split sum.split stop.split)
  show "fst (bconn_send it ord p c n) \<noteq> Inl Panic"
    using close
    by (auto simp: bconn_send_def Let_def split: option.split prod.split sum.split stop.split)
  show "fst (bconn_consume c n) \<noteq> Inl Panic" "fst (bconn_recv c n) \<noteq> Inl Panic"
    by (auto simp: bconn_consume_def bconn_recv_def split: option.split prod.split sum.split)
  show "fst (add_conn c n) \<noteq> Inl Panic" by (cases rule: add_conn_cases [of n c]) auto
  show "fst (update_node sha1 x u ack n) \<noteq> Inl Panic"
    by (auto simp: update_node_def net_remove_tunnel_def Let_def split: prod.split sum.split)
qed

lemma safe_peer_close [safe_intros]: "safe E S k X (peer_close pr)"
  by (rule safe_local)
     (auto simp: peer_close_def on_net_def case_prod_unfold node_ok_def net_wf_close split: peer.splits)

lemma safe_peer_send [safe_intros]: "safe E S k X (peer_send E' p pr)"
  by (rule safe_local)
     (auto simp: peer_send_def on_net_def case_prod_unfold node_ok_def net_wf_send split: peer.splits sum.splits prod.splits)

lemma safe_peer_consume [safe_intros]: "safe E S k X (peer_consume pr)"
  by (rule safe_local)
     (auto simp: peer_consume_def on_net_def case_prod_unfold node_ok_def net_wf_consume split: peer.splits sum.splits prod.splits)

lemma safe_signal [safe_intros]: "safe E S k X (signal_run r)" "safe E S k X bo_close" "safe E S k X run_selects"
proof -
  show signal: "safe E S k X (signal_run r)" for r
    by (rule safe_local) (auto simp: signal_run_def node_ok_def split: if_splits)
  then show "safe E S k X bo_close" by (simp add: bo_close_def)
  show "safe E S k X run_selects" by (rule safe_local) (auto simp: run_selects_def node_ok_def)
qed

lemma safe_restart [safe_intros]: "safe E S k X bo_restart"
  by (rule safe_local) (auto simp: bo_restart_def signal_run_def node_ok_def close_all_wf split: if_splits)

text \<open>A timer that was made can be stopped and reset; without one that is a nil dereference.\<close>

lemma safe_set_timer [safe_intros]:
  assumes "pr \<in> S"
  shows "safe E S k X (set_timer armed pr)"
proof (rule safe_local)
  fix b
  show "steady (bo_net b) (bo_net (snd (set_timer armed pr b)))"
    by (auto simp: set_timer_def split: peer.split option.split intro!: steady_upd_conn)
  show "using_peers E S k b \<Longrightarrow> net_wf (bo_net (snd (set_timer armed pr b)))"
    by (auto simp: set_timer_def node_ok_def net_wf_upd_conn split: peer.split option.split)
  assume "using_peers E S k b"
  then have "peer_ok pr b" using assms by blast
  then show "fst (set_timer armed pr b) = Inl Panic \<Longrightarrow> X"
    by (auto simp: set_timer_def peer_ok_def split: peer.splits option.splits)
qed (auto simp: set_timer_def split: peer.split option.split)

lemma safe_flag [safe_intros]:
  assumes "\<And>v. node_tunnels (f v) = node_tunnels v \<and> node_id (f v) = node_id v"
  shows "safe E S k X (\<lambda>b. (Inr (), b\<lparr>bo_net := upd_heap (upd_node x f) (bo_net b)\<rparr>))"
  by (rule safe_local) (use assms in \<open>auto simp: node_ok_def net_wf_upd_node_flag steady_upd_heap heap_grows_upd\<close>)

lemma safe_go [safe_intros]:
  assumes "\<And>b. using_peers E S k b \<Longrightarrow> task_ok E t b"
  shows "safe E S k X (go t)"
proof -
  have "grown b (snd (go t b))" for b by (simp add: go_def grown_def)
  moreover have "using_peers E S k (snd (go t b))" if b: "using_peers E S k b" for b
  proof -
    have "task_ok E u (snd (go t b))" if "u \<in> set (bo_tasks b) \<or> u = t" for u
      using that b assms [OF b] task_ok_grown \<open>grown b (snd (go t b))\<close> by (auto simp: node_ok_def)
    then show ?thesis
      using b peer_ok_grown \<open>grown b (snd (go t b))\<close> by (auto simp: node_ok_def go_def)
  qed
  ultimately show ?thesis by (simp add: holds_def) (simp add: go_def)
qed


section \<open>What is encoded and decoded\<close>

lemma encode_header_not_Panic: "valid_time now \<Longrightarrow> encode_header L now (VMessage m) \<noteq> Inl Panic"
  using timestamp_roundtrip [of now]
  by (auto simp: encode_header_def proto_marshal_def Let_def split: sum.splits)

lemma lift_proto_not_Panic: "lift_proto r \<noteq> Inl Panic \<longleftrightarrow> r \<noteq> Inl Panic"
  by (auto simp: lift_proto_def split: sum.split stop.split)

lemma net_encode_not_Panic:
  assumes "valid_time now"
    and "\<And>pl. v = Some pl \<Longrightarrow> encoding meta \<noteq> EncodingJson \<Longrightarrow> call_encoder (payload_encoders L msg) pl \<noteq> Inl Panic"
  shows "net_encode L now v msg meta \<noteq> Inl Panic"
proof -
  have json: "json_encode L w \<noteq> Inl Panic" for w by (simp add: json_encode_def split: sum.split)
  have add: "add_net_module i raw p \<noteq> Inl Panic" for i raw p
    by (auto simp: add_net_module_def split: prod.split sum.split)
  let ?f = "if encoding meta = EncodingJson then json_encode L else encode_header L now"
  have hdr: "lift_proto (protocol_encode (VMessage msg) ?f) \<noteq> Inl Panic"
    using json encode_header_not_Panic [OF assms(1)] by (simp add: lift_proto_not_Panic protocol_encode_def)
  have pl: "lift_proto (call_encoder (if encoding meta = EncodingJson then Some (json_encode L) else payload_encoders L msg) pl) \<noteq> Inl Panic"
    if "v = Some pl" for pl
    using json assms(2) [OF that] by (simp add: lift_proto_not_Panic call_encoder_def protocol_encode_def)
  show ?thesis
    using add hdr pl by (auto simp: net_encode_def Let_def split: sum.split option.split)
qed

lemma encoders_not_Panic:
  "call_encoder (payload_encoders L MessageHeartbeat) v \<noteq> Inl Panic"
  "call_encoder (payload_encoders L MessageNodeStatus) v \<noteq> Inl Panic"
  "call_encoder (payload_encoders L MessageProxyUpdate) v \<noteq> Inl Panic"
  "call_encoder (payload_encoders L MessageHello) v \<noteq> Inl Panic"
  "call_encoder (payload_encoders L MessageConnect) v \<noteq> Inl Panic"
  by (auto simp: call_encoder_def protocol_encode_def payload_encoders_def message_ids encode_heartbeat_def encode_node_def
      encode_proxy_update_def encode_hello_def encode_connect_def proto_marshal_def split: gvalue.split sum.split option.split)

lemma compositions_not_Panic:
  assumes "valid_time now"
  shows "compose_heartbeat L now n h \<noteq> Inl Panic" and "compose_node L now n x \<noteq> Inl Panic"
    and "encode_default L now None m \<noteq> Inl Panic" and "encode_default L now (Some v) MessageProxyUpdate \<noteq> Inl Panic"
    and "encode_default L now (Some v) MessageHello \<noteq> Inl Panic" and "encode_default L now (Some v) MessageConnect \<noteq> Inl Panic"
  unfolding compose_heartbeat_def compose_node_def encode_default_def
  by (intro net_encode_not_Panic [OF assms] encoders_not_Panic; simp)+

lemma json_not_Panic: "valid_time now \<Longrightarrow> encoding meta = EncodingJson \<Longrightarrow> net_encode L now v m meta \<noteq> Inl Panic"
  by (rule net_encode_not_Panic) simp_all

lemma header_id_iff:
  assumes "header_id E p = Some i"
  obtains h where "decode_with p ModuleHeader THeader (Some (header_decoder (env_lib E) p)) = Inr (VHeader h)" and "hdr_id h = i"
  using assms by (auto simp: header_id_def net_decode_def split: sum.splits gvalue.splits)

text \<open>A payload behind a header that has a decoder.\<close>

lemma decode_handled:
  assumes "proto_ok (env_lib E)" and "json_typed (env_lib E)" and "header_id E p = Some i"
    and "payload_decoders (env_lib E) i \<noteq> None" and "i \<noteq> MessageNetworkUpdate"
  shows "net_decode (env_lib E) p ModulePayload ty \<noteq> Inl Panic"
proof -
  obtain h where h: "decode_with p ModuleHeader THeader (Some (header_decoder (env_lib E) p)) = Inr (VHeader h)" "hdr_id h = i"
    using assms(3) by (rule header_id_iff)
  have ne: "ModulePayload \<noteq> ModuleHeader" by (simp add: ModulePayload_def ModuleHeader_def)
  show ?thesis
    using ne h assms(4,5) decode_with_panic [OF assms(1), of p ModulePayload ty i]
      header_decoder_facts(1) [OF assms(1,2), of p ModulePayload ty]
    by (auto simp: net_decode_def Let_def split: option.split)
qed

lemma net_decode_type:
  assumes "json_typed L" and "net_decode L p m ty = Inr v" and "m \<noteq> ModuleHeader"
  shows "gtype_of v = ty"
proof -
  have json: "json_decode L bs ty = Inr v \<Longrightarrow> gtype_of v = ty" for bs
    using assms(1) by (auto simp: json_decode_def json_typed_def split: sum.splits)
  have hdr: "decode_header L bs ty = Inr v \<Longrightarrow> gtype_of v = ty" for bs
    by (auto simp: decode_header_def proto_unmarshal_def set_value_def split: sum.splits pb.splits option.splits if_splits)
  have pl: "payload_decoders L i = Some g \<Longrightarrow> g bs ty = Inr v \<Longrightarrow> gtype_of v = ty" for i g bs
    by (rule decode_payload_type)
  have lift: "lift_proto r = Inr v \<longleftrightarrow> r = Inr v" for r
    by (auto simp: lift_proto_def split: sum.split stop.split)
  show ?thesis
    using assms(2,3) json hdr pl
    by (auto simp: net_decode_def Let_def decode_with_def call_decoder_def protocol_decode_def lift
        split: sum.splits gvalue.splits option.splits if_splits)
qed


section \<open>Dialling and wiring\<close>

text \<open>The peer that is dialled answers with a packet on which the decoder of the hello message panics.\<close>

definition hello_crashes :: "env \<Rightarrow> string \<Rightarrow> bool" where
  "hello_crashes E addr \<longleftrightarrow>
     (case net_dial default_net_config (env_dial E addr) of
        Inl e \<Rightarrow> False
      | Inr (cn, raddr) \<Rightarrow>
          (case conn_recv cn of
             (Inl e, _) \<Rightarrow> False
           | (Inr q, _) \<Rightarrow> net_decode (env_lib E) q ModulePayload THello = Inl Panic))"

lemma recv_hello_panic:
  assumes "json_typed (env_lib E)"
  shows "fst (recv_hello E cn raddr n) = Inl Panic \<longleftrightarrow>
    (\<exists>q. fst (conn_recv cn) = Inr q \<and> net_decode (env_lib E) q ModulePayload THello = Inl Panic)"
proof -
  obtain r cn' where r: "conn_recv cn = (r, cn')" by fastforce
  have ne: "ModulePayload \<noteq> ModuleHeader" by (simp add: ModulePayload_def ModuleHeader_def)
  have typed: "\<exists>h. v = VHello h" if "net_decode (env_lib E) q ModulePayload THello = Inr v" for q v
    using net_decode_type [OF assms that ne] by (cases v) auto
  show ?thesis
  proof (cases r)
    case (Inr q)
    show ?thesis
    proof (cases "net_decode (env_lib E) q ModulePayload THello")
      case (Inr v)
      then obtain h where "v = VHello h" using typed by blast
      then show ?thesis
        using Inr r \<open>r = Inr q\<close>
        by (auto simp: recv_hello_def Let_def new_conn_def split: prod.splits sum.splits option.splits)
    qed (use r Inr in \<open>simp add: recv_hello_def\<close>)
  qed (use r in \<open>simp add: recv_hello_def\<close>)
qed

lemma dial_panic:
  assumes "json_typed (env_lib E)"
  shows "fst (dial_booster E addr b) = Inl Panic \<longleftrightarrow> hello_crashes E addr"
proof (cases "net_dial default_net_config (env_dial E addr)")
  case (Inr d)
  obtain cn raddr where d: "d = (cn, raddr)" by fastforce
  have "fst (dial_booster E addr b) = fst (recv_hello E cn raddr (bo_net b))"
    using Inr d by (simp add: dial_booster_def on_net_def case_prod_unfold)
  moreover have "hello_crashes E addr \<longleftrightarrow>
      (\<exists>q. fst (conn_recv cn) = Inr q \<and> net_decode (env_lib E) q ModulePayload THello = Inl Panic)"
    using Inr d by (cases "conn_recv cn"; cases "fst (conn_recv cn)") (auto simp: hello_crashes_def)
  ultimately show ?thesis using recv_hello_panic [OF assms] by simp
qed (simp add: dial_booster_def hello_crashes_def)

lemma safe_dial [safe_intros]:
  assumes "json_typed (env_lib E)" and "hello_crashes E addr \<Longrightarrow> X"
  shows "safe E S k X (dial_booster E addr)"
  unfolding holds_def
proof (intro allI impI)
  fix b assume b: "using_peers E S k b"
  have bo: "snd (dial_booster E addr b) = b\<lparr>bo_net := bo_net (snd (dial_booster E addr b))\<rparr>"
    by (auto simp: dial_booster_def on_net_def split: sum.split prod.split)
  have "bo_net (snd (dial_booster E addr b)) = bo_net b \<or>
      (\<exists>cn raddr. bo_net (snd (dial_booster E addr b)) = snd (recv_hello E cn raddr (bo_net b)))"
    by (auto simp: dial_booster_def on_net_def split: sum.split prod.split) (metis snd_conv)
  then have net: "grows (bo_net b) (bo_net (snd (dial_booster E addr b)))" "named (bo_net (snd (dial_booster E addr b)))"
      "net_wf (bo_net (snd (dial_booster E addr b)))"
    using b recv_hello_grows net_wf_recv_hello by (auto simp: node_ok_def)
  have g: "grown b (snd (dial_booster E addr b))" using net(1) by (subst bo) (simp add: grown_def)
  moreover have "bo_tasks (snd (dial_booster E addr b)) = bo_tasks b" by (subst bo) simp
  ultimately have "using_peers E S k (snd (dial_booster E addr b))"
    using b net peer_ok_grown [OF _ g] task_ok_grown [OF _ g] by (auto simp: node_ok_def grows_def)
  then show "using_peers E S k (snd (dial_booster E addr b)) \<and> grown b (snd (dial_booster E addr b)) \<and>
      (fst (dial_booster E addr b) = Inl Panic \<longrightarrow> X)"
    using g dial_panic [OF assms(1)] assms(2) by blast
qed

text \<open>A sequence that begins with a dial: the rest has the new connection object.\<close>

lemma safe_dialled:
  assumes "json_typed (env_lib E)" and "hello_crashes E addr \<Longrightarrow> X" and "\<And>c. safe E S (max k (Suc c)) X (f c)"
  shows "safe E S k X (and_then (dial_booster E addr) f)"
  unfolding holds_def
proof (intro allI impI)
  fix b assume b: "using_peers E S k b"
  obtain r b' where r: "dial_booster E addr b = (r, b')" by fastforce
  note b' = holdsD [OF safe_dial [OF assms(1,2)] b r]
  let ?m = "and_then (dial_booster E addr) f"
  show "using_peers E S k (snd (?m b)) \<and> grown b (snd (?m b)) \<and> (fst (?m b) = Inl Panic \<longrightarrow> X)"
  proof (cases r)
    case (Inl e)
    then show ?thesis using r b' by (simp add: and_then_def)
  next
    case (Inr c)
    obtain r2 b2 where r2: "f c b' = (r2, b2)" by fastforce
    have "using_peers E S (max k (Suc c)) b'" using b'(1) dial_conn r Inr by fastforce
    from holdsD [OF assms(3) this r2] b'(2) r r2 Inr show ?thesis
      by (auto simp: and_then_def intro: node.trans)
  qed
qed

text \<open>The last part of \<open>Wire\<close>: when its goroutine starts the timer is there.\<close>

lemma safe_started:
  assumes "c < k"
  shows "safe E S k X (and_then (start_timer c) (\<lambda>_. and_then (activate c) (\<lambda>_.
    and_then (go (HandleConn (Wired c))) (\<lambda>_. done_with c))))" (is "safe E S k X ?m")
proof -
  have timer: "safe E S k X (start_timer c)"
    by (rule safe_local) (auto simp: start_timer_def node_ok_def net_wf_upd_conn intro!: steady_upd_conn)
  have "net_wf (bo_net (snd (activate c b)))" if "net_wf (bo_net b)" for b
    using keepsD(1) [OF keeps_activate [of 0] that] by (metis le0 prod.collapse)
  moreover have "steady (bo_net b) (bo_net (snd (activate c b)))" for b
    by (auto simp: activate_def Let_def intro!: steady_upd_heap heap_grows_trans [OF heap_grows_active heap_grows_upd])
  ultimately have active: "safe E (insert (Wired c) S) k X (activate c)"
    by (intro safe_local) (auto simp: activate_def Let_def node_ok_def)
  have rest: "safe E (insert (Wired c) S) k X (and_then (activate c) (\<lambda>_. and_then (go (HandleConn (Wired c))) (\<lambda>_. done_with c)))"
    by (intro node.and_then active safe_go node.returns) simp
  show ?thesis
    unfolding holds_def
  proof (intro allI impI)
    fix b assume b: "using_peers E S k b"
    obtain b1 where b1: "start_timer c b = (Inr (), b1)" by (simp add: start_timer_def)
    note b1' = holdsD [OF timer b b1]
    have "peer_ok (Wired c) b1"
      using b1 assms b by (auto simp: peer_ok_def start_timer_def the_conn_upd)
    then have u: "using_peers E (insert (Wired c) S) k b1" using b1'(1) by simp
    obtain r2 b2 where r2: "and_then (activate c) (\<lambda>_. and_then (go (HandleConn (Wired c))) (\<lambda>_. done_with c)) b1 = (r2, b2)"
      by fastforce
    have "?m b = (r2, b2)" by (subst and_then_def) (simp add: b1 r2)
    then show "using_peers E S k (snd (?m b)) \<and> grown b (snd (?m b)) \<and> (fst (?m b) = Inl Panic \<longrightarrow> X)"
      using holdsD [OF rest u r2] b1'(2) by (auto intro: node.trans)
  qed
qed

lemma safe_wire [safe_intros]:
  assumes "json_typed (env_lib E)" and "hello_crashes E target \<Longrightarrow> X" and "valid_time now"
  shows "safe E S k X (wire E now target)"
  unfolding wire_def
proof (rule safe_dialled [OF assms(1,2)])
  fix c
  have "safe E S (max k (Suc c)) X (on_net (add_conn c))"
    by (rule safe_net) (auto intro!: net_wf_add_conn)
  then show "safe E S (max k (Suc c)) X
     (and_then (on_failure (peer_close (Wired c))
           (and_then (on_net (add_conn c)) (\<lambda>_.
            and_then (reading (\<lambda>b. encode_default (env_lib E) now None MessageNotify)) (\<lambda>p.
            and_then (peer_send E p (Wired c)) (\<lambda>_.
            and_then (reading (\<lambda>b. compose_heartbeat (env_lib E) now (bo_net b) None)) (\<lambda>p.
            peer_send E p (Wired c)))))))
         (\<lambda>_. and_then (start_timer c) (\<lambda>_. and_then (activate c) (\<lambda>_.
            and_then (go (HandleConn (Wired c))) (\<lambda>_. done_with c)))))"
    by (intro node.and_then node.on_failure safe_reading compositions_not_Panic assms(3) safe_started
        safe_peer_send safe_peer_close) auto
qed


section \<open>The handlers\<close>

lemma safe_payload:
  assumes "net_decode (env_lib E) p ModulePayload ty \<noteq> Inl Panic"
    and "\<And>v. net_decode (env_lib E) p ModulePayload ty = Inr v \<Longrightarrow> safe E S k X (f v)"
  shows "safe E S k X (and_then (payload_of E p ty) f)"
proof (cases "net_decode (env_lib E) p ModulePayload ty")
  case (Inl e)
  then show ?thesis using assms(1) by (intro node.idle) (simp add: and_then_def payload_of_def reading_def)
next
  case (Inr v)
  then have "and_then (payload_of E p ty) f = f v" by (simp add: and_then_def payload_of_def reading_def fun_eq_iff)
  then show ?thesis using assms(2) [OF Inr] by simp
qed

text \<open>What all handlers assume: libraries, a clock in range, the connection of the packet, and its message.\<close>

definition handles :: "env \<Rightarrow> peer set \<Rightarrow> peer \<Rightarrow> gotime \<Rightarrow> packet \<Rightarrow> message \<Rightarrow> bool" where
  "handles E S pr now p i \<longleftrightarrow> proto_ok (env_lib E) \<and> json_typed (env_lib E) \<and> pr \<in> S \<and> valid_time now \<and>
     header_id E p = Some i"

lemma safe_handled:
  assumes h: "handles E S pr now p i" and "payload_decoders (env_lib E) i \<noteq> None" and "i \<noteq> MessageNetworkUpdate"
    and "\<And>v. net_decode (env_lib E) p ModulePayload ty = Inr v \<Longrightarrow> gtype_of v = ty \<Longrightarrow> safe E S k X (f v)"
  shows "safe E S k X (and_then (payload_of E p ty) f)"
proof (rule safe_payload)
  show "net_decode (env_lib E) p ModulePayload ty \<noteq> Inl Panic"
    using decode_handled [of E p i ty] h assms(2,3) by (simp add: handles_def)
  fix v assume v: "net_decode (env_lib E) p ModulePayload ty = Inr v"
  have "ModulePayload \<noteq> ModuleHeader" by (simp add: ModulePayload_def ModuleHeader_def)
  with net_decode_type [OF _ v this] h have "gtype_of v = ty" by (simp add: handles_def)
  then show "safe E S k X (f v)" by (rule assms(4) [OF v])
qed

lemma safe_send_node [safe_intros]: "valid_time now \<Longrightarrow> safe E S k X (send_node E now pr x)"
  unfolding send_node_def by (intro node.and_then safe_reading safe_peer_send compositions_not_Panic)

lemma safe_handle_ctrl:
  assumes "handles E S pr now p MessageCtrl"
  shows "safe E S k X (handle_ctrl E pr p)"
  unfolding handle_ctrl_def
proof (intro node.on_failure safe_peer_close safe_handled [OF assms])
  fix v assume "gtype_of v = TCtrl"
  then obtain oper where "v = VCtrl oper" by (cases v) auto
  then show "safe E S k X (case v of
           VCtrl oper \<Rightarrow>
             if oper = CtrlStop then bo_close else if oper = CtrlRestart then bo_restart else done_with ()
         | _ \<Rightarrow> fail_with Panic)"
    by (simp add: safe_intros)
qed (simp_all add: payload_decoders_def message_ids)

lemma safe_heartbeat_received:
  assumes "handles E S pr now p MessageHeartbeat"
  shows "safe E S k X (heartbeat_received E now pr p)"
  unfolding heartbeat_received_def
proof (intro node.on_failure safe_peer_close safe_handled [OF assms])
  fix v assume "gtype_of v = THeartbeat"
  then obtain h where "v = VHeartbeat h" by (cases v) auto
  moreover have "pr \<in> S" using assms by (simp add: handles_def)
  ultimately show "safe E S k X (case v of
           VHeartbeat h \<Rightarrow>
             if hb_ttl h < now then fail_with (Error (HeartbeatExpired (hb_ttl h)))
             else and_then (set_timer False pr) (\<lambda>_. done_with h)
         | _ \<Rightarrow> fail_with Panic)"
    by (simp add: safe_intros)
qed (simp_all add: payload_decoders_def message_ids)

lemma safe_heartbeat_answer:
  assumes "pr \<in> S" and "valid_time later"
  shows "safe E S k X (heartbeat_answer E later pr h)"
  unfolding heartbeat_answer_def
  by (intro node.on_failure node.and_then safe_peer_close safe_set_timer safe_reading safe_peer_send
      compositions_not_Panic assms)

lemma safe_handle_connect:
  assumes "handles E S pr now p MessageConnect"
    and "\<And>t. net_decode (env_lib E) p ModulePayload TConnect = Inr (VConnect t) \<Longrightarrow> hello_crashes E t \<Longrightarrow> X"
  shows "safe E S k X (handle_connect E now pr p)"
  unfolding handle_connect_def
proof (intro node.deferring safe_peer_close safe_handled [OF assms(1)])
  fix v assume v: "net_decode (env_lib E) p ModulePayload TConnect = Inr v" "gtype_of v = TConnect"
  then obtain t where t: "v = VConnect t" by (cases v) auto
  have "json_typed (env_lib E)" "valid_time now" using assms(1) by (simp_all add: handles_def)
  then have "safe E S k X (and_then (wire E now t) (\<lambda>tc.
             and_then (reading (\<lambda>b. Inr (bc_node (the_conn (bo_net b) tc)))) (\<lambda>x.
             send_node E now pr x)))"
    using assms(2) v(1) t by (intro node.and_then safe_wire safe_reading safe_send_node) auto
  then show "safe E S k X (case v of
           VConnect target \<Rightarrow>
             and_then (wire E now target) (\<lambda>tc.
             and_then (reading (\<lambda>b. Inr (bc_node (the_conn (bo_net b) tc)))) (\<lambda>x.
             send_node E now pr x))
         | _ \<Rightarrow> fail_with Panic)"
    by (simp add: t)
qed (simp_all add: payload_decoders_def message_ids)

lemma safe_handle_disconnect:
  assumes "handles E S pr now p MessageDisconnect"
  shows "safe E S k X (handle_disconnect E now pr p)"
  unfolding handle_disconnect_def
proof (intro node.deferring safe_peer_close safe_handled [OF assms])
  fix v assume "gtype_of v = TDisconnect"
  then obtain i where i: "v = VDisconnect i" by (cases v) auto
  have "valid_time now" using assms by (simp add: handles_def)
  then have "safe E S k X (and_then (reading (\<lambda>b.
                 case map_of (nw_outgoing (bo_net b)) i of
                   None \<Rightarrow> Inl (Error (UnknownIdentifier i)) | Some c \<Rightarrow> Inr c)) (\<lambda>c.
             and_then (reading (\<lambda>b. Inr (bc_node (the_conn (bo_net b) c)))) (\<lambda>x.
             and_then (\<lambda>b. (Inr (), b\<lparr>bo_net := upd_heap (upd_node x (\<lambda>v. v\<lparr>node_to_be_traced := False\<rparr>)) (bo_net b)\<rparr>)) (\<lambda>_.
             and_then (dropping (peer_close (Wired c))) (\<lambda>_.
             send_node E now pr x)))))"
    by (intro node.and_then node.dropping safe_reading safe_flag safe_peer_close safe_send_node) (auto split: option.split)
  then show "safe E S k X (case v of
           VDisconnect i \<Rightarrow>
             and_then (reading (\<lambda>b.
                 case map_of (nw_outgoing (bo_net b)) i of
                   None \<Rightarrow> Inl (Error (UnknownIdentifier i)) | Some c \<Rightarrow> Inr c)) (\<lambda>c.
             and_then (reading (\<lambda>b. Inr (bc_node (the_conn (bo_net b) c)))) (\<lambda>x.
             and_then (\<lambda>b. (Inr (), b\<lparr>bo_net := upd_heap (upd_node x (\<lambda>v. v\<lparr>node_to_be_traced := False\<rparr>)) (bo_net b)\<rparr>)) (\<lambda>_.
             and_then (dropping (peer_close (Wired c))) (\<lambda>_.
             send_node E now pr x))))
         | _ \<Rightarrow> fail_with Panic)"
    by (simp add: i)
qed (simp_all add: payload_decoders_def message_ids)

text \<open>\<open>UpdateNode\<close> on a node that a well-formed network refers to.\<close>

lemma safe_update_node:
  assumes "\<And>b. using_peers E S k b \<Longrightarrow> node_ref (nw_heap (bo_net b)) (x b)"
  shows "safe E S k X (\<lambda>b. on_net (update_node sha1 (x b) u True) b)"
  by (rule safe_local) (use assms in \<open>auto simp: on_net_def case_prod_unfold node_ok_def net_wf_update_node\<close>)

lemma safe_handle_tunnel:
  assumes "handles E S (Wired c) now p MessageProxyUpdate"
  shows "safe E S k X (handle_tunnel E c p)"
  unfolding handle_tunnel_def
proof (intro safe_handled [OF assms])
  fix v assume "gtype_of v = TProxyUpdate"
  then obtain u where u: "v = VProxyUpdate u" by (cases v) auto
  have "safe E S k X (\<lambda>b. on_net (update_node (env_sha1 E) (bc_node (the_conn (bo_net b) c)) u True) b)"
  proof (rule safe_update_node)
    fix b assume "using_peers E S k b"
    moreover have "Wired c \<in> S" using assms by (simp add: handles_def)
    ultimately show "node_ref (nw_heap (bo_net b)) (bc_node (the_conn (bo_net b) c))"
      by (auto simp: node_ok_def peer_ok_def intro!: net_wf_conn)
  qed
  then show "safe E S k X (case v of
         VProxyUpdate u \<Rightarrow> (\<lambda>b. on_net (update_node (env_sha1 E) (bc_node (the_conn (bo_net b) c)) u True) b)
       | _ \<Rightarrow> fail_with Panic)"
    by (simp add: u)
qed (simp_all add: payload_decoders_def message_ids)

text \<open>
  A connect request that crashes the node that gets it: it names a node that answers the hello with a
  packet on which decoding panics.
\<close>

definition connect_crashes :: "env \<Rightarrow> packet \<Rightarrow> bool" where
  "connect_crashes E p \<longleftrightarrow> header_id E p = Some MessageConnect \<and>
     (case net_decode (env_lib E) p ModulePayload TConnect of
        Inr (VConnect t) \<Rightarrow> hello_crashes E t
      | _ \<Rightarrow> False)"

end
