(* ===== verification/Whole_Props.thy ===== *)
theory Whole_Props
  imports Node_Safety
begin

text \<open>
  What holds of a node as a whole, in every order in which its goroutines take turns: an invariant of
  the reachable states, and exactly when one of them crashes the process.
\<close>

section \<open>One turn\<close>

lemma safe_handle_packet:
  assumes "proto_ok (env_lib E)" and "json_typed (env_lib E)" and "pr \<in> S" and "valid_time now" and "valid_time later"
  shows "safe E S k (connect_crashes E p) (handle_packet E now later pr p)"
proof (cases "net_decode (env_lib E) p ModuleHeader THeader")
  case (Inl e)
  have "e \<noteq> Panic"
    using header_decoder_facts(1) [OF assms(1,2), of p ModuleHeader THeader] Inl by (auto simp: net_decode_def)
  then show ?thesis
    using Inl by (intro node.idle) (simp add: handle_packet_def and_then_def reading_def)
next
  case (Inr v)
  then obtain h where v: "v = VHeader h"
    using header_decoder_facts(2) [OF assms(1,2), of p] by (auto simp: net_decode_def)
  let ?i = "hdr_id h"
  have i: "header_id E p = Some ?i" using Inr by (simp add: header_id_def v)
  let ?m = "if ?i = MessageConnect then dropping (handle_connect E now pr p)
            else if ?i = MessageDisconnect then dropping (handle_disconnect E now pr p)
            else if ?i = MessageHeartbeat then dropping (handle_heartbeat E now later pr p)
            else if ?i = MessageProxyUpdate then
              (case pr of Wired c \<Rightarrow> dropping (handle_tunnel E c p) | Accepted k \<Rightarrow> done_with ())
            else if ?i = MessageNotify then go (ServeStatusOn pr)
            else if ?i = MessageMonitor then go (ServeMonitorOn pr p)
            else if ?i = MessageCtrl then dropping (handle_ctrl E pr p)
            else fail_with (Error (UnexpectedMessage ?i))"
  have m: "handle_packet E now later pr p = ?m"
    by (rule ext) (simp add: handle_packet_def and_then_def reading_def Inr v Let_def)
  have h: "handles E S pr now p j" if "?i = j" for j using assms i that by (simp add: handles_def)
  have connect: "safe E S k (connect_crashes E p) (handle_connect E now pr p)" if "?i = MessageConnect"
    by (rule safe_handle_connect [OF h [OF that]]) (simp add: connect_crashes_def i that)
  have heartbeat: "safe E S k (connect_crashes E p) (handle_heartbeat E now later pr p)" if "?i = MessageHeartbeat"
    unfolding handle_heartbeat_def
    by (intro node.and_then safe_heartbeat_received [OF h [OF that]] safe_heartbeat_answer assms)
  have tunnel: "safe E S k (connect_crashes E p) (handle_tunnel E c p)" if "?i = MessageProxyUpdate" "pr = Wired c" for c
    using safe_handle_tunnel [of E S c now p] h [OF that(1)] that(2) by simp
  have peer: "peer_ok pr b" if "using_peers E S k b" for b using that assms(3) by blast
  have status: "safe E S k (connect_crashes E p) (go (ServeStatusOn pr))"
    by (rule safe_go) (simp add: peer)
  have monitor: "safe E S k (connect_crashes E p) (go (ServeMonitorOn pr p))" if "?i = MessageMonitor"
    by (rule safe_go) (simp add: peer i that)
  show ?thesis
    unfolding m
    using connect heartbeat tunnel status monitor safe_handle_disconnect [OF h] safe_handle_ctrl [OF h]
    by (cases pr) (simp_all add: node.dropping node.returns node.fails)
qed

text \<open>What is served to subscribers.\<close>

lemma safe_serving:
  assumes "valid_time now"
  shows "safe E S k X (update_root_run E v)" and "safe E S k X (serve_status_run E now pr v)"
    and "safe E S k X (serve_net_run E now pr bm)" and "safe E S k X (serve_node_run E now pr m)"
    and "safe E S k X (serve_node_state E now pr)"
proof -
  have root: "safe E S k X (\<lambda>b. on_net (update_node (env_sha1 E) (nw_local (bo_net b)) u True) b)" for u
    by (rule safe_update_node) (simp add: node_ok_def net_wf_def)
  have "safe E S k X (\<lambda>b. dropping (on_net (update_node (env_sha1 E) (nw_local (bo_net b)) u True)) b)" for u
  proof -
    have "(\<lambda>b. dropping (on_net (update_node (env_sha1 E) (nw_local (bo_net b)) u True)) b) =
        dropping (\<lambda>b. on_net (update_node (env_sha1 E) (nw_local (bo_net b)) u True) b)"
      by (rule ext) (simp add: dropping_def)
    then show ?thesis using node.dropping [OF root] by simp
  qed
  then show "safe E S k X (update_root_run E v)"
    by (cases v) (simp_all add: update_root_run_def node.fails)
  show "safe E S k X (serve_status_run E now pr v)"
    by (cases v) (simp_all add: serve_status_run_def node.fails node.and_then safe_reading safe_peer_send
        compositions_not_Panic assms)
  show "safe E S k X (serve_net_run E now pr bm)"
    unfolding serve_net_run_def
    by (intro node.and_then safe_reading safe_peer_send json_not_Panic assms) (simp add: json_meta_def)
  show "safe E S k X (serve_node_run E now pr m)"
    unfolding serve_node_run_def Let_def case_prod_unfold
    by (intro node.and_then safe_reading safe_peer_send json_not_Panic assms) simp
  have send: "safe E S k X (serve_node_send E now pr x)" for x
    unfolding serve_node_send_def
    by (intro node.and_then safe_reading safe_peer_send json_not_Panic assms) (simp add: json_meta_def)
  have nodes: "safe E S k X (serve_nodes E now pr xs)" for xs
  proof (induction xs)
    case Nil
    have "serve_nodes E now pr [] = done_with ()" by (rule ext) (simp add: done_with_def)
    then show ?case by (simp add: node.returns)
  next
    case (Cons x xs)
    have "serve_nodes E now pr (x # xs) = and_then (serve_node_send E now pr x) (\<lambda>_. serve_nodes E now pr xs)"
      by (rule ext) simp
    then show ?case by (simp only:) (intro node.and_then send Cons)
  qed
  show "safe E S k X (serve_node_state E now pr)"
    unfolding serve_node_state_def by (intro node.and_then safe_reading) (auto intro: nodes split: prod.split)
qed

lemma safe_accept:
  assumes "valid_time now"
  shows "safe E S k X (accept_conn E now cn)"
  unfolding holds_def
proof (intro allI impI)
  fix b assume b: "using_peers E S k b"
  let ?k = "length (bo_accepted b)"
  let ?b = "b\<lparr>bo_accepted := bo_accepted b @ [cn]\<rparr>"
  have g: "grown b ?b" by (simp add: grown_def)
  have u: "using_peers E (insert (Accepted ?k) S) k ?b"
    using b peer_ok_grown [OF _ g] task_ok_grown [OF _ g] by (auto simp: node_ok_def peer_ok_def)
  have send: "safe E (insert (Accepted ?k) S) k X (send_hello E now (Accepted ?k))"
    unfolding send_hello_def Let_def by (intro node.and_then safe_reading safe_peer_send compositions_not_Panic assms)
  have "safe E (insert (Accepted ?k) S) k X (and_then (send_hello E now (Accepted ?k)) (\<lambda>_. go (HandleConn (Accepted ?k))))"
    by (intro node.and_then send safe_go) simp
  from this [unfolded holds_def, rule_format, OF u] g
  show "using_peers E S k (snd (accept_conn E now cn b)) \<and> grown b (snd (accept_conn E now cn b)) \<and>
      (fst (accept_conn E now cn b) = Inl Panic \<longrightarrow> X)"
    by (auto simp: accept_conn_def Let_def intro: node.trans)
qed

lemma safe_timer: "safe E S k X (timer_fires c)"
proof -
  let ?stop = "\<lambda>b. (Inr (), b\<lparr>bo_net := upd_conn c (\<lambda>x. x\<lparr>bc_timer := Some False\<rparr>) (bo_net b)\<rparr>)"
  let ?close = "\<lambda>b. if bc_conn (the_conn (bo_net b) c) = None then (Inr (), b) else dropping (peer_close (Wired c)) b"
  have "safe E S k X ?stop"
    by (rule safe_local) (auto simp: node_ok_def net_wf_upd_conn intro!: steady_upd_conn)
  moreover have "safe E S k X ?close"
    using node.dropping [OF safe_peer_close, of E S k X "Wired c"] by (auto simp: holds_def node.refl)
  moreover have "timer_fires c = and_then ?stop (\<lambda>_. ?close)"
    by (rule ext) (simp add: and_then_def timer_fires_def Let_def)
  ultimately show ?thesis by (simp add: node.and_then)
qed

lemma safe_connect_cmd: 
  assumes "json_typed (env_lib E)" and "valid_time now"
  shows "safe E S k True (connect_cmd E now laddr raddr)"
proof -
  have recv: "safe E S k True (recv_node E c)" for k c
  proof -
    have "net_wf (snd (bconn_recv c n))" if "net_wf n" for n
      using that by (auto simp: bconn_recv_def split: option.split prod.split sum.split intro!: net_wf_upd_conn)
    then have net: "safe E S k True (on_net (bconn_recv c))" by (intro safe_net) simp_all
    have read: "safe E S k True (reading f)" for f :: "booster \<Rightarrow> net_error stop + gvalue" by (rule node.idle) (simp add: reading_def)
    have "safe E S k True (fail_with Panic :: payload_node booster_step)" by (rule node.idle) (simp add: fail_with_def)
    then have "safe E S k True (case v of VNode n \<Rightarrow> done_with n | _ \<Rightarrow> fail_with Panic)" for v
      by (cases v) (simp_all add: node.returns)
    then show ?thesis unfolding recv_node_def by (intro node.and_then net read)
  qed
  show ?thesis
    unfolding connect_cmd_def client_command_def
  proof (rule safe_dialled [OF assms(1)])
    fix c
    show "safe E S (max k (Suc c)) True (deferring (peer_close (Wired c))
         (and_then (reading (\<lambda>b. encode_default (env_lib E) now (Some (VConnect raddr)) MessageConnect)) (\<lambda>p.
          and_then (peer_send E p (Wired c)) (\<lambda>_. and_then (recv_node E c) (\<lambda>n. done_with (pn_id n))))))"
      by (intro node.deferring node.and_then safe_reading safe_peer_send safe_peer_close recv node.returns
          compositions_not_Panic assms(2))
  qed simp
qed

text \<open>The subscriber of the tracer.\<close>

definition untraces :: "tracer_message \<Rightarrow> (network, net_error stop, unit) step" where
  "untraces m n =
     (case tr_untrace (msg_id m) (nw_tracer n) of
        (Inl Hang, t) \<Rightarrow> (Inl Hang, n\<lparr>nw_tracer := t\<rparr>)
      | (_, t) \<Rightarrow> (Inr (), n\<lparr>nw_tracer := t\<rparr>))"

lemma safe_untraces: "safe E S k X (on_net (untraces m))"
proof (rule safe_net)
  fix n :: network
  obtain r t where t: "tr_untrace (msg_id m) (nw_tracer n) = (r, t)" by fastforce
  have n: "snd (untraces m n) = n\<lparr>nw_tracer := t\<rparr>" "fst (untraces m n) \<noteq> Inl Panic"
    by (auto simp: untraces_def t split: sum.split stop.split)
  have "tracer_wf t" if "tracer_wf (nw_tracer n)" using tr_untrace_wf [OF that, of "msg_id m"] t by simp
  then show "net_wf n \<Longrightarrow> net_wf (snd (untraces m n))" unfolding n by (intro net_wf_tracer) (simp_all add: net_wf_def)
  show "steady n (snd (untraces m n))" "fst (untraces m n) \<noteq> Inl Panic" using n by simp_all
qed

lemma trace_event_cases:
  obtains "trace_event E now m b = (Inr (), b)" | "trace_event E now m b = on_net (untraces m) b"
  | c r b1 where "reconnect_to E now c b = (r, b1)"
      "trace_event E now m b \<in> {(Inl Panic, b1), (Inl Hang, b1), (Inr (), b1), on_net (untraces m) b1}"
proof (cases "msg_err m \<or> map_of (nw_outgoing (bo_net b)) (msg_id m) = None")
  case True
  then have "trace_event E now m b = (if msg_err m then (Inr (), b) else on_net (untraces m) b)"
    by (auto simp: trace_event_def on_net_def traced_message_def untraces_def Let_def)
  then show ?thesis using that(1,2) by (cases "msg_err m") simp_all
next
  case False
  then obtain c where c: "\<not> msg_err m" "map_of (nw_outgoing (bo_net b)) (msg_id m) = Some c" by auto
  obtain r b1 where r: "reconnect_to E now c b = (r, b1)" by fastforce
  have "on_net (\<lambda>n. traced_message (\<lambda>a _. (True, n)) m (bo_net b)) b1 = on_net (untraces m) b1"
    using c by (simp add: on_net_def traced_message_def untraces_def Let_def)
  then have "trace_event E now m b \<in> {(Inl Panic, b1), (Inl Hang, b1), (Inr (), b1), on_net (untraces m) b1}"
    using c by (auto simp: trace_event_def r split: sum.split stop.split)
  then show ?thesis by (rule that(3) [OF r])
qed

lemma safe_trace:
  assumes "json_typed (env_lib E)" and "valid_time now"
  shows "safe E S k True (trace_event E now m)"
  unfolding holds_def
proof (intro allI impI)
  fix b assume b: "using_peers E S k b"
  show "using_peers E S k (snd (trace_event E now m b)) \<and> grown b (snd (trace_event E now m b)) \<and>
      (fst (trace_event E now m b) = Inl Panic \<longrightarrow> True)"
  proof (cases rule: trace_event_cases [of E now m b])
    case 1
    then show ?thesis using b by (simp add: node.refl)
  next
    case 2
    then show ?thesis using safe_untraces [of E S k True m] b by (simp add: holds_def)
  next
    case (3 c r b1)
    note b1 = holdsD [OF safe_connect_cmd [OF assms] b 3(1) [unfolded reconnect_to_def]]
    obtain r2 b2 where r2: "on_net (untraces m) b1 = (r2, b2)" by fastforce
    note b2 = holdsD [OF safe_untraces [of E S k True m] b1(1) r2]
    show ?thesis using 3(2) r2 b1 b2 by (auto intro: node.trans)
  qed
qed


section \<open>All turns\<close>

text \<open>Libraries that keep their contracts, and a clock in the range of the timestamps.\<close>

definition sound_env :: "env \<Rightarrow> bool" where
  "sound_env E \<longleftrightarrow> proto_ok (env_lib E) \<and> json_typed (env_lib E)"

fun event_times :: "node_event \<Rightarrow> gotime list" where
  "event_times (Accepts now sk) = [now]"
| "event_times (Handles pr now later p) = [now, later]"
| "event_times (HeartbeatBegins pr now p) = [now]"
| "event_times (HeartbeatEnds pr later) = [later]"
| "event_times (StatusEvent pr now v) = [now]"
| "event_times (NodeShown pr now) = [now]"
| "event_times (NodeEvent pr now m) = [now]"
| "event_times (NetEvent pr now m) = [now]"
| "event_times (Traced now m) = [now]"
| "event_times _ = []"

definition clock_ok :: "node_event \<Rightarrow> bool" where
  "clock_ok e \<longleftrightarrow> list_all valid_time (event_times e)"

definition whole_ok :: "env \<Rightarrow> whole \<Rightarrow> bool" where
  "whole_ok E s \<longleftrightarrow> node_ok E (wh_node s) \<and> (\<forall>(pr, h) \<in> set (wh_waiting s). peer_ok pr (wh_node s))"

text \<open>What can make a turn panic.\<close>

fun crash_cause :: "env \<Rightarrow> node_event \<Rightarrow> bool" where
  "crash_cause E (Handles pr now later p) = connect_crashes E p"
| "crash_cause E (Traced now m) = True"
| "crash_cause E _ = False"

definition in_use :: "whole \<Rightarrow> peer set" where
  "in_use s = {pr. peer_ok pr (wh_node s)}"

lemma turn:
  assumes "whole_ok E s" and "safe E (in_use s) 0 X m" and "m (wh_node s) = (r, b)"
  shows "whole_ok E (s\<lparr>wh_node := b\<rparr>)" and "grown (wh_node s) b" and "r = Inl Panic \<Longrightarrow> X"
proof -
  have "using_peers E (in_use s) 0 (wh_node s)" using assms(1) by (simp add: whole_ok_def in_use_def)
  note b = holdsD [OF assms(2) this assms(3)]
  show "grown (wh_node s) b" "r = Inl Panic \<Longrightarrow> X" using b by simp_all
  show "whole_ok E (s\<lparr>wh_node := b\<rparr>)"
    using assms(1) b peer_ok_grown by (fastforce simp: whole_ok_def)
qed

lemma turn_on_node:
  assumes "whole_ok E s" and "safe E (in_use s) 0 X m" and "on_node m s = (r, s')"
  shows "whole_ok E s' \<and> (r = Inl Panic \<longrightarrow> X)"
  using turn [OF assms(1,2)] assms(3) by (auto simp: on_node_def split: prod.splits)

lemma task_peer:
  assumes "whole_ok E s" and "t \<in> set (bo_tasks (wh_node s))"
  shows "task_ok E t (wh_node s)"
  using assms by (simp add: whole_ok_def node_ok_def)

lemma handling_peer: "whole_ok E s \<Longrightarrow> handling pr s \<Longrightarrow> pr \<in> in_use s"
  using task_peer [of E s "HandleConn pr"] by (simp add: handling_def in_use_def)

lemma heartbeat_begins_ok:
  assumes "sound_env E" and "whole_ok E s" and "handling pr s" and "header_id E p = Some MessageHeartbeat"
    and "valid_time now" and "heartbeat_begins E pr now p s = (r, s')"
  shows "whole_ok E s' \<and> r \<noteq> Inl Panic"
proof -
  have pr: "pr \<in> in_use s" by (rule handling_peer [OF assms(2,3)])
  have "safe E (in_use s) 0 False (heartbeat_received E now pr p)"
    by (rule safe_heartbeat_received) (use assms pr in \<open>simp add: handles_def sound_env_def\<close>)
  moreover obtain q b where q: "heartbeat_received E now pr p (wh_node s) = (q, b)" by fastforce
  ultimately have b: "whole_ok E (s\<lparr>wh_node := b\<rparr>)" "grown (wh_node s) b" "q \<noteq> Inl Panic"
    using turn [OF assms(2)] by blast+
  have "peer_ok pr b" using pr b(2) peer_ok_grown by (simp add: in_use_def)
  then have "whole_ok E (s\<lparr>wh_node := b, wh_waiting := AList.update pr h (wh_waiting s)\<rparr>)" for h
    using b(1) set_AList_update [of pr h "wh_waiting s"] by (fastforce simp: whole_ok_def)
  then show ?thesis
    using b(1,3) assms(6) by (auto simp: heartbeat_begins_def q split: sum.splits stop.splits)
qed

lemma heartbeat_ends_ok:
  assumes "whole_ok E s" and "valid_time later" and "heartbeat_ends E pr later s = (r, s')"
  shows "whole_ok E s' \<and> r \<noteq> Inl Panic"
proof (cases "map_of (wh_waiting s) pr")
  case (Some h)
  let ?s = "s\<lparr>wh_waiting := AList.delete pr (wh_waiting s)\<rparr>"
  have ok: "whole_ok E ?s"
    using assms(1) by (auto simp: whole_ok_def AList.delete_eq)
  have "pr \<in> in_use ?s" using assms(1) Some by (auto simp: whole_ok_def in_use_def dest: map_of_SomeD)
  then have "safe E (in_use ?s) 0 False (dropping (heartbeat_answer E later pr h))"
    by (intro node.dropping safe_heartbeat_answer assms(2))
  with turn_on_node [OF ok this] assms(3) Some show ?thesis by (auto simp: heartbeat_ends_def)
qed (use assms in \<open>auto simp: heartbeat_ends_def\<close>)

lemma node_act_ok:
  assumes "sound_env E" and "whole_ok E s" and "node_enabled E e s" and "clock_ok e" and "node_act E e s = (r, s')"
  shows "whole_ok E s' \<and> (r = Inl Panic \<longrightarrow> crash_cause E e)"
proof -
  have env: "proto_ok (env_lib E)" "json_typed (env_lib E)" using assms(1) by (simp_all add: sound_env_def)
  note node = turn_on_node [OF assms(2)]
  note intros = node.on_failure node.dropping safe_peer_close safe_peer_consume safe_serving safe_accept safe_timer
    safe_trace safe_signal
  show ?thesis
  proof (cases e)
    case (Handles pr now later p)
    have "safe E (in_use s) 0 (connect_crashes E p) (on_failure (peer_close pr) (handle_packet E now later pr p))"
      by (intro intros safe_handle_packet env handling_peer [OF assms(2)])
         (use Handles assms(3,4) in \<open>simp_all add: clock_ok_def\<close>)
    from node [OF this] show ?thesis using Handles assms(5) by simp
  next
    case (HeartbeatBegins pr now p)
    then show ?thesis using heartbeat_begins_ok [OF assms(1,2), of pr p now r s'] assms(3-5) by (simp add: clock_ok_def)
  next
    case (HeartbeatEnds pr later)
    then show ?thesis using heartbeat_ends_ok [OF assms(2), of later pr r s'] assms(4,5) by (simp add: clock_ok_def)
  next
    case (MonitorBegins pr p)
    have "header_id E p = Some MessageMonitor"
      using task_peer [OF assms(2)] assms(3) MonitorBegins by fastforce
    then have "net_decode (env_lib E) p ModulePayload TMonitor \<noteq> Inl Panic"
      by (rule decode_handled [OF env]) (simp_all add: payload_decoders_def message_ids)
    then have "safe E (in_use s) 0 False (on_failure (peer_close pr) (and_then (payload_of E p TMonitor) (\<lambda>v. done_with ())))"
      by (intro intros safe_payload node.returns)
    from node [OF this] show ?thesis using MonitorBegins assms(5) by simp
  next
    case (Traced now m)
    have "safe E (in_use s) 0 True (trace_event E now m)"
      by (intro intros env) (use Traced assms(4) in \<open>simp add: clock_ok_def\<close>)
    from node [OF this] show ?thesis using Traced assms(5) by simp
  next
    case (RootEvent v)
    have "safe E (in_use s) 0 False (update_root_run E v)"
      by (rule safe_serving(1) [of 0]) (simp add: valid_epoch)
    from node [OF this] show ?thesis using RootEvent assms(5) by simp
  qed (use assms(4,5) in \<open>auto simp: clock_ok_def dest!: node [where X = False, rotated] intro!: intros\<close>)
qed


lemma new_booster_ok:
  assumes "new_booster E pp bp ns = (Inr b, ns')"
  shows "whole_ok E (started b)"
proof -
  obtain rn hp where n: "new_node (env_sha1 E) (env_resolve E) ''localhost'' (itoa pp) (itoa bp) True empty_heap = (Inr rn, hp)"
    using assms by (auto simp: new_booster_def split: prod.splits sum.splits)
  then have b: "bo_net b = (new_net hp rn (booster_id E pp bp))\<lparr>nw_heartbeat_ttl := 8000000000\<rparr>" "bo_tasks b = []"
    using assms by (auto simp: new_booster_def Let_def split: prod.splits sum.splits)
  have hp: "heap_wf hp" "node_ref hp rn"
    using new_node_extends [OF n] empty_heap_wf by auto
  have "net_wf (new_net hp rn (booster_id E pp bp))"
    using new_net_wf [OF hp new_tracer_wf, of "booster_id E pp bp"] by (simp add: new_net_def)
  then show ?thesis
    by (simp add: whole_ok_def started_def node_ok_def named_def b net_wf_def new_net_def the_conn_def)
qed

lemma reachable_ok:
  assumes "sound_env E" and "whole_ok E s" and "node_exec E es s = Some s'" and "\<forall>e \<in> set es. clock_ok e"
  shows "whole_ok E s'"
  using assms(2-4)
proof (induction es arbitrary: s)
  case (Cons e es)
  from Cons.prems(2) obtain s1 where s1: "node_step E e s = Some s1" "node_exec E es s1 = Some s'" by (rule exec_ConsE)
  obtain r s2 where r: "node_act E e s = (r, s2)" by fastforce
  have "node_enabled E e s" "s2 = s1"
    using s1(1) r by (auto simp: node_step_def split: if_splits sum.splits stop.splits)
  with node_act_ok [OF assms(1) Cons.prems(1) _ _ r] Cons.prems(3) have "whole_ok E s1" by simp
  then show ?case using Cons.IH s1(2) Cons.prems(3) by simp
qed simp

text \<open>The nodes that are offered have different identifiers.\<close>

lemma offered_distinct:
  assumes "net_wf n" and "named n"
  shows "distinct (map (\<lambda>x. node_id (the_node (nw_heap n) x)) (snd (nw_nodes n)))"
proof -
  let ?open = "filter (\<lambda>(i, c). is_active (nw_heap n) (bc_node (the_conn n c)) \<and> bc_conn (the_conn n c) \<noteq> None) (nw_outgoing n)"
  have "node_id (the_node (nw_heap n) (bc_node (the_conn n c))) = i" if "(i, c) \<in> set (nw_outgoing n)" for i c
    using assms that by (fastforce simp: net_wf_def named_def)
  then have "map (\<lambda>x. node_id (the_node (nw_heap n) x)) (snd (nw_nodes n)) = keys ?open"
    by (auto simp: nw_nodes_def)
  moreover have "distinct (keys ?open)"
    using assms(1) by (simp add: net_wf_def distinct_map_filter)
  ultimately show ?thesis by simp
qed

section \<open>The properties of a whole node\<close>

text \<open>
  C2: In every state that a node can reach after \<open>New\<close>, whatever its peers, clients, timers and
  servers do and in whichever order their goroutines take turns: its network is well formed; every
  registered connection has the identifier of its node; the nodes offered to the dispatcher have
  different identifiers; and every goroutine that handles a connection has one that exists, with the
  heartbeat timer that its handlers dereference.
\<close>

theorem reachable_nodes_sound:
  assumes "sound_env E" and "new_booster E pp bp ns = (Inr b, ns')"
    and "node_exec E es (started b) = Some s" and "\<forall>e \<in> set es. clock_ok e"
  shows "let n = bo_net (wh_node s) in net_wf n \<and>
    (\<forall>(i, c) \<in> set (nw_outgoing n). i = node_id (the_node (nw_heap n) (bc_node (the_conn n c)))) \<and>
    distinct (map (\<lambda>x. node_id (the_node (nw_heap n) x)) (snd (nw_nodes n))) \<and>
    (\<forall>pr. HandleConn pr \<in> set (bo_tasks (wh_node s)) \<longrightarrow> peer_ok pr (wh_node s))"
proof -
  have ok: "whole_ok E s" by (rule reachable_ok [OF assms(1) new_booster_ok [OF assms(2)] assms(3,4)])
  then have n: "net_wf (bo_net (wh_node s))" "named (bo_net (wh_node s))" by (simp_all add: whole_ok_def node_ok_def)
  moreover have "peer_ok pr (wh_node s)" if "HandleConn pr \<in> set (bo_tasks (wh_node s))" for pr
    using task_peer [OF ok that] by simp
  ultimately show ?thesis
    using offered_distinct [OF n] by (fastforce simp: Let_def net_wf_def named_def)
qed


text \<open>A node with one accepted connection, and a peer of it that asks for a node which answers badly.\<close>

definition whole_lib :: codec_lib where
  "whole_lib = table_lib [(PbHeader (new_header MessageHello epoch_stamp), [9, 1]), (PbHello ''23'' ''1'', [1]),
     (PbHeader (new_header MessageNotify epoch_stamp), [9, 5]),
     (PbHeader (new_header MessageConnect epoch_stamp), [9, 6]), (PbConnect ''evil:1'', [6]),
     (PbConnect ''10.0.0.2:23'', [7]), (PbHeader ((new_header MessageNotify epoch_stamp)\<lparr>pbh_modules := []\<rparr>), [9, 8]),
     (PbHeader (new_header MessageHeartbeat epoch_stamp), [9, 4]),
     (PbHeartbeat \<lparr>pbe_id = ''heartbeat'', pbe_hops = 1, pbe_ttl = Some \<lparr>ts_seconds = 8, ts_nanos = 0\<rparr>\<rparr>, [4])]"

definition evil_bytes :: bytes where
  "evil_bytes = fst (c_out (snd (conn_send crash_packet (map snd (pkt_modules crash_packet)) demo_conn)))"

definition whole_env :: env where
  "whole_env = demo_env\<lparr>env_lib := whole_lib, env_dial :=
     (\<lambda>addr. Inr ((((if addr = ''evil:1'' then evil_bytes else hello_bytes), EOF), ([], None)), ''10.0.0.2:50000''))\<rparr>"

definition new_node_1_23 :: booster where
  "new_node_1_23 = (case fst (new_booster whole_env 1 23 []) of Inr b \<Rightarrow> b)"

definition evil_request :: packet where
  "evil_request = \<lparr>pkt_meta = default_meta, pkt_modules =
     [(''HE'', \<lparr>mod_id = ''HE'', mod_size = 2, mod_payload = [9, 6]\<rparr>),
      (''PA'', \<lparr>mod_id = ''PA'', mod_size = 1, mod_payload = [6]\<rparr>)]\<rparr>"

definition quiet_peer :: socket where
  "quiet_peer = (([], EOF), ([], None))"

lemma whole_env_sound: "sound_env whole_env"
proof -
  have "proto_ok whole_lib" unfolding whole_lib_def by (rule table_lib_ok) (simp add: message_ids)
  then show ?thesis by (simp add: sound_env_def whole_env_def json_typed_def whole_lib_def table_lib_def)
qed

lemma new_node_1_23_made: "new_booster whole_env 1 23 [] = (Inr new_node_1_23, snd (new_booster whole_env 1 23 []))"
proof -
  have "\<exists>b. fst (new_booster whole_env 1 23 []) = Inr b"
    by (simp add: new_booster_def new_node_def whole_env_def demo_env_def nets_set_def Let_def)
  then obtain b where "fst (new_booster whole_env 1 23 []) = Inr b" ..
  then show ?thesis by (simp add: prod_eq_iff new_node_1_23_def)
qed

text \<open>Its hello is sent and its peer is handled.\<close>

definition node_with_peer :: booster where
  "node_with_peer =
     (snd (peer_send whole_env hello_packet (Accepted 0) (new_node_1_23\<lparr>bo_accepted := [open_socket default_net_config quiet_peer]\<rparr>)))
     \<lparr>bo_tasks := [HandleConn (Accepted 0)]\<rparr>"

lemma peer_accepted:
  obtains s where "node_exec whole_env [Accepts 0 quiet_peer] (started new_node_1_23) = Some s"
    and "HandleConn (Accepted 0) \<in> set (bo_tasks (wh_node s))" and "wh_waiting s = []" and "wh_node s = node_with_peer"
proof -
  let ?b = "new_node_1_23\<lparr>bo_accepted := [open_socket default_net_config quiet_peer]\<rparr>"
  have ports: "node_bport (nw_heap (bo_net ?b)) (nw_local (bo_net ?b)) = ''23''"
      "node_pport (nw_heap (bo_net ?b)) (nw_local (bo_net ?b)) = ''1''" "bo_accepted new_node_1_23 = []" by code_simp+
  have "encode_header whole_lib 0 (VMessage MessageHello) = Inr [9, 1]" by code_simp
  moreover have "payload_encoders whole_lib MessageHello = Some (encode_hello whole_lib)"
    by (simp add: payload_encoders_def message_ids)
  moreover have "encode_hello whole_lib (VHello \<lparr>he_bport = ''23'', he_pport = ''1''\<rparr>) = Inr [1]" by code_simp
  ultimately have enc: "encode_default whole_lib 0 (Some (VHello \<lparr>he_bport = ''23'', he_pport = ''1''\<rparr>)) MessageHello = Inr hello_packet"
    by (simp add: encode_defs hello_packet_def)
  have "fst (peer_send whole_env hello_packet (Accepted 0) ?b) = Inr ()" by code_simp
  then obtain b' where b': "peer_send whole_env hello_packet (Accepted 0) ?b = (Inr (), b')"
    by (metis prod.collapse)
  moreover have "bo_tasks (snd (peer_send whole_env hello_packet (Accepted 0) ?b)) = []" by code_simp
  ultimately have node: "b'\<lparr>bo_tasks := bo_tasks b' @ [HandleConn (Accepted 0)]\<rparr> = node_with_peer"
    by (simp add: node_with_peer_def)
  have "env_lib whole_env = whole_lib" by (simp add: whole_env_def)
  then have "accept_conn whole_env 0 (open_socket default_net_config quiet_peer) new_node_1_23 = (Inr (), node_with_peer)"
    using ports enc b' node by (simp add: accept_conn_def send_hello_def and_then_def reading_def go_def Let_def)
  then show thesis
    by (intro that [of "started node_with_peer"]) (simp_all add: node_step_def on_node_def started_def node_with_peer_def)
qed

lemma evil_request_crashes: "connect_crashes whole_env evil_request"
proof -
  have "header_id whole_env evil_request = Some MessageConnect"
      "net_decode (env_lib whole_env) evil_request ModulePayload TConnect = Inr (VConnect ''evil:1'')"
      "net_decode (env_lib whole_env) crash_packet ModulePayload THello = Inl Panic" by code_simp+
  moreover have "fst (conn_recv (open_socket default_net_config ((evil_bytes, EOF), ([], None)))) = Inr crash_packet"
    by code_simp
  ultimately show ?thesis
    by (auto simp: connect_crashes_def hello_crashes_def whole_env_def split: prod.split sum.split)
qed

theorem reachable_nodes_sound_witness:
  "\<exists>s. node_exec whole_env [Accepts 0 quiet_peer] (started new_node_1_23) = Some s \<and> peer_ok (Accepted 0) (wh_node s)"
proof -
  obtain s where s: "node_exec whole_env [Accepts 0 quiet_peer] (started new_node_1_23) = Some s"
      "HandleConn (Accepted 0) \<in> set (bo_tasks (wh_node s))" by (rule peer_accepted)
  have "\<forall>e \<in> set [Accepts 0 quiet_peer]. clock_ok e" using valid_epoch by (simp add: clock_ok_def)
  from reachable_nodes_sound [OF whole_env_sound new_node_1_23_made s(1) this] s show ?thesis by (auto simp: Let_def)
qed


end
