(* ===== verification/Watch.thy ===== *)
theory Watch
  imports Whole_Props
begin

text \<open>
  Every open connection of the network is watched: its heartbeat timer is armed, or its handler waits
  for the expiry of a heartbeat, after which it arms the timer again. So a peer that falls silent is
  removed without anybody's help.
\<close>

section \<open>Steps that leave the watching alone\<close>

text \<open>No connection is registered or opened, and no timer is touched.\<close>

definition calm :: "booster \<Rightarrow> booster \<Rightarrow> bool" where
  "calm b b' \<longleftrightarrow> nw_outgoing (bo_net b') = nw_outgoing (bo_net b) \<and>
     length (nw_conns (bo_net b)) \<le> length (nw_conns (bo_net b')) \<and>
     (\<forall>c < length (nw_conns (bo_net b)). bc_timer (the_conn (bo_net b') c) = bc_timer (the_conn (bo_net b) c) \<and>
        (bc_conn (the_conn (bo_net b) c) = None \<longrightarrow> bc_conn (the_conn (bo_net b') c) = None))"

abbreviation calm_step :: "'a booster_step \<Rightarrow> bool" where
  "calm_step \<equiv> holds (\<lambda>b. True) calm True"

interpretation calming: step_logic "\<lambda>b. True" calm
  by unfold_locales (auto simp: calm_def)

named_theorems calm_intros "steps that leave the watching alone"

lemmas [calm_intros] = calming.and_then calming.dropping calming.on_failure calming.deferring

lemma calm_stepI: "(\<And>b. calm b (snd (m b))) \<Longrightarrow> calm_step m"
  by (simp add: holds_def)

lemma calm_stepD: "calm_step m \<Longrightarrow> calm b (snd (m b))"
  by (simp add: holds_def)

text \<open>The same for operations on the network.\<close>

definition net_calm :: "network \<Rightarrow> network \<Rightarrow> bool" where
  "net_calm n n' \<longleftrightarrow> nw_outgoing n' = nw_outgoing n \<and> length (nw_conns n) \<le> length (nw_conns n') \<and>
     (\<forall>c < length (nw_conns n). bc_timer (the_conn n' c) = bc_timer (the_conn n c) \<and>
        (bc_conn (the_conn n c) = None \<longrightarrow> bc_conn (the_conn n' c) = None))"

lemma net_calm_refl [simp, intro]: "net_calm n n"
  by (simp add: net_calm_def)

lemma net_calm_trans: "net_calm a b \<Longrightarrow> net_calm b c \<Longrightarrow> net_calm a c"
  by (auto simp: net_calm_def)

lemma calm_net: "calm b b' \<longleftrightarrow> net_calm (bo_net b) (bo_net b')"
  by (simp add: calm_def net_calm_def)

lemma net_calm_upd_conn [intro]:
  assumes "\<And>b. bc_timer (f b) = bc_timer b" and "bc_conn (the_conn n c) = None \<Longrightarrow> bc_conn (f (the_conn n c)) = None"
  shows "net_calm n (upd_conn c f n)"
  using assms by (auto simp: net_calm_def the_conn_def upd_conn_def nth_update_if)

lemma net_calm_fields [simp, intro]:
  "net_calm n (publish m n)" "net_calm n (n\<lparr>nw_tracer := t\<rparr>)" "net_calm n (upd_heap f n)" "net_calm n (n\<lparr>nw_heap := hp\<rparr>)"
  by (simp_all add: net_calm_def the_conn_def publish_def upd_heap_def)

lemma net_calm_close [simp, intro]: "net_calm n (snd (bconn_close c n))"
proof (cases "bc_conn (the_conn n c)")
  case (Some cn)
  let ?u = "upd_heap (set_is_active (bc_node (the_conn n c)) False) (upd_conn c (\<lambda>b. b\<lparr>bc_conn := None\<rparr>) n)"
  let ?m = "publish (network_update NodeRemoved (bc_node (the_conn n c)) ?u) ?u"
  have "net_calm n (upd_conn c (\<lambda>b. b\<lparr>bc_conn := None\<rparr>) n)" by (rule net_calm_upd_conn) simp_all
  also have "net_calm \<dots> ?u" by (rule net_calm_fields)
  finally (net_calm_trans) have m: "net_calm n ?m" by (rule net_calm_trans [OF _ net_calm_fields(1)])
  have "net_calm n (?m\<lparr>nw_tracer := t\<rparr>)" for t by (rule net_calm_trans [OF m net_calm_fields(2)])
  then show ?thesis using m
    by (auto simp: bconn_close_def Some Let_def split: prod.split sum.split stop.split)
qed (simp add: bconn_close_def)

lemma closed_by_close: "c < length (nw_conns n) \<Longrightarrow> bc_conn (the_conn (snd (bconn_close c n)) c) = None"
  by (auto simp: bconn_close_def Let_def the_conn_upd split: option.split prod.split sum.split stop.split)

lemma net_calm_send [simp, intro]: "net_calm n (snd (bconn_send it ord p c n))"
proof (cases "bc_conn (the_conn n c)")
  case (Some cn)
  obtain r cn' where r: "conn_send p ord cn = (r, cn')" by fastforce
  have upd: "net_calm n (upd_conn c (\<lambda>b. b\<lparr>bc_conn := Some cn'\<rparr>) n)" by (rule net_calm_upd_conn) (simp_all add: Some)
  then show ?thesis
    using net_calm_trans [OF upd net_calm_close]
    by (cases it; cases r) (simp_all add: bconn_send_def Some r send_timeout_state)
qed (simp add: bconn_send_def)

lemma hung_send_closes:
  assumes "fst (bconn_send it ord p c n) = Inl Hang" and "c < length (nw_conns n)"
  shows "bc_conn (the_conn (snd (bconn_send it ord p c n)) c) = None"
proof -
  obtain cn where cn: "bc_conn (the_conn n c) = Some cn"
    using assms(1) by (cases "bc_conn (the_conn n c)") (auto simp: bconn_send_def)
  obtain r cn' where r: "conn_send p ord cn = (r, cn')" by fastforce
  let ?n = "upd_conn c (\<lambda>b. b\<lparr>bc_conn := Some cn'\<rparr>) n"
  have "\<not> it" using assms(1) by (auto simp: bconn_send_def cn r Let_def split: sum.splits)
  then have "snd (bconn_send it ord p c n) = snd (bconn_close c ?n)"
    by (simp add: bconn_send_def cn r send_timeout_state)
  then show ?thesis using closed_by_close [of c ?n] assms(2) by simp
qed

lemma net_calm_consume [simp, intro]: "net_calm n (snd (bconn_consume c n))"
  and net_calm_recv [simp, intro]: "net_calm n (snd (bconn_recv c n))"
  by (auto simp: bconn_consume_def bconn_recv_def split: option.split prod.split sum.split intro!: net_calm_upd_conn)

lemma net_calm_update_node [simp, intro]: "net_calm n (snd (update_node sha1 x u ack n))"
  by (auto simp: update_node_def Let_def net_remove_tunnel_def net_add_tunnel_def net_calm_def the_conn_def publish_def upd_heap_def
      split: prod.split sum.split)

lemma net_calm_close_untraced [simp, intro]: "net_calm n (close_untraced c n)"
  unfolding close_untraced_def by (rule net_calm_trans [OF net_calm_fields(3) net_calm_close])

lemma net_calm_close_all [simp, intro]: "net_calm n (fold (\<lambda>(k, c). close_untraced c) xs n)"
proof (induction xs arbitrary: n)
  case (Cons x xs)
  then show ?case by (auto simp: case_prod_unfold intro: net_calm_trans [OF net_calm_close_untraced])
qed simp

lemma net_calm_recv_hello [simp, intro]: "net_calm n (snd (recv_hello E cn raddr n))"
  by (cases rule: recv_hello_cases [of E cn raddr n]) (auto simp: new_conn_def net_calm_def the_conn_def nth_append)

lemma net_calm_untraces [simp, intro]: "net_calm n (snd (untraces m n))"
  by (auto simp: untraces_def split: prod.split sum.split stop.split)

section \<open>Calm handlers\<close>

lemma calm_primitives [calm_intros]:
  "calm_step (done_with x)" "calm_step (fail_with e)" "calm_step (reading f)" "calm_step (go t)"
  "calm_step (peer_close pr)" "calm_step (peer_send E p pr)" "calm_step (peer_consume pr)" "calm_step (signal_run r)"
  "calm_step bo_close" "calm_step bo_restart" "calm_step run_selects" "calm_step (on_net (untraces m))"
  "calm_step (activate c)" "calm_step (dial_booster E addr)" "calm_step (on_net (bconn_recv c))" "calm_step (payload_of E p ty)"
  by (rule calm_stepI;
      auto simp: calm_net done_with_def fail_with_def reading_def go_def peer_close_def peer_send_def peer_consume_def
        signal_run_def bo_close_def bo_restart_def run_selects_def on_net_def activate_def dial_booster_def payload_of_def
        Let_def case_prod_unfold net_calm_close_all [unfolded case_prod_unfold] split: peer.split sum.split)+

lemma calm_update [calm_intros]:
  "calm_step (\<lambda>b. on_net (update_node sha1 (x b) u True) b)"
  "calm_step (\<lambda>b. (Inr (), b\<lparr>bo_net := upd_heap f (bo_net b)\<rparr>))"
  by (rule calm_stepI; simp add: calm_net on_net_def case_prod_unfold)+

lemma calm_send_node [calm_intros]: "calm_step (send_node E now pr x)"
  unfolding send_node_def by (intro calm_intros)

lemma calm_handlers [calm_intros]:
  "calm_step (handle_ctrl E pr p)" "calm_step (handle_disconnect E now pr p)" "calm_step (handle_tunnel E c p)"
  unfolding handle_ctrl_def handle_disconnect_def handle_tunnel_def
  by (intro calm_intros; auto split: gvalue.split intro!: calm_intros)+

lemma calm_serving [calm_intros]:
  "calm_step (update_root_run E v)" "calm_step (serve_status_run E now pr v)" "calm_step (serve_net_run E now pr bm)"
  "calm_step (serve_node_run E now pr m)" "calm_step (serve_node_state E now pr)"
proof -
  have "calm_step (\<lambda>b. dropping (on_net (update_node (env_sha1 E) (nw_local (bo_net b)) u True)) b)" for u
    by (rule calm_stepI) (simp add: calm_net on_net_def case_prod_unfold)
  then show "calm_step (update_root_run E v)" by (cases v) (simp_all add: update_root_run_def calm_intros)
  show "calm_step (serve_status_run E now pr v)" by (cases v) (simp_all add: serve_status_run_def calm_intros)
  show "calm_step (serve_net_run E now pr bm)" unfolding serve_net_run_def by (intro calm_intros)
  show "calm_step (serve_node_run E now pr m)" unfolding serve_node_run_def Let_def case_prod_unfold by (intro calm_intros)
  have send: "calm_step (serve_node_send E now pr x)" for x unfolding serve_node_send_def by (intro calm_intros)
  have nodes: "calm_step (serve_nodes E now pr xs)" for xs
  proof (induction xs)
    case Nil
    show ?case by (rule calm_stepI) (simp add: calm_net)
  next
    case (Cons x xs)
    have "serve_nodes E now pr (x # xs) = and_then (serve_node_send E now pr x) (\<lambda>_. serve_nodes E now pr xs)"
      by (rule ext) simp
    then show ?case by (simp only:) (intro calm_intros send Cons)
  qed
  show "calm_step (serve_node_state E now pr)"
    unfolding serve_node_state_def by (intro calm_intros) (auto intro: nodes split: prod.split)
qed

lemma calm_accept [calm_intros]: "calm_step (accept_conn E now cn)"
proof (rule calm_stepI)
  fix b :: booster
  let ?k = "length (bo_accepted b)"
  have "calm_step (and_then (send_hello E now (Accepted ?k)) (\<lambda>_. go (HandleConn (Accepted ?k))))"
    unfolding send_hello_def Let_def by (intro calm_intros)
  from calm_stepD [OF this, of "b\<lparr>bo_accepted := bo_accepted b @ [cn]\<rparr>"]
  show "calm b (snd (accept_conn E now cn b))" by (simp add: accept_conn_def Let_def calm_net)
qed

lemma calm_connect_cmd [calm_intros]: "calm_step (connect_cmd E now laddr raddr)"
  unfolding connect_cmd_def client_command_def recv_node_def
  by (intro calm_intros) (auto split: gvalue.split intro!: calm_intros)


lemma calm_trace [calm_intros]: "calm_step (trace_event E now m)"
proof (rule calm_stepI)
  fix b
  have un: "calm b (snd (on_net (untraces m) b))" for b by (rule calm_stepD) (intro calm_intros)
  show "calm b (snd (trace_event E now m b))"
  proof (cases rule: trace_event_cases [of E now m b])
    case (3 c r b1)
    have "calm b b1"
      using calm_stepD [OF calm_connect_cmd [of E now "local_baddr b"]] 3(1) unfolding reconnect_to_def by (metis snd_conv)
    then show ?thesis using 3(2) un [of b1] calming.trans by auto
  qed (simp_all add: un calming.refl)
qed

section \<open>Watched connections\<close>

definition watched :: "nat set \<Rightarrow> network \<Rightarrow> bool" where
  "watched W n \<longleftrightarrow>
     (\<forall>(i, c) \<in> set (nw_outgoing n). c < length (nw_conns n) \<and>
        (bc_conn (the_conn n c) = None \<or> bc_timer (the_conn n c) = Some True \<or> c \<in> W))"

lemma watched_calm: "watched W n \<Longrightarrow> net_calm n n' \<Longrightarrow> watched W n'"
  by (fastforce simp: watched_def net_calm_def)

lemma watched_mono: "watched W n \<Longrightarrow> W \<subseteq> W' \<Longrightarrow> watched W' n"
  by (fastforce simp: watched_def)

lemma watched_closed: "watched (insert c W) n \<Longrightarrow> bc_conn (the_conn n c) = None \<Longrightarrow> watched W n"
  by (auto simp: watched_def)

lemma watched_timer:
  "watched W n \<Longrightarrow> watched (if armed then W - {c} else insert c W) (upd_conn c (\<lambda>x. x\<lparr>bc_timer := Some armed\<rparr>) n)"
  unfolding watched_def by (auto simp: the_conn_def upd_conn_def nth_update_if split: prod.splits)

lemma watched_add_conn:
  assumes "watched W n" and "c < length (nw_conns n)"
  shows "watched (insert c W) (snd (add_conn c n))"
proof -
  have ins: "watched (insert c W) (inserted c n)" if "watched W n" "c < length (nw_conns n)" for n :: network
  proof -
    have og: "set (AList.update i c og) \<subseteq> insert (i, c) (set og)" for i and og :: "(string \<times> nat) list"
      by (induction og) auto
    have sub: "set (nw_outgoing (inserted c n)) \<subseteq> insert (bc_id (the_conn n c), c) (set (nw_outgoing n))"
      using og by (simp add: inserted_def Let_def publish_def the_conn_ids)
    have len: "length (nw_conns (inserted c n)) = length (nw_conns n)" by (simp add: inserted_def Let_def publish_def)
    have same: "bc_conn (the_conn (inserted c n) d) = bc_conn (the_conn n d)"
        "bc_timer (the_conn (inserted c n) d) = bc_timer (the_conn n d)" if "d < length (nw_conns n)" for d
      using that by (simp_all add: inserted_def Let_def publish_def the_conn_def upd_conn_def nth_update_if)
    show ?thesis
      unfolding watched_def
    proof clarify
      fix i d assume "(i, d) \<in> set (nw_outgoing (inserted c n))"
      then have "(i, d) \<in> set (nw_outgoing n) \<or> d = c" using sub by auto
      then have d: "d < length (nw_conns n)"
          "bc_conn (the_conn n d) = None \<or> bc_timer (the_conn n d) = Some True \<or> d \<in> insert c W"
        using that by (auto simp: watched_def)
      then show "d < length (nw_conns (inserted c n)) \<and>
          (bc_conn (the_conn (inserted c n) d) = None \<or> bc_timer (the_conn (inserted c n) d) = Some True \<or> d \<in> insert c W)"
        by (simp only: len same [OF d(1)])
    qed
  qed
  show ?thesis
  proof (cases rule: add_conn_cases [of n c])
    case 1
    then show ?thesis using ins assms by simp
  next
    case 2
    then show ?thesis using watched_mono [OF assms(1) subset_insertI] by simp
  next
    case (3 cc)
    have "watched W (upd_heap f n)" for f by (rule watched_calm [OF assms(1) net_calm_fields(3)])
    then show ?thesis using 3 ins assms(2) by simp
  qed
qed


text \<open>Steps that keep the connections watched, those in \<open>W\<close> by other means than the timer.\<close>

abbreviation attentive :: "nat set \<Rightarrow> 'a booster_step \<Rightarrow> bool" where
  "attentive W \<equiv> holds (\<lambda>b. watched W (bo_net b)) (\<lambda>b b'. True) True"

interpretation watching: step_logic I "\<lambda>b b'. True" for I
  by unfold_locales simp_all

lemma calm_attentive: "calm_step m \<Longrightarrow> attentive W m"
  by (auto simp: holds_def calm_net intro: watched_calm)

lemma attentiveD: "attentive W m \<Longrightarrow> watched W (bo_net b) \<Longrightarrow> watched W (bo_net (snd (m b)))"
  by (simp add: holds_def)

lemma attentive_bound:
  assumes "calm_step m"
  shows "holds (\<lambda>b. watched W (bo_net b) \<and> c < length (nw_conns (bo_net b))) (\<lambda>b b'. True) True m"
  using assms by (fastforce simp: holds_def calm_net net_calm_def intro: watched_calm)

section \<open>Wiring\<close>

text \<open>A step that ends with a panic or a hang only after \<open>c\<close> is closed.\<close>

definition parting :: "nat \<Rightarrow> 'a booster_step \<Rightarrow> bool" where
  "parting c m \<longleftrightarrow> (\<forall>b. c < length (nw_conns (bo_net b)) \<longrightarrow>
     c < length (nw_conns (bo_net (snd (m b)))) \<and>
     (fst (m b) \<in> {Inl Panic, Inl Hang} \<longrightarrow> bc_conn (the_conn (bo_net (snd (m b))) c) = None))"

lemma parting_and_then:
  assumes m: "parting c m" and f: "\<And>x. parting c (f x)"
  shows "parting c (and_then m f)"
  unfolding parting_def
proof (intro allI impI)
  fix b :: booster assume b: "c < length (nw_conns (bo_net b))"
  obtain r b' where r: "m b = (r, b')" by fastforce
  have b': "c < length (nw_conns (bo_net b'))" "r \<in> {Inl Panic, Inl Hang} \<Longrightarrow> bc_conn (the_conn (bo_net b') c) = None"
    using m b r unfolding parting_def by (metis fst_conv snd_conv)+
  let ?x = "and_then m f b"
  show "c < length (nw_conns (bo_net (snd ?x))) \<and>
      (fst ?x \<in> {Inl Panic, Inl Hang} \<longrightarrow> bc_conn (the_conn (bo_net (snd ?x)) c) = None)"
  proof (cases r)
    case (Inl e)
    then show ?thesis using r b' by (simp add: and_then_def)
  next
    case (Inr x)
    then show ?thesis using r f [of x] b'(1) by (simp add: and_then_def parting_def)
  qed
qed

lemma parting_reading: "(\<And>b. f b \<notin> {Inl Panic, Inl Hang}) \<Longrightarrow> parting c (reading f)"
  by (simp add: parting_def reading_def)

lemma parting_send: "parting c (peer_send E p (Wired c))"
  unfolding parting_def
proof (intro allI impI)
  fix b :: booster assume b: "c < length (nw_conns (bo_net b))"
  obtain r n where r: "bconn_send (env_in_time E p) (env_order E p) p c (bo_net b) = (r, n)" by fastforce
  have "r \<noteq> Inl Panic" using not_panics(2) r by (metis fst_conv)
  moreover have "r = Inl Hang \<Longrightarrow> bc_conn (the_conn n c) = None" using hung_send_closes [OF _ b] r by (metis fst_conv snd_conv)
  moreover have "c < length (nw_conns n)" using net_calm_send [of "bo_net b"] b r by (metis net_calm_def order_less_le_trans snd_conv)
  ultimately show "c < length (nw_conns (bo_net (snd (peer_send E p (Wired c) b)))) \<and>
      (fst (peer_send E p (Wired c) b) \<in> {Inl Panic, Inl Hang} \<longrightarrow>
       bc_conn (the_conn (bo_net (snd (peer_send E p (Wired c) b))) c) = None)"
    by (auto simp: peer_send_def on_net_def r)
qed

lemma net_encode_not_Hang:
  assumes "\<And>pl. v = Some pl \<Longrightarrow> encoding meta \<noteq> EncodingJson \<Longrightarrow> call_encoder (payload_encoders L msg) pl \<noteq> Inl Hang"
  shows "net_encode L now v msg meta \<noteq> Inl Hang"
proof -
  have json: "json_encode L w \<noteq> Inl Hang" for w by (simp add: json_encode_def split: sum.split)
  have add: "add_net_module i raw p \<noteq> Inl Hang" for i raw p
    by (auto simp: add_net_module_def split: prod.split sum.split)
  have hdr: "encode_header L now (VMessage msg) \<noteq> Inl Hang"
    by (auto simp: encode_header_def proto_marshal_def Let_def split: option.split sum.split)
  have lift: "lift_proto r = Inl Hang \<longleftrightarrow> r = Inl Hang" for r :: "proto_error stop + 'a"
    by (auto simp: lift_proto_def split: sum.split stop.split)
  show ?thesis
    using json add hdr assms
    by (auto simp: net_encode_def Let_def protocol_encode_def call_encoder_def lift split: sum.split option.splits if_splits)
qed


text \<open>When the body of \<open>Wire\<close> fails the connection is closed; otherwise its timer is armed.\<close>

lemma failure_closes:
  assumes body: "holds (\<lambda>b. watched (insert c W) (bo_net b) \<and> c < length (nw_conns (bo_net b))) (\<lambda>b b'. True) True m"
    and part: "parting c m" and b: "watched (insert c W) (bo_net b)" "c < length (nw_conns (bo_net b))"
    and r: "on_failure (peer_close (Wired c)) m b = (r, b')"
  shows "watched (case r of Inl e \<Rightarrow> W | Inr x \<Rightarrow> insert c W) (bo_net b')"
proof -
  obtain r2 b2 where m: "m b = (r2, b2)" by fastforce
  have b2: "watched (insert c W) (bo_net b2)" "c < length (nw_conns (bo_net b2))"
    using holdsD(1) [OF body _ m] b by simp_all
  show ?thesis
  proof (cases r2)
    case (Inr x)
    then show ?thesis using r m b2 by (auto simp: on_failure_def)
  next
    case (Inl e)
    show ?thesis
    proof (cases e)
      case (Error x)
      let ?close = "peer_close (Wired c)"
      have "bo_net (snd (?close b2)) = snd (bconn_close c (bo_net b2))"
        by (simp add: peer_close_def on_net_def case_prod_unfold)
      then have "watched W (bo_net (snd (?close b2)))"
        using closed_by_close [OF b2(2)] watched_calm [OF b2(1) net_calm_close [of "bo_net b2" c]] watched_closed by metis
      moreover have "\<exists>f. on_failure ?close m b = (Inl f, snd (?close b2))"
        by (cases "?close b2"; cases "fst (?close b2)")
           (auto simp: on_failure_def m Inl Error and_then_def dropping_def fail_with_def split: stop.split)
      ultimately show ?thesis using r by auto
    qed (use part b(2) m r Inl b2(1) watched_closed in \<open>auto simp: on_failure_def parting_def\<close>)
  qed
qed

lemma wire_attentive:
  assumes "valid_time now"
  shows "attentive W (wire E now target)"
  unfolding holds_def
proof (intro allI impI conjI TrueI)
  fix b :: booster assume b: "watched W (bo_net b)"
  obtain r b1 where r: "dial_booster E target b = (r, b1)" by fastforce
  have "calm_step (dial_booster E target)" by (intro calm_intros)
  then have b1: "watched W (bo_net b1)" using attentiveD [OF calm_attentive b] r by (metis snd_conv)
  show "watched W (bo_net (snd (wire E now target b)))"
  proof (cases r)
    case (Inl e)
    then show ?thesis using r b1 by (simp add: wire_def and_then_def)
  next
    case (Inr c)
    let ?I = "\<lambda>b. watched (insert c W) (bo_net b) \<and> c < length (nw_conns (bo_net b))"
    let ?m = "and_then (on_net (add_conn c)) (\<lambda>_.
            and_then (reading (\<lambda>b. encode_default (env_lib E) now None MessageNotify)) (\<lambda>p.
            and_then (peer_send E p (Wired c)) (\<lambda>_.
            and_then (reading (\<lambda>b. compose_heartbeat (env_lib E) now (bo_net b) None)) (\<lambda>p.
            peer_send E p (Wired c)))))"
    let ?tail = "and_then (activate c) (\<lambda>_. and_then (go (HandleConn (Wired c))) (\<lambda>_. done_with c))"
    have c: "c < length (nw_conns (bo_net b1))" using dial_conn r Inr by blast
    have add: "holds ?I (\<lambda>b b'. True) True (on_net (add_conn c))"
      using watched_add_conn [of "insert c W"] by (fastforce simp: holds_def on_net_def case_prod_unfold)
    have body: "holds ?I (\<lambda>b b'. True) True ?m"
      by (intro watching.and_then add attentive_bound calm_intros)
    have encs: "encode_default (env_lib E) now None MessageNotify \<noteq> Inl Hang"
        "compose_heartbeat (env_lib E) now n h \<noteq> Inl Hang" for n h
      unfolding encode_default_def compose_heartbeat_def
      by (rule net_encode_not_Hang; auto simp: call_encoder_def protocol_encode_def payload_encoders_def message_ids
          encode_heartbeat_def proto_marshal_def split: option.split sum.split)+
    have "fst (add_conn c n) \<notin> {Inl Panic, Inl Hang}" for n by (cases rule: add_conn_cases [of n c]) auto
    then have "parting c (on_net (add_conn c))" by (auto simp: parting_def on_net_def case_prod_unfold)
    then have part: "parting c ?m"
      by (intro parting_and_then parting_reading parting_send) (use encs compositions_not_Panic [OF assms] in auto)
    obtain r2 b2 where r2: "on_failure (peer_close (Wired c)) ?m b1 = (r2, b2)" by fastforce
    note b2 = failure_closes [OF body part watched_mono [OF b1 subset_insertI] c r2]
    show ?thesis
    proof (cases r2)
      case (Inl e)
      then show ?thesis using r \<open>r = Inr c\<close> r2 b2 by (simp add: wire_def and_then_def)
    next
      case (Inr x)
      obtain b3 where b3: "start_timer c b2 = (Inr (), b3)" by (simp add: start_timer_def)
      have "watched (insert c W - {c}) (bo_net b3)"
        using b2 b3 watched_timer [of "insert c W" _ True c] Inr by (auto simp: start_timer_def)
      then have "watched W (bo_net b3)" by (rule watched_mono) auto
      moreover have "calm_step ?tail" by (intro calm_intros)
      ultimately have "watched W (bo_net (snd (?tail b3)))" using attentiveD [OF calm_attentive] by blast
      then show ?thesis using r \<open>r = Inr c\<close> r2 Inr b3 by (simp add: wire_def and_then_def)
    qed
  qed
qed


section \<open>Heartbeats\<close>

abbreviation wired :: "peer set \<Rightarrow> nat set" where
  "wired S \<equiv> {c. Wired c \<in> S}"

lemma watched_on_failure:
  assumes "watched W (bo_net (snd (m b)))" and "calm_step c"
  shows "watched W (bo_net (snd (on_failure c m b)))"
  using on_failure_state [of m b "fst (m b)" "snd (m b)" c] assms attentiveD [OF calm_attentive [OF assms(2)] assms(1)] by auto

lemma set_timer_watched:
  assumes "watched W (bo_net b)" and "set_timer armed pr b = (Inr (), b')"
  shows "watched (if armed then W - wired {pr} else W \<union> wired {pr}) (bo_net b')"
proof (cases pr)
  case (Accepted k)
  then show ?thesis using assms by (simp add: set_timer_def)
next
  case (Wired c)
  then have "watched (if armed then W - {c} else insert c W) (bo_net b')"
    using assms watched_timer [OF assms(1), of armed c] by (auto simp: set_timer_def split: option.splits)
  moreover have "wired {pr} = {c}" using Wired by auto
  ultimately show ?thesis by (simp split: if_splits)
qed

lemma set_timer_made: "set_timer armed pr b = (Inr (), b') \<Longrightarrow> peer_ok pr b \<Longrightarrow> peer_ok pr b'"
  by (auto simp: set_timer_def peer_ok_def the_conn_upd split: peer.splits option.splits)

lemma set_timer_returns:
  assumes "peer_ok pr b"
  obtains b' where "set_timer armed pr b = (Inr (), b')"
  using assms by (auto simp: set_timer_def peer_ok_def split: peer.splits option.splits)

lemma heartbeat_received_watched:
  assumes b: "watched W (bo_net b)" "peer_ok pr b" and r: "heartbeat_received E now pr p b = (r, b')"
  shows "case r of Inl e \<Rightarrow> watched W (bo_net b') | Inr h \<Rightarrow> watched (W \<union> wired {pr}) (bo_net b') \<and> peer_ok pr b'"
proof -
  let ?m = "and_then (payload_of E p THeartbeat) (\<lambda>v.
         case v of
           VHeartbeat h \<Rightarrow>
             if hb_ttl h < now then fail_with (Error (HeartbeatExpired (hb_ttl h)))
             else and_then (set_timer False pr) (\<lambda>_. done_with h)
         | _ \<Rightarrow> fail_with Panic)"
  obtain b1 where b1: "set_timer False pr b = (Inr (), b1)" using set_timer_returns [OF b(2)] .
  have "(\<exists>e. ?m b = (Inl e, b)) \<or> (\<exists>h. ?m b = (Inr h, b1))"
    by (auto simp: and_then_def payload_of_def reading_def fail_with_def done_with_def b1 split: sum.split gvalue.split)
  then show ?thesis
  proof (elim disjE exE)
    fix e assume m: "?m b = (Inl e, b)"
    have "watched W (bo_net (snd (on_failure (peer_close pr) ?m b)))"
      by (rule watched_on_failure) (simp_all add: m b(1) calm_intros)
    moreover have "\<exists>e'. fst (on_failure (peer_close pr) ?m b) = Inl e'" by (rule on_failure_error) (rule m)
    ultimately show ?thesis using r by (auto simp: heartbeat_received_def)
  next
    fix h assume "?m b = (Inr h, b1)"
    then have "r = Inr h" "b' = b1" using r by (auto simp: heartbeat_received_def on_failure_def)
    then show ?thesis using set_timer_watched [OF b(1) b1] set_timer_made [OF b1 b(2)] by simp
  qed
qed

text \<open>The answer arms the timer; what follows leaves it alone.\<close>

lemma heartbeat_answer_armed:
  assumes "peer_ok pr b"
  obtains b1 where "set_timer True pr b = (Inr (), b1)" and "calm b1 (snd (heartbeat_answer E later pr h b))"
proof -
  let ?rest = "and_then (reading (\<lambda>b. compose_heartbeat (env_lib E) later (bo_net b) (Some h))) (\<lambda>p. peer_send E p pr)"
  obtain b1 where b1: "set_timer True pr b = (Inr (), b1)" using set_timer_returns [OF assms] .
  have "heartbeat_answer E later pr h b = on_failure (peer_close pr) ?rest b1"
    by (simp add: heartbeat_answer_def on_failure_def and_then_def [of "set_timer True pr"] b1)
  moreover have "calm_step (on_failure (peer_close pr) ?rest)" by (intro calm_intros)
  ultimately have "calm b1 (snd (heartbeat_answer E later pr h b))" using calm_stepD by metis
  then show thesis by (rule that [OF b1])
qed

lemma heartbeat_answer_watched:
  assumes "watched W (bo_net b)" and "peer_ok pr b"
  shows "watched (W - wired {pr}) (bo_net (snd (heartbeat_answer E later pr h b)))"
proof -
  obtain b1 where b1: "set_timer True pr b = (Inr (), b1)" "calm b1 (snd (heartbeat_answer E later pr h b))"
    by (rule heartbeat_answer_armed [OF assms(2)])
  have "watched (W - wired {pr}) (bo_net b1)" using set_timer_watched [OF assms(1) b1(1)] by simp
  then show ?thesis using b1(2) watched_calm by (simp add: calm_net)
qed

lemma handle_heartbeat_watched:
  assumes "watched W (bo_net b)" and "peer_ok pr b"
  shows "watched W (bo_net (snd (handle_heartbeat E now later pr p b)))"
proof -
  obtain r b1 where r: "heartbeat_received E now pr p b = (r, b1)" by fastforce
  note b1 = heartbeat_received_watched [OF assms r]
  show ?thesis
  proof (cases r)
    case (Inl e)
    then show ?thesis using r b1 by (simp add: handle_heartbeat_def and_then_def)
  next
    case (Inr h)
    then have "watched (W \<union> wired {pr} - wired {pr}) (bo_net (snd (heartbeat_answer E later pr h b1)))"
      using b1 by (intro heartbeat_answer_watched) simp_all
    then show ?thesis
      using r Inr by (auto simp: handle_heartbeat_def and_then_def elim: watched_mono)
  qed
qed

lemma handle_connect_attentive:
  assumes "valid_time now"
  shows "attentive W (handle_connect E now pr p)"
  unfolding handle_connect_def
proof (rule watching.deferring [OF watching.and_then])
  fix v
  have "attentive W (and_then (wire E now t) (\<lambda>tc.
             and_then (reading (\<lambda>b. Inr (bc_node (the_conn (bo_net b) tc)))) (\<lambda>x. send_node E now pr x)))" for t
    by (rule watching.and_then [OF wire_attentive [OF assms]], rule calm_attentive) (intro calm_intros)
  then show "attentive W (case v of
           VConnect target \<Rightarrow>
             and_then (wire E now target) (\<lambda>tc.
             and_then (reading (\<lambda>b. Inr (bc_node (the_conn (bo_net b) tc)))) (\<lambda>x.
             send_node E now pr x))
         | _ \<Rightarrow> fail_with Panic)"
    by (auto split: gvalue.split intro: calm_attentive calm_intros)
qed (rule calm_attentive, intro calm_intros)+

section \<open>Turns\<close>

lemma handle_packet_watched:
  assumes "watched W (bo_net b)" and "peer_ok pr b" and "valid_time now"
  shows "watched W (bo_net (snd (handle_packet E now later pr p b)))"
proof -
  have calm: "watched W (bo_net (snd (m b)))" if "calm_step m" for m :: "unit booster_step"
    using attentiveD [OF calm_attentive [OF that] assms(1)] .
  have tun: "watched W (bo_net (snd ((case pr of Wired c \<Rightarrow> dropping (handle_tunnel E c p) | Accepted k \<Rightarrow> done_with ()) b)))"
    by (rule calm) (cases pr; simp add: calm_intros)
  have "watched W (bo_net (snd (handle_connect E now pr p b)))"
    by (rule attentiveD [OF handle_connect_attentive [OF assms(3)] assms(1)])
  moreover have "watched W (bo_net (snd (handle_heartbeat E now later pr p b)))"
    by (rule handle_heartbeat_watched [OF assms(1,2)])
  moreover note calm [OF calm_handlers(1), of E pr p] calm [OF calm_handlers(2), of E now pr p]
    calm [OF calm_primitives(4), of "ServeStatusOn pr"] calm [OF calm_primitives(4), of "ServeMonitorOn pr p"]
  ultimately show ?thesis
    using assms(1) tun
    by (auto simp: handle_packet_def and_then_def reading_def fail_with_def Let_def split: sum.split gvalue.split)
qed

lemma timer_fires_attentive: "attentive W (timer_fires c)"
  unfolding holds_def
proof (intro allI impI conjI TrueI)
  fix b :: booster assume b: "watched W (bo_net b)"
  let ?b = "b\<lparr>bo_net := upd_conn c (\<lambda>x. x\<lparr>bc_timer := Some False\<rparr>) (bo_net b)\<rparr>"
  have w: "watched (insert c W) (bo_net ?b)" using watched_timer [OF b, of False c] by simp
  have "watched W (bo_net (snd (peer_close (Wired c) ?b)))"
  proof (cases "c < length (nw_conns (bo_net ?b))")
    case True
    have "bo_net (snd (peer_close (Wired c) ?b)) = snd (bconn_close c (bo_net ?b))"
      by (simp add: peer_close_def on_net_def case_prod_unfold)
    then show ?thesis
      using closed_by_close [OF True] watched_calm [OF w net_calm_close] watched_closed by metis
  next
    case False
    then have "watched W (bo_net ?b)" using b by (simp add: upd_conn_def the_conn_def watched_def list_update_beyond)
    then show ?thesis using attentiveD [OF calm_attentive [OF calm_primitives(5)]] by blast
  qed
  then show "watched W (bo_net (snd (timer_fires c b)))"
    using watched_closed [OF w] by (simp add: timer_fires_def Let_def)
qed


definition watching_nodes :: "whole \<Rightarrow> bool" where
  "watching_nodes s \<longleftrightarrow> watched (wired (fst ` set (wh_waiting s))) (bo_net (wh_node s))"

lemma turn_watched:
  assumes "watching_nodes s" and "on_node m s = (r, s')"
    and "watched (wired (fst ` set (wh_waiting s))) (bo_net (snd (m (wh_node s))))"
  shows "watching_nodes s'"
  using assms by (auto simp: on_node_def watching_nodes_def split: prod.splits)

lemma turn_calm:
  assumes "watching_nodes s" and "on_node m s = (r, s')" and "calm_step m"
  shows "watching_nodes s'"
  using turn_watched [OF assms(1,2) attentiveD [OF calm_attentive [OF assms(3)]]] assms(1)
  by (simp add: watching_nodes_def)

lemma heartbeat_begins_watched:
  assumes "watching_nodes s" and "peer_ok pr (wh_node s)" and "heartbeat_begins E pr now p s = (r, s')"
  shows "watching_nodes s'"
proof -
  obtain r1 b where r1: "heartbeat_received E now pr p (wh_node s) = (r1, b)" by fastforce
  note b = heartbeat_received_watched [OF assms(1) [unfolded watching_nodes_def] assms(2) r1]
  show ?thesis
  proof (cases r1)
    case (Inl e)
    then show ?thesis using assms(3) r1 b by (auto simp: heartbeat_begins_def watching_nodes_def split: stop.splits)
  next
    case (Inr h)
    have "wired (fst ` set (AList.update pr h (wh_waiting s))) = wired (fst ` set (wh_waiting s)) \<union> wired {pr}"
      by (auto simp: dom_update)
    then show ?thesis using assms(3) r1 b Inr by (auto simp: heartbeat_begins_def watching_nodes_def)
  qed
qed

lemma heartbeat_ends_watched:
  assumes "watching_nodes s" and "peer_ok pr (wh_node s)" and "heartbeat_ends E pr later s = (r, s')"
  shows "watching_nodes s'"
proof (cases "map_of (wh_waiting s) pr")
  case (Some h)
  let ?s = "s\<lparr>wh_waiting := AList.delete pr (wh_waiting s)\<rparr>"
  have "wired (fst ` set (AList.delete pr (wh_waiting s))) = wired (fst ` set (wh_waiting s)) - wired {pr}"
    by (auto simp: AList.delete_eq)
  then have "watched (wired (fst ` set (wh_waiting ?s))) (bo_net (snd (heartbeat_answer E later pr h (wh_node s))))"
    using heartbeat_answer_watched [OF assms(1) [unfolded watching_nodes_def] assms(2), of E later h] by simp
  then show ?thesis
    using assms(3) Some by (auto simp: heartbeat_ends_def on_node_def watching_nodes_def case_prod_unfold)
qed (use assms(1,3) in \<open>simp add: heartbeat_ends_def\<close>)

lemma node_act_watched:
  assumes "whole_ok E s" and "watching_nodes s" and "node_enabled E e s" and "clock_ok e" and "node_act E e s = (r, s')"
  shows "watching_nodes s'"
proof -
  note calm = turn_calm [OF assms(2)]
  show ?thesis
  proof (cases e)
    case (Handles pr now later p)
    have "peer_ok pr (wh_node s)" using handling_peer [OF assms(1)] assms(3) Handles by (auto simp: in_use_def)
    then have "watched (wired (fst ` set (wh_waiting s))) (bo_net (snd (on_failure (peer_close pr) (handle_packet E now later pr p) (wh_node s))))"
      by (intro watched_on_failure handle_packet_watched calm_intros)
         (use assms(2,4) Handles in \<open>simp_all add: watching_nodes_def clock_ok_def\<close>)
    moreover have "on_node (on_failure (peer_close pr) (handle_packet E now later pr p)) s = (r, s')"
      using assms(5) Handles by simp
    ultimately show ?thesis using turn_watched [OF assms(2)] by blast
  next
    case (HeartbeatBegins pr now p)
    have "peer_ok pr (wh_node s)" using handling_peer [OF assms(1)] assms(3) HeartbeatBegins by (auto simp: in_use_def)
    then show ?thesis using heartbeat_begins_watched [OF assms(2)] assms(5) HeartbeatBegins by simp
  next
    case (HeartbeatEnds pr later)
    then obtain h where "(pr, h) \<in> set (wh_waiting s)" using assms(3) by auto
    then have "peer_ok pr (wh_node s)" using assms(1) by (auto simp: whole_ok_def)
    then show ?thesis using heartbeat_ends_watched [OF assms(2)] assms(5) HeartbeatEnds by simp
  next
    case (TimerFires c)
    have "watched (wired (fst ` set (wh_waiting s))) (bo_net (snd (timer_fires c (wh_node s))))"
      using attentiveD [OF timer_fires_attentive] assms(2) by (simp add: watching_nodes_def)
    moreover have "on_node (timer_fires c) s = (r, s')" using assms(5) TimerFires by simp
    ultimately show ?thesis using turn_watched [OF assms(2)] by blast
  next
    case (MonitorBegins pr p)
    have "calm_step (on_failure (peer_close pr) (and_then (payload_of E p TMonitor) (\<lambda>v. done_with ())))"
      by (intro calm_intros)
    from calm [OF _ this] show ?thesis using assms(5) MonitorBegins by simp
  qed (use assms(5) in \<open>auto intro: calm calm_intros\<close>)
qed

lemma reachable_watched:
  assumes "sound_env E" and "whole_ok E s" and "watching_nodes s" and "node_exec E es s = Some s'" and "\<forall>e \<in> set es. clock_ok e"
  shows "watching_nodes s'"
  using assms(2-5)
proof (induction es arbitrary: s)
  case (Cons e es)
  from Cons.prems(3) obtain s1 where s1: "node_step E e s = Some s1" "node_exec E es s1 = Some s'" by (rule exec_ConsE)
  obtain r s2 where r: "node_act E e s = (r, s2)" by fastforce
  have e: "node_enabled E e s" "s2 = s1"
    using s1(1) r by (auto simp: node_step_def split: if_splits sum.splits stop.splits)
  have "clock_ok e" using Cons.prems(4) by simp
  then have "whole_ok E s1" "watching_nodes s1"
    using node_act_ok [OF assms(1) Cons.prems(1) e(1) _ r] node_act_watched [OF Cons.prems(1,2) e(1) _ r] e(2) by simp_all
  then show ?case using Cons.IH s1(2) Cons.prems(4) by simp
qed simp


lemma new_booster_watched: "new_booster E pp bp ns = (Inr b, ns') \<Longrightarrow> watching_nodes (started b)"
  by (auto simp: new_booster_def new_net_def watching_nodes_def started_def watched_def Let_def split: prod.splits sum.splits)

section \<open>Silent peers\<close>

text \<open>The timer of an armed connection closes it.\<close>

lemma timer_closes:
  assumes "whole_ok E s" and "sound_env E" and "c < length (nw_conns (bo_net (wh_node s)))"
    and "bc_timer (the_conn (bo_net (wh_node s)) c) = Some True"
  obtains s' where "node_exec E [TimerFires c] s = Some s'" and "bc_conn (the_conn (bo_net (wh_node s')) c) = None"
proof -
  let ?b = "(wh_node s)\<lparr>bo_net := upd_conn c (\<lambda>x. x\<lparr>bc_timer := Some False\<rparr>) (bo_net (wh_node s))\<rparr>"
  obtain r b where r: "timer_fires c (wh_node s) = (r, b)" by fastforce
  have "node_enabled E (TimerFires c) s" using assms(3,4) by simp
  moreover have "node_act E (TimerFires c) s = (r, s\<lparr>wh_node := b\<rparr>)" by (simp add: on_node_def r)
  moreover have "r \<noteq> Inl Panic"
    using node_act_ok [OF assms(2,1) calculation(1) _ calculation(2)] by (auto simp: clock_ok_def)
  ultimately have "node_exec E [TimerFires c] s = Some (s\<lparr>wh_node := b\<rparr>)"
    by (auto simp: node_step_def split: sum.split stop.split)
  moreover have "bc_conn (the_conn (bo_net b) c) = None"
  proof (cases "bc_conn (the_conn (bo_net ?b) c) = None")
    case True
    then have "b = ?b" using r by (simp add: timer_fires_def Let_def)
    then show ?thesis using True by simp
  next
    case False
    then have "b = snd (peer_close (Wired c) ?b)" using r by (auto simp: timer_fires_def Let_def dest: arg_cong [where f = snd])
    then show ?thesis
      using closed_by_close [of c "bo_net ?b"] assms(3) by (simp add: peer_close_def on_net_def case_prod_unfold)
  qed
  ultimately show thesis by (intro that [of "s\<lparr>wh_node := b\<rparr>"]) simp_all
qed

text \<open>When a handler's wait is over the timer of its connection is armed again.\<close>

lemma wait_ends:
  assumes "whole_ok E s" and "sound_env E" and "Wired c \<in> fst ` set (wh_waiting s)" and "valid_time t"
  obtains s' where "node_exec E [HeartbeatEnds (Wired c) t] s = Some s'" and "whole_ok E s'"
    and "c < length (nw_conns (bo_net (wh_node s')))" and "bc_timer (the_conn (bo_net (wh_node s')) c) = Some True"
proof -
  obtain r s' where r: "node_act E (HeartbeatEnds (Wired c) t) s = (r, s')" by fastforce
  have en: "node_enabled E (HeartbeatEnds (Wired c) t) s" and ck: "clock_ok (HeartbeatEnds (Wired c) t)"
    using assms(3,4) by (simp_all add: clock_ok_def)
  note ok = node_act_ok [OF assms(2,1) en ck r]
  have pr: "peer_ok (Wired c) (wh_node s)" using assms(1,3) by (fastforce simp: whole_ok_def)
  obtain h where h: "map_of (wh_waiting s) (Wired c) = Some h"
    using assms(3) by (metis weak_map_of_SomeI imageE prod.collapse)
  obtain b1 where b1: "set_timer True (Wired c) (wh_node s) = (Inr (), b1)"
      "calm b1 (snd (heartbeat_answer E t (Wired c) h (wh_node s)))"
    by (rule heartbeat_answer_armed [OF pr])
  have c: "c < length (nw_conns (bo_net b1))" "bc_timer (the_conn (bo_net b1) c) = Some True"
    using b1(1) pr by (auto simp: set_timer_def peer_ok_def the_conn_upd split: option.splits)
  have "wh_node s' = snd (heartbeat_answer E t (Wired c) h (wh_node s))"
    using r h by (auto simp: heartbeat_ends_def on_node_def case_prod_unfold)
  then have "c < length (nw_conns (bo_net (wh_node s')))" "bc_timer (the_conn (bo_net (wh_node s')) c) = Some True"
    using b1(2) c by (auto simp: calm_def)
  moreover have "node_exec E [HeartbeatEnds (Wired c) t] s = Some s'"
    using en r ok by (auto simp: node_step_def split: sum.split stop.split)
  ultimately show thesis using ok that by blast
qed

text \<open>
  C4: In every state that a node can reach, each connection that is registered and open ends
  without any help from its peer: its heartbeat timer is armed and closes it when it fires, or the
  handler of a heartbeat waits, and when that wait is over the timer is armed again. So a peer that
  falls silent is always noticed, whatever happened before.
\<close>

theorem silent_peers_are_dropped:
  assumes "sound_env E" and "new_booster E pp bp ns = (Inr b, ns')"
    and "node_exec E es (started b) = Some s" and "\<forall>e \<in> set es. clock_ok e"
    and "(i, c) \<in> set (nw_outgoing (bo_net (wh_node s)))" and "bc_conn (the_conn (bo_net (wh_node s)) c) \<noteq> None"
    and "valid_time t"
  shows "\<exists>s'. (node_exec E [TimerFires c] s = Some s' \<or> node_exec E [HeartbeatEnds (Wired c) t, TimerFires c] s = Some s') \<and>
    bc_conn (the_conn (bo_net (wh_node s')) c) = None"
proof -
  note new = new_booster_ok [OF assms(2)]
  have ok: "whole_ok E s" by (rule reachable_ok [OF assms(1) new assms(3,4)])
  have "watching_nodes s" by (rule reachable_watched [OF assms(1) new new_booster_watched [OF assms(2)] assms(3,4)])
  then have c: "c < length (nw_conns (bo_net (wh_node s)))"
      "bc_timer (the_conn (bo_net (wh_node s)) c) = Some True \<or> Wired c \<in> fst ` set (wh_waiting s)"
    using assms(5,6) by (auto simp: watching_nodes_def watched_def)
  from c(2) show ?thesis
  proof
    assume "bc_timer (the_conn (bo_net (wh_node s)) c) = Some True"
    from timer_closes [OF ok assms(1) c(1) this] show ?thesis by blast
  next
    assume "Wired c \<in> fst ` set (wh_waiting s)"
    from wait_ends [OF ok assms(1) this assms(7)] obtain s1 where
      s1: "node_exec E [HeartbeatEnds (Wired c) t] s = Some s1" and "whole_ok E s1"
        "c < length (nw_conns (bo_net (wh_node s1)))" "bc_timer (the_conn (bo_net (wh_node s1)) c) = Some True" by blast
    from timer_closes [OF this(2) assms(1) this(3,4)] obtain s2 where
      s2: "node_exec E [TimerFires c] s1 = Some s2" "bc_conn (the_conn (bo_net (wh_node s2)) c) = None" by blast
    have "node_exec E [HeartbeatEnds (Wired c) t, TimerFires c] s = Some s2"
      using s1 s2(1) by (auto split: option.splits)
    then show ?thesis using s2(2) by blast
  qed
qed


text \<open>A peer of the node asks it to connect to 10.0.0.2, which introduces itself and is silent from then on.\<close>

definition friendly_request :: packet where
  "friendly_request = \<lparr>pkt_meta = default_meta, pkt_modules =
     [(''HE'', \<lparr>mod_id = ''HE'', mod_size = 2, mod_payload = [9, 6]\<rparr>),
      (''PA'', \<lparr>mod_id = ''PA'', mod_size = 1, mod_payload = [7]\<rparr>)]\<rparr>"

definition notify_packet8 :: packet where
  "notify_packet8 = \<lparr>pkt_meta = default_meta, pkt_modules =
     [(''HE'', \<lparr>mod_id = ''HE'', mod_size = 2, mod_payload = [9, 8]\<rparr>)]\<rparr>"

lemma whole_encodings:
  "encode_default whole_lib 0 None MessageNotify = Inr notify_packet8"
  "nw_heartbeat_ttl n = 8000000000 \<Longrightarrow> compose_heartbeat whole_lib 0 n None = Inr heartbeat_packet"
proof -
  have "encode_header whole_lib 0 (VMessage MessageNotify) = Inr [9, 8]" by code_simp
  then show "encode_default whole_lib 0 None MessageNotify = Inr notify_packet8" by (simp add: encode_defs notify_packet8_def)
  have "encode_header whole_lib 0 (VMessage MessageHeartbeat) = Inr [9, 4]" by code_simp
  moreover have "payload_encoders whole_lib MessageHeartbeat = Some (encode_heartbeat whole_lib)"
    by (simp add: payload_encoders_def message_ids)
  moreover have "encode_heartbeat whole_lib (VHeartbeat (next_heartbeat 8000000000 0 None)) = Inr [4]" by code_simp
  ultimately show "nw_heartbeat_ttl n = 8000000000 \<Longrightarrow> compose_heartbeat whole_lib 0 n None = Inr heartbeat_packet"
    by (simp add: compose_heartbeat_def encode_defs heartbeat_packet_def)
qed


text \<open>The node is wired to 10.0.0.2.\<close>

definition node_sent_heartbeat :: booster where
  "node_sent_heartbeat =
     (let b1 = snd (dial_booster whole_env ''10.0.0.2:23'' node_with_peer); b2 = snd (on_net (add_conn 0) b1);
          b3 = snd (peer_send whole_env notify_packet8 (Wired 0) b2) in
      snd (peer_send whole_env heartbeat_packet (Wired 0) b3))"

lemma node_wired:
  obtains b where "wire whole_env 0 ''10.0.0.2:23'' node_with_peer = (Inr 0, b)"
    and "list_ex (\<lambda>(i, c). c = 0) (nw_outgoing (bo_net b))" and "bc_conn (the_conn (bo_net b) 0) \<noteq> None"
proof -
  let ?b1 = "snd (dial_booster whole_env ''10.0.0.2:23'' node_with_peer)"
  let ?b2 = "snd (on_net (add_conn 0) ?b1)"
  let ?b3 = "snd (peer_send whole_env notify_packet8 (Wired 0) ?b2)"
  let ?b = "snd (go (HandleConn (Wired 0)) (snd (activate 0 (snd (start_timer 0 node_sent_heartbeat)))))"
  have "fst (dial_booster whole_env ''10.0.0.2:23'' node_with_peer) = Inr 0" "fst (on_net (add_conn 0) ?b1) = Inr ()"
      "fst (peer_send whole_env notify_packet8 (Wired 0) ?b2) = Inr ()"
      "fst (peer_send whole_env heartbeat_packet (Wired 0) ?b3) = Inr ()"
    by code_simp+
  moreover have "nw_heartbeat_ttl (bo_net ?b3) = 8000000000" by code_simp
  moreover have "env_lib whole_env = whole_lib" by (simp add: whole_env_def)
  ultimately have "wire whole_env 0 ''10.0.0.2:23'' node_with_peer = (Inr 0, ?b)"
    using whole_encodings(1) whole_encodings(2) [of "bo_net ?b3"]
    by (intro wire_intro [where ?b1.0 = ?b1 and ?b2.0 = ?b2 and ?b3.0 = ?b3])
       (simp_all add: prod_eq_iff node_sent_heartbeat_def Let_def)
  moreover have "list_ex (\<lambda>(i, c). c = 0) (nw_outgoing (bo_net ?b))" "bc_conn (the_conn (bo_net ?b) 0) \<noteq> None"
    by code_simp+
  ultimately show thesis by (rule that)
qed


text \<open>What is done for an accepted connection after \<open>Wire\<close> leaves the network alone.\<close>

interpretation unchanged: step_logic "\<lambda>b. True" "\<lambda>b b'. bo_net b' = bo_net b"
  by unfold_locales simp_all

lemma accepted_connect_net:
  assumes "wire E now t b = (Inr c, b')" and "header_id E p = Some MessageConnect"
    and "net_decode (env_lib E) p ModulePayload TConnect = Inr (VConnect t)"
  shows "bo_net (snd (on_failure (peer_close (Accepted k)) (handle_packet E now later (Accepted k) p) b)) = bo_net b'"
proof -
  let ?close = "peer_close (Accepted k)"
  let ?rest = "and_then (reading (\<lambda>b. Inr (bc_node (the_conn (bo_net b) c)))) (\<lambda>x. send_node E now (Accepted k) x)"
  have close: "bo_net (snd (?close b)) = bo_net b" for b by (simp add: peer_close_def)
  have send: "bo_net (snd (send_node E now (Accepted k) x b)) = bo_net b" for x b
    by (auto simp: send_node_def and_then_def reading_def peer_send_def split: sum.split prod.split)
  have "handle_connect E now (Accepted k) p b = deferring ?close ?rest b'"
    by (simp add: handle_connect_def deferring_def and_then_def payload_of_def reading_def assms(1,3))
  moreover have "holds (\<lambda>b. True) (\<lambda>b b'. bo_net b' = bo_net b) True (deferring ?close ?rest)"
    by (intro unchanged.deferring unchanged.and_then) (simp_all add: holds_def reading_def send close)
  ultimately have "bo_net (snd (handle_connect E now (Accepted k) p b)) = bo_net b'" by (simp add: holds_def)
  then have "bo_net (snd (handle_packet E now later (Accepted k) p b)) = bo_net b'"
    using assms(2) by (auto simp: header_id_def handle_packet_def and_then_def reading_def Let_def split: sum.splits gvalue.splits)
  then show ?thesis using on_failure_state [of "handle_packet E now later (Accepted k) p" b] close by (metis prod.collapse)
qed

lemma friendly_request_decoded:
  "header_id whole_env friendly_request = Some MessageConnect"
  "net_decode (env_lib whole_env) friendly_request ModulePayload TConnect = Inr (VConnect ''10.0.0.2:23'')"
  "net_decode (env_lib whole_env) hello_packet ModulePayload THello = Inr (VHello \<lparr>he_bport = ''23'', he_pport = ''1''\<rparr>)"
  by code_simp+

lemma friendly_request_harmless: "\<not> connect_crashes whole_env friendly_request"
proof -
  have "fst (conn_recv (open_socket default_net_config ((hello_bytes, EOF), ([], None)))) = Inr hello_packet" by code_simp
  then have "\<not> hello_crashes whole_env ''10.0.0.2:23''"
    using friendly_request_decoded(3) by (auto simp: hello_crashes_def whole_env_def split: prod.split sum.split)
  then show ?thesis using friendly_request_decoded by (simp add: connect_crashes_def)
qed

theorem silent_peers_are_dropped_witness:
  "\<exists>s s'. node_exec whole_env [Accepts 0 quiet_peer, Handles (Accepted 0) 0 0 friendly_request] (started new_node_1_23) = Some s \<and>
    bc_conn (the_conn (bo_net (wh_node s)) 0) \<noteq> None \<and>
    (node_exec whole_env [TimerFires 0] s = Some s' \<or> node_exec whole_env [HeartbeatEnds (Wired 0) 0, TimerFires 0] s = Some s') \<and>
    bc_conn (the_conn (bo_net (wh_node s')) 0) = None"
proof -
  obtain s where s: "node_exec whole_env [Accepts 0 quiet_peer] (started new_node_1_23) = Some s"
      "HandleConn (Accepted 0) \<in> set (bo_tasks (wh_node s))" "wh_waiting s = []" "wh_node s = node_with_peer"
    by (rule peer_accepted)
  obtain b where b: "wire whole_env 0 ''10.0.0.2:23'' node_with_peer = (Inr 0, b)"
      "list_ex (\<lambda>(i, c). c = 0) (nw_outgoing (bo_net b))" "bc_conn (the_conn (bo_net b) 0) \<noteq> None" by (rule node_wired)
  let ?e = "Handles (Accepted 0) 0 0 friendly_request"
  have "\<forall>e \<in> set [Accepts 0 quiet_peer]. clock_ok e" using valid_epoch by (simp add: clock_ok_def)
  then have ok: "whole_ok whole_env s" by (rule reachable_ok [OF whole_env_sound new_booster_ok [OF new_node_1_23_made] s(1)])
  obtain r s1 where r: "node_act whole_env ?e s = (r, s1)" by fastforce
  have en: "node_enabled whole_env ?e s" "clock_ok ?e" using s(2,3) valid_epoch by (simp_all add: handling_def clock_ok_def)
  have "bo_net (wh_node s1) = bo_net b"
    using accepted_connect_net [OF b(1) friendly_request_decoded(1,2), of 0 0] r s(4)
    by (auto simp: on_node_def case_prod_unfold)
  moreover have "r \<noteq> Inl Panic" using node_act_ok [OF whole_env_sound ok en r] friendly_request_harmless by auto
  then have "node_step whole_env ?e s = Some s1" using en(1) r by (auto simp: node_step_def split: sum.split stop.split)
  then have run: "node_exec whole_env [Accepts 0 quiet_peer, ?e] (started new_node_1_23) = Some s1"
    using s(1) by (auto split: option.splits)
  moreover have "\<forall>e \<in> set [Accepts 0 quiet_peer, ?e]. clock_ok e" using valid_epoch by (simp add: clock_ok_def)
  moreover obtain i where "(i, 0) \<in> set (nw_outgoing (bo_net b))" using b(2) by (auto simp: list_ex_iff)
  ultimately show ?thesis
    using silent_peers_are_dropped [OF whole_env_sound new_node_1_23_made run, of i 0 0] b(3) valid_epoch by auto
qed

end
