(* ===== verification/Runloop.thy ===== *)
theory Runloop
  imports Machines
begin

text \<open>
  Package \<open>booster\<close>, \<open>Run\<close>, \<open>run\<close> and \<open>Close\<close> of \<open>booster.go\<close>: the
  loop that starts the node's goroutines, stops and restarts them. \<open>Run\<close> and each
  \<open>go run()\<close> are separate goroutines that share the variable \<open>cancel\<close>; \<open>b.stop\<close>,
  \<open>b.restart\<close> and \<open>errc\<close> are unbuffered. A step is one atomic step of one goroutine, in any
  interleaving. The four goroutines inside \<open>run\<close> (the two listeners, \<open>UpdateRoot\<close>,
  \<open>TraceNodes\<close>) return once their context is cancelled; before that, any of them may fail. That
  \<open>wg.Add\<close> is called inside these goroutines, so that \<open>wg.Wait\<close> could return early, is not
  modelled.
\<close>

section \<open>State\<close>

datatype main_pc =
    AtSelect
  | AwaitRun bool   \<comment> \<open>at \<open><-errc\<close> after a stop (true) or a restart\<close>
  | RunReturned
  | MainCrashed

datatype run_pc =
    NotStarted      \<comment> \<open>\<open>go run()\<close> was executed\<close>
  | Working         \<comment> \<open>in \<open>b.run(ctx)\<close>, no error received\<close>
  | WantsStop       \<comment> \<open>in \<open>b.Close()\<close>, at \<open>b.stop <- struct{}{}\<close>\<close>
  | Draining        \<comment> \<open>at \<open>wg.Wait()\<close>\<close>
  | Ready           \<comment> \<open>at \<open>errc <- b.run(ctx)\<close>\<close>
  | Done

text \<open>
  The \<open>k\<close>-th \<open>go run()\<close> makes context \<open>k\<close>; \<open>rs_cancel\<close> is the variable
  \<open>cancel\<close> (nil at first), \<open>rs_cancelled\<close> the contexts that were cancelled;
  \<open>rs_stops\<close> and \<open>rs_restarts\<close> count the callers of \<open>Close\<close> and \<open>Restart\<close>
  that wait for somebody to receive.
\<close>

record run_state =
  rs_main :: main_pc
  rs_runs :: "run_pc list"
  rs_cancel :: "nat option"
  rs_cancelled :: "nat list"
  rs_stops :: nat
  rs_restarts :: nat

definition run_start :: run_state where
  "run_start = \<lparr>rs_main = AtSelect, rs_runs = [NotStarted], rs_cancel = None, rs_cancelled = [], rs_stops = 0, rs_restarts = 0\<rparr>"

section \<open>Steps\<close>

datatype run_event =
    CallClose | CallRestart
  | Begin nat | FirstError nat | Drained nat
  | TakeStop "nat option"   \<comment> \<open>from an outside caller, or from run \<open>k\<close>\<close>
  | TakeRestart
  | TakeResult nat

definition at_run :: "nat \<Rightarrow> run_pc \<Rightarrow> run_state \<Rightarrow> bool" where
  "at_run k p s \<longleftrightarrow> k < length (rs_runs s) \<and> rs_runs s ! k = p"

definition set_run :: "nat \<Rightarrow> run_pc \<Rightarrow> run_state \<Rightarrow> run_state" where
  "set_run k p s = s\<lparr>rs_runs := (rs_runs s)[k := p]\<rparr>"

text \<open>\<open>cancel()\<close>, which panics while the variable is nil; then \<open>Run\<close> goes on at \<open>pc\<close>.\<close>

definition cancel_then :: "main_pc \<Rightarrow> run_state \<Rightarrow> run_state" where
  "cancel_then pc s =
     (case rs_cancel s of
        None \<Rightarrow> s\<lparr>rs_main := MainCrashed\<rparr>
      | Some k \<Rightarrow> s\<lparr>rs_main := pc, rs_cancelled := k # rs_cancelled s\<rparr>)"

text \<open>The goroutine of \<open>go run()\<close> with \<open>b.run\<close> in it.\<close>

fun worker_step :: "run_event \<Rightarrow> run_state \<Rightarrow> run_state option" where
  "worker_step (Begin k) s = (if at_run k NotStarted s then Some (set_run k Working (s\<lparr>rs_cancel := Some k\<rparr>)) else None)"
| "worker_step (FirstError k) s =
     (if at_run k Working s then Some (set_run k (if k \<in> set (rs_cancelled s) then Draining else WantsStop) s) else None)"
| "worker_step (Drained k) s =
     (if at_run k Draining s \<and> k \<in> set (rs_cancelled s) then Some (set_run k Ready s) else None)"
| "worker_step e s = None"

text \<open>The select of \<open>Run\<close>, and its \<open><-errc\<close>.\<close>

fun main_step :: "run_event \<Rightarrow> run_state \<Rightarrow> run_state option" where
  "main_step (TakeStop None) s =
     (if rs_main s = AtSelect \<and> 0 < rs_stops s then Some (cancel_then (AwaitRun True) (s\<lparr>rs_stops := rs_stops s - 1\<rparr>)) else None)"
| "main_step (TakeStop (Some k)) s =
     (if rs_main s = AtSelect \<and> at_run k WantsStop s then Some (cancel_then (AwaitRun True) (set_run k Draining s)) else None)"
| "main_step TakeRestart s =
     (if rs_main s = AtSelect \<and> 0 < rs_restarts s
      then Some (cancel_then (AwaitRun False) (s\<lparr>rs_restarts := rs_restarts s - 1\<rparr>)) else None)"
| "main_step (TakeResult k) s =
     (if at_run k Ready s then
        (let s' = (set_run k Done s)\<lparr>rs_cancelled := k # rs_cancelled s\<rparr> in
         (case rs_main s of
            AtSelect \<Rightarrow> Some (cancel_then RunReturned s')
          | AwaitRun True \<Rightarrow> Some (s'\<lparr>rs_main := RunReturned\<rparr>)
          | AwaitRun False \<Rightarrow> Some (s'\<lparr>rs_main := AtSelect, rs_runs := rs_runs s' @ [NotStarted]\<rparr>)
          | _ \<Rightarrow> None))
      else None)"
| "main_step e s = None"

definition run_step :: "run_event \<Rightarrow> run_state \<Rightarrow> run_state option" where
  "run_step e s =
     (if rs_main s = MainCrashed then None
      else case e of
        CallClose \<Rightarrow> Some (s\<lparr>rs_stops := Suc (rs_stops s)\<rparr>)
      | CallRestart \<Rightarrow> Some (s\<lparr>rs_restarts := Suc (rs_restarts s)\<rparr>)
      | Begin k \<Rightarrow> worker_step e s
      | FirstError k \<Rightarrow> worker_step e s
      | Drained k \<Rightarrow> worker_step e s
      | _ \<Rightarrow> main_step e s)"

abbreviation run_exec :: "run_event list \<Rightarrow> run_state \<Rightarrow> run_state option" where
  "run_exec \<equiv> exec run_step"

abbreviation run_reach :: "run_state \<Rightarrow> bool" where
  "run_reach \<equiv> reach run_step run_start"

lemmas run_defs = run_step_def at_run_def set_run_def cancel_then_def

section \<open>Executions\<close>

text \<open>The runs are \<open>ds\<close>, all of which have ended, and a last one.\<close>

definition last_run :: "nat \<Rightarrow> run_pc \<Rightarrow> run_state \<Rightarrow> bool" where
  "last_run k p s \<longleftrightarrow> rs_runs s = replicate k Done @ [p]"

lemma last_run_at: "last_run k p s \<Longrightarrow> at_run j q s \<longleftrightarrow> (j = k \<and> q = p) \<or> (j < k \<and> q = Done)"
  by (auto simp: last_run_def at_run_def nth_append)

lemma last_run_set: "last_run k p s \<Longrightarrow> last_run k q (set_run k q s)"
  by (simp add: last_run_def set_run_def list_update_append)

section \<open>One run at a time\<close>

definition run_inv :: "run_state \<Rightarrow> bool" where
  "run_inv s \<longleftrightarrow>
     (case rs_main s of
        RunReturned \<Rightarrow> set (rs_runs s) = {Done}
      | MainCrashed \<Rightarrow> True
      | _ \<Rightarrow> (\<exists>k p. last_run k p s \<and> p \<noteq> Done))"

lemma set_run_simps [simp]:
  "rs_main (set_run k p s) = rs_main s" "rs_cancel (set_run k p s) = rs_cancel s"
  "rs_cancelled (set_run k p s) = rs_cancelled s" "rs_stops (set_run k p s) = rs_stops s"
  by (simp_all add: set_run_def)

lemma last_run_fields [simp]:
  "last_run k p (s\<lparr>rs_main := m\<rparr>) = last_run k p s" "last_run k p (s\<lparr>rs_cancelled := cs\<rparr>) = last_run k p s"
  "last_run k p (s\<lparr>rs_stops := n\<rparr>) = last_run k p s" "last_run k p (s\<lparr>rs_restarts := n\<rparr>) = last_run k p s"
  "last_run k p (s\<lparr>rs_cancel := c\<rparr>) = last_run k p s"
  by (simp_all add: last_run_def)

text \<open>What a step of a state with one run that has not ended can be.\<close>

lemma run_step_cases [consumes 2, case_names call worker stop restart result_stop result_restart result_select]:
  assumes "run_step e s = Some s'" and "last_run k p s"
  obtains "s' = s\<lparr>rs_stops := Suc (rs_stops s)\<rparr> \<or> s' = s\<lparr>rs_restarts := Suc (rs_restarts s)\<rparr>"
  | q c where "s' = set_run k q (s\<lparr>rs_cancel := c\<rparr>)" and "p \<noteq> Done \<Longrightarrow> q \<noteq> Done"
      and "(p, q, c) = (NotStarted, Working, Some k) \<or>
        c = rs_cancel s \<and> (p, q) = (Working, if k \<in> set (rs_cancelled s) then Draining else WantsStop) \<or>
        c = rs_cancel s \<and> (p, q) = (Draining, Ready) \<and> k \<in> set (rs_cancelled s)"
  | q n where "s' = cancel_then (AwaitRun True) ((set_run k q s)\<lparr>rs_stops := n\<rparr>)" and "rs_main s = AtSelect"
      and "q = p \<and> rs_stops s = Suc n \<or> (p, q) = (WantsStop, Draining) \<and> n = rs_stops s"
  | n where "s' = cancel_then (AwaitRun False) (s\<lparr>rs_restarts := n\<rparr>)" and "rs_main s = AtSelect"
  | cs where "s' = (set_run k Done s)\<lparr>rs_cancelled := cs, rs_main := RunReturned\<rparr>" and "rs_main s = AwaitRun True" and "p = Ready"
  | cs where "s' = (set_run k Done s)\<lparr>rs_cancelled := cs, rs_main := AtSelect,
      rs_runs := rs_runs (set_run k Done s) @ [NotStarted]\<rparr>" and "rs_main s = AwaitRun False" and "p = Ready"
  | cs where "s' = cancel_then RunReturned ((set_run k Done s)\<lparr>rs_cancelled := cs\<rparr>)" and "rs_main s = AtSelect" and "p = Ready"
proof -
  note at = last_run_at [OF assms(2)]
  have same: "set_run k p s = s"
    using assms(2) by (cases s) (simp add: last_run_def set_run_def list_update_append)
  have nc: "rs_main s \<noteq> MainCrashed" using assms(1) by (auto simp: run_step_def split: if_splits)
  show ?thesis
  proof (cases e)
    case (Begin j)
    then show ?thesis using assms(1) nc that(2) [of Working "Some k"] by (auto simp: run_step_def at split: if_splits)
  next
    case (FirstError j)
    have "s\<lparr>rs_cancel := rs_cancel s\<rparr> = s" by simp
    then show ?thesis using FirstError assms(1) nc that(2) [of "if k \<in> set (rs_cancelled s) then Draining else WantsStop" "rs_cancel s"]
      by (auto simp: run_step_def at split: if_splits)
  next
    case (Drained j)
    then show ?thesis using assms(1) nc that(2) [of Ready "rs_cancel s"] by (auto simp: run_step_def at split: if_splits)
  next
    case (TakeStop o')
    show ?thesis
    proof (cases o')
      case None
      then show ?thesis using TakeStop assms(1) nc that(3) [of "rs_stops s - 1" p] same
        by (auto simp: run_step_def split: if_splits)
    next
      case (Some j)
      have "(set_run k Draining s)\<lparr>rs_stops := rs_stops s\<rparr> = set_run k Draining s"
        by (cases s) (simp add: set_run_def)
      note same = that(3) [of "rs_stops s" Draining, unfolded this]
      show ?thesis using Some TakeStop assms(1) nc same
        by (auto simp: run_step_def at split: if_splits)
    qed
  next
    case TakeRestart
    then show ?thesis using assms(1) nc that(4) [of "rs_restarts s - 1"] by (auto simp: run_step_def split: if_splits)
  next
    case (TakeResult j)
    then show ?thesis using assms(1) nc that(5-7) [of "k # rs_cancelled s"]
      by (auto simp: run_step_def at Let_def split: if_splits main_pc.splits bool.splits)
  qed (use assms(1) nc that(1) in \<open>auto simp: run_step_def\<close>)
qed

lemma run_inv_busy:
  assumes "last_run k q t" and "q \<noteq> Done"
  shows "rs_main t \<noteq> RunReturned \<Longrightarrow> run_inv t" and "pc \<noteq> RunReturned \<Longrightarrow> run_inv (cancel_then pc t)"
  using assms by (auto simp: run_inv_def cancel_then_def split: main_pc.splits option.split)

lemma run_inv_over:
  assumes "last_run k Done t"
  shows "rs_main t \<in> {RunReturned, MainCrashed} \<Longrightarrow> run_inv t" and "run_inv (cancel_then RunReturned t)"
  using assms by (auto simp: run_inv_def last_run_def cancel_then_def split: option.split)

lemma run_inv_step:
  assumes "run_inv s" and "run_step e s = Some s'"
  shows "run_inv s'"
proof (cases "rs_main s = RunReturned")
  case True
  then have fin: "set (rs_runs s) = {Done}" using assms(1) by (simp add: run_inv_def)
  then have "\<not> at_run j q s" if "q \<noteq> Done" for j q
    using that nth_mem by (fastforce simp: at_run_def)
  then show ?thesis
    using assms(2) True fin by (cases e) (auto simp: run_step_def run_inv_def split: if_splits option.splits elim!: main_step.elims)
next
  case False
  have "rs_main s \<noteq> MainCrashed" using assms(2) by (auto simp: run_step_def split: if_splits)
  then obtain k p where last: "last_run k p s" "p \<noteq> Done"
    using assms(1) False by (auto simp: run_inv_def split: main_pc.splits)
  have set: "last_run k q (set_run k q s)" for q by (rule last_run_set [OF last(1)])
  from assms(2) last(1) show ?thesis
  proof (cases rule: run_step_cases)
    case call
    then show ?thesis using last False by (auto intro: run_inv_busy)
  next
    case (worker q c)
    have "last_run k p (s\<lparr>rs_cancel := c\<rparr>)" using last(1) by simp
    then have "last_run k q s'" unfolding worker(1) by (rule last_run_set)
    then show ?thesis using worker last(2) False by (auto intro: run_inv_busy)
  next
    case (stop q n)
    have "q \<noteq> Done" using stop(3) last(2) by auto
    then show ?thesis unfolding stop(1) by (intro run_inv_busy(2) [of k q]) (use set in simp_all)
  next
    case (restart n)
    then show ?thesis unfolding restart(1) by (intro run_inv_busy(2) [of k p]) (use last in simp_all)
  next
    case (result_stop cs)
    then show ?thesis using set [of Done] by (intro run_inv_over(1) [of k]) simp_all
  next
    case (result_restart cs)
    have "last_run (Suc k) NotStarted s'"
      using set [of Done] result_restart(1) by (simp add: last_run_def replicate_append_same)
    then show ?thesis using result_restart(1) by (auto simp: run_inv_def)
  next
    case (result_select cs)
    show ?thesis unfolding result_select(1) by (rule run_inv_over(2)) (use set in simp)
  qed
qed

interpretation run: invariant run_step run_inv run_start
proof
  have "last_run 0 NotStarted run_start" by (simp add: last_run_def run_start_def)
  then show "run_inv run_start" by (auto simp: run_inv_def run_start_def)
qed (rule run_inv_step)

section \<open>Runs that cannot be stopped any more\<close>

text \<open>
  \<open>Run\<close> waits for the result of a run whose context nobody has cancelled, and which can get no
  further than \<open>b.Close()\<close>, since \<open>Run\<close> no longer receives from \<open>b.stop\<close>.
\<close>

definition stuck :: "nat \<Rightarrow> bool \<Rightarrow> run_state \<Rightarrow> bool" where
  "stuck k stopping s \<longleftrightarrow> rs_main s = AwaitRun stopping \<and> k \<notin> set (rs_cancelled s) \<and>
     (\<exists>p \<in> {NotStarted, Working, WantsStop}. last_run k p s)"

lemma stuck_step:
  assumes "stuck k stopping s" and "run_step e s = Some s'"
  shows "stuck k stopping s'"
proof -
  obtain p where p: "last_run k p s" "p \<in> {NotStarted, Working, WantsStop}" "rs_main s = AwaitRun stopping" "k \<notin> set (rs_cancelled s)"
    using assms(1) by (auto simp: stuck_def)
  from assms(2) p(1) show ?thesis
  proof (cases rule: run_step_cases)
    case call
    then show ?thesis using p by (auto simp: stuck_def)
  next
    case (worker q c)
    have "last_run k p (s\<lparr>rs_cancel := c\<rparr>)" using p(1) by simp
    then have "last_run k q s'" unfolding worker(1) by (rule last_run_set)
    then show ?thesis using worker p(2-4) by (auto simp: stuck_def)
  qed (use p in simp_all)
qed

interpretation stuck: preserved run_step "stuck k stopping" for k stopping
  by unfold_locales (rule stuck_step)

lemma stuck_for_ever:
  assumes "stuck k stopping s" and "run_exec es s = Some s'"
  shows "rs_main s' = AwaitRun stopping"
  using stuck.after [OF assms(2,1)] by (simp add: stuck_def)

section \<open>Runs that end\<close>

text \<open>
  \<open>Run\<close> has received a stop and the context of the last run is cancelled: how many steps that run
  still has to take.
\<close>

definition stopping :: "nat \<Rightarrow> nat \<Rightarrow> run_state \<Rightarrow> bool" where
  "stopping k n s \<longleftrightarrow>
     n = 0 \<and> rs_main s = RunReturned \<and> set (rs_runs s) = {Done} \<or>
     rs_main s = AwaitRun True \<and> k \<in> set (rs_cancelled s) \<and>
       (\<exists>p. last_run k p s \<and> (n, p) \<in> {(3, Working), (2, Draining), (1, Ready)})"

lemma returned_step:
  assumes "rs_main s = RunReturned" and "set (rs_runs s) = {Done}" and "run_step e s = Some s'"
  shows "e \<in> {CallClose, CallRestart} \<and> rs_main s' = RunReturned \<and> rs_runs s' = rs_runs s"
proof -
  have "\<not> at_run j q s" if "q \<noteq> Done" for j q
    using that assms(2) nth_mem by (fastforce simp: at_run_def)
  then show ?thesis
    using assms(1,3) by (cases e) (auto simp: run_step_def split: if_splits option.splits elim!: main_step.elims)
qed

lemma stopping_step:
  assumes "stopping k n s" and "run_step e s = Some s'"
  shows "stopping k (if e \<in> {CallClose, CallRestart} then n else n - 1) s' \<and> (e \<notin> {CallClose, CallRestart} \<longrightarrow> 0 < n)"
proof (cases "rs_main s = RunReturned")
  case True
  then show ?thesis using assms returned_step [OF True _ assms(2)] by (auto simp: stopping_def)
next
  case False
  then obtain p where p: "rs_main s = AwaitRun True" "k \<in> set (rs_cancelled s)" "last_run k p s"
      "(n, p) \<in> {(3, Working), (2, Draining), (1, Ready)}"
    using assms(1) by (auto simp: stopping_def)
  note at = last_run_at [OF p(3)]
  note set = last_run_set [OF p(3)]
  have nc: "rs_main s \<noteq> MainCrashed" using p(1) by simp
  show ?thesis
  proof (cases e)
    case (Begin j)
    then show ?thesis using assms(2) nc p(4) by (auto simp: run_step_def at split: if_splits)
  next
    case (FirstError j)
    then have "j = k" "p = Working" "s' = set_run k Draining s"
      using assms(2) nc p(2) by (auto simp: run_step_def at split: if_splits)
    then show ?thesis using FirstError p(1,2,4) set by (auto simp: stopping_def)
  next
    case (Drained j)
    then have "j = k" "p = Draining" "s' = set_run k Ready s"
      using assms(2) nc by (auto simp: run_step_def at split: if_splits)
    then show ?thesis using Drained p(1,2,4) set by (auto simp: stopping_def)
  next
    case (TakeStop o')
    then show ?thesis using assms(2) p(1) by (cases o') (auto simp: run_step_def split: if_splits)
  next
    case TakeRestart
    then show ?thesis using assms(2) p(1) by (auto simp: run_step_def split: if_splits)
  next
    case (TakeResult j)
    then have "j = k" "p = Ready" "s' = (set_run k Done s)\<lparr>rs_cancelled := k # rs_cancelled s, rs_main := RunReturned\<rparr>"
      using assms(2) p(1) by (auto simp: run_step_def at Let_def split: if_splits)
    then show ?thesis using TakeResult p(4) set [of Done] by (auto simp: stopping_def last_run_def)
  next
    case CallClose
    then have "s' = s\<lparr>rs_stops := Suc (rs_stops s)\<rparr>" using assms(2) nc by (simp add: run_step_def)
    then show ?thesis using CallClose assms(1) by (simp add: stopping_def)
  next
    case CallRestart
    then have "s' = s\<lparr>rs_restarts := Suc (rs_restarts s)\<rparr>" using assms(2) nc by (simp add: run_step_def)
    then show ?thesis using CallRestart assms(1) by (simp add: stopping_def)
  qed
qed

lemma stopping_progress:
  assumes "stopping k n s"
  shows "rs_main s = RunReturned \<or> (\<exists>e \<in> {FirstError k, Drained k, TakeResult k}. run_step e s \<noteq> None)"
proof (cases "rs_main s = RunReturned")
  case False
  then obtain p where p: "rs_main s = AwaitRun True" "k \<in> set (rs_cancelled s)" "last_run k p s" "p \<in> {Working, Draining, Ready}"
    using assms by (auto simp: stopping_def)
  then have "run_step (case p of Working \<Rightarrow> FirstError k | Draining \<Rightarrow> Drained k | _ \<Rightarrow> TakeResult k) s \<noteq> None"
    by (auto simp: run_step_def last_run_at [OF p(3)] Let_def)
  then show ?thesis using p(4) by auto
qed simp

definition stop_rank :: "run_state \<Rightarrow> nat" where
  "stop_rank s = (if rs_main s = RunReturned then 0
     else case last (rs_runs s) of Working \<Rightarrow> 3 | Draining \<Rightarrow> 2 | _ \<Rightarrow> 1)"

lemma stopping_rank: "stopping k n s \<Longrightarrow> stop_rank s = n"
  by (auto simp: stopping_def stop_rank_def last_run_def)

interpretation stopping: ending run_step "\<lambda>s. \<exists>n. stopping k n s" stop_rank
    "\<lambda>e. e \<noteq> CallClose \<and> e \<noteq> CallRestart" "\<lambda>s. rs_main s = RunReturned" for k
proof
  fix s s' :: run_state and e
  assume s: "\<exists>n. stopping k n s"
  then obtain n where n: "stopping k n s" ..
  show "\<exists>n. stopping k n s'" "stop_rank s' + of_bool (e \<noteq> CallClose \<and> e \<noteq> CallRestart) \<le> stop_rank s"
    if "run_step e s = Some s'"
    using stopping_step [OF n that] stopping_rank [of k _ s'] stopping_rank [OF n]
    by (blast, fastforce split: if_splits)
  show "\<exists>e s'. (e \<noteq> CallClose \<and> e \<noteq> CallRestart) \<and> run_step e s = Some s'" if "rs_main s \<noteq> RunReturned"
    using stopping_progress [OF n] that by blast
qed

section \<open>Properties\<close>

text \<open>
  C23: A node never runs twice at once: in every reachable state that has not crashed, all runs but the
  last have ended, the last has not ended while \<open>Run\<close> is looping, and when \<open>Run\<close> has returned
  all have ended.
\<close>

theorem one_run_at_a_time:
  assumes "run_reach s" and "rs_main s \<noteq> MainCrashed"
  shows "rs_runs s \<noteq> [] \<and> (\<forall>p \<in> set (butlast (rs_runs s)). p = Done) \<and>
    (rs_main s = RunReturned \<longleftrightarrow> last (rs_runs s) = Done)"
proof (cases "rs_main s = RunReturned")
  case True
  then have fin: "set (rs_runs s) = {Done}" using run.reachable [OF assms(1)] by (simp add: run_inv_def)
  then have ne: "rs_runs s \<noteq> []" by force
  have "last (rs_runs s) \<in> set (rs_runs s)" using ne by (rule last_in_set)
  moreover have "set (butlast (rs_runs s)) \<subseteq> set (rs_runs s)" by (blast dest: in_set_butlastD)
  ultimately show ?thesis using True ne unfolding fin by blast
next
  case False
  then obtain k p where "last_run k p s" "p \<noteq> Done"
    using run.reachable [OF assms(1)] assms(2) by (auto simp: run_inv_def split: main_pc.splits)
  then show ?thesis using False by (simp add: last_run_def)
qed

theorem one_run_at_a_time_witness:
  "\<exists>s. run_exec [Begin 0, CallRestart, TakeRestart, FirstError 0, Drained 0, TakeResult 0] run_start = Some s \<and>
    butlast (rs_runs s) = [Done] \<and> last (rs_runs s) = NotStarted"
proof -
  let ?es = "[Begin 0, CallRestart, TakeRestart, FirstError 0, Drained 0, TakeResult 0]"
  let ?s = "\<lparr>rs_main = AtSelect, rs_runs = [Done, NotStarted], rs_cancel = Some 0, rs_cancelled = [0, 0],
    rs_stops = 0, rs_restarts = 0\<rparr>"
  have s: "run_exec ?es run_start = Some ?s" by (simp add: run_defs run_start_def)
  from one_run_at_a_time [OF exec_reach [OF s]] s show ?thesis by simp
qed



text \<open>
  C36: A failure and a stop at the same time hang the node: if one of the goroutines of a run fails just
  before \<open>Run\<close> receives a stop from outside, the run waits in \<open>b.Close()\<close> for \<open>Run\<close> to
  receive from \<open>b.stop\<close>, and \<open>Run\<close> waits for the run's result, whatever happens afterwards.
\<close>

theorem failure_and_stop_hang:
  assumes "last_run k Working s" and "rs_main s = AtSelect" and "k \<notin> set (rs_cancelled s)" and "rs_cancel s = Some k"
    and "0 < rs_stops s"
  shows "\<exists>s1. run_exec [FirstError k, TakeStop None] s = Some s1 \<and>
    (\<forall>es s'. run_exec es s1 = Some s' \<longrightarrow> rs_main s' = AwaitRun True \<and> at_run k WantsStop s')"
proof -
  let ?s0 = "set_run k WantsStop s"
  let ?s1 = "?s0\<lparr>rs_stops := rs_stops s - 1, rs_main := AwaitRun True, rs_cancelled := k # rs_cancelled s\<rparr>"
  have last: "last_run k WantsStop ?s0" by (rule last_run_set [OF assms(1)])
  have exec: "run_exec [FirstError k, TakeStop None] s = Some ?s1"
    using assms by (simp add: run_step_def last_run_at [OF assms(1)] cancel_then_def)
  define I where "I t \<longleftrightarrow> rs_main t = AwaitRun True \<and> last_run k WantsStop t" for t
  have inv: "I t'" if I: "I t" and step: "run_step e t = Some t'" for e t t'
  proof -
    have t: "rs_main t = AwaitRun True" "last_run k WantsStop t" using I by (simp_all add: I_def)
    from step t(2) show ?thesis
      by (cases rule: run_step_cases) (use t in \<open>auto simp: I_def\<close>)
  qed
  have "I ?s1" using last by (simp add: I_def)
  then have "rs_main s' = AwaitRun True \<and> at_run k WantsStop s'" if "run_exec es ?s1 = Some s'" for es s'
  proof -
    have "preserved run_step I" by unfold_locales (rule inv)
    from preserved.after [OF this that \<open>I ?s1\<close>] have "I s'" .
    then show ?thesis using last_run_at [of k WantsStop s' k WantsStop] by (simp add: I_def)
  qed
  then show ?thesis using exec by blast
qed

theorem failure_and_stop_hang_witness:
  "\<exists>s s'. run_exec [Begin 0, CallClose, FirstError 0, TakeStop None] run_start = Some s \<and>
    run_exec [CallClose, CallRestart] s = Some s' \<and> rs_main s' = AwaitRun True \<and> at_run 0 WantsStop s'"
proof -
  let ?s = "\<lparr>rs_main = AtSelect, rs_runs = [Working], rs_cancel = Some 0, rs_cancelled = [], rs_stops = 1, rs_restarts = 0\<rparr>"
  let ?s1 = "\<lparr>rs_main = AwaitRun True, rs_runs = [WantsStop], rs_cancel = Some 0, rs_cancelled = [0], rs_stops = 0, rs_restarts = 0\<rparr>"
  have exec: "run_exec [FirstError 0, TakeStop None] ?s = Some ?s1"
    and start: "run_exec [Begin 0, CallClose, FirstError 0, TakeStop None] run_start = Some ?s1" by (simp_all add: run_defs run_start_def)
  have "last_run 0 Working ?s" by (simp add: last_run_def)
  then obtain s1 where s1: "run_exec [FirstError 0, TakeStop None] ?s = Some s1"
      "\<forall>es s'. run_exec es s1 = Some s' \<longrightarrow> rs_main s' = AwaitRun True \<and> at_run 0 WantsStop s'"
    using failure_and_stop_hang [of 0 ?s] by auto
  have "s1 = ?s1" using s1(1) exec by (simp only: option.inject)
  moreover have "run_exec [CallClose, CallRestart] ?s1 = Some (?s1\<lparr>rs_stops := 1, rs_restarts := 1\<rparr>)"
    by (simp add: run_step_def)
  ultimately show ?thesis using s1(2) start by blast
qed

text \<open>
  A stop that comes too early: if \<open>Run\<close> receives it before the goroutine of the newest
  \<open>go run()\<close> has made its context, it calls the old \<open>cancel\<close>. At the first start that is nil
  and the process crashes; after a restart it is that of the run before, and \<open>Run\<close> waits for ever for
  a run that nobody stops.
\<close>

theorem early_stop:
  assumes "last_run k NotStarted s" and "rs_main s = AtSelect" and "rs_cancel s \<noteq> Some k" and "k \<notin> set (rs_cancelled s)"
    and "0 < rs_stops s"
  shows "\<exists>s1. run_step (TakeStop None) s = Some s1 \<and>
    (\<forall>es s'. run_exec es s1 = Some s' \<longrightarrow>
      rs_main s' = (if rs_cancel s = None then MainCrashed else AwaitRun True))"
proof -
  have nc: "rs_main s \<noteq> MainCrashed" using assms(2) by simp
  show ?thesis
  proof (cases "rs_cancel s")
    case None
    let ?s1 = "s\<lparr>rs_stops := rs_stops s - 1, rs_main := MainCrashed\<rparr>"
    have "run_step (TakeStop None) s = Some ?s1"
      using assms(2,5) None by (simp add: run_step_def cancel_then_def)
    moreover have "s' = ?s1" if "run_exec es ?s1 = Some s'" for es s'
      using that by (cases es) (auto simp: run_step_def)
    ultimately show ?thesis using None by fastforce
  next
    case (Some j)
    let ?s1 = "s\<lparr>rs_stops := rs_stops s - 1, rs_main := AwaitRun True, rs_cancelled := j # rs_cancelled s\<rparr>"
    have step: "run_step (TakeStop None) s = Some ?s1"
      using assms(2,5) Some by (simp add: run_step_def cancel_then_def)
    have "stuck k True ?s1"
      using assms(1,3,4) Some by (auto simp: stuck_def)
    then show ?thesis using step stuck_for_ever Some by auto
  qed
qed

theorem early_stop_witness:
  "run_exec [CallClose, TakeStop None] run_start = Some (run_start\<lparr>rs_main := MainCrashed\<rparr>)"
proof -
  let ?s = "run_start\<lparr>rs_stops := 1\<rparr>"
  have "last_run 0 NotStarted ?s" "rs_main ?s = AtSelect" "rs_cancel ?s \<noteq> Some 0" "0 \<notin> set (rs_cancelled ?s)" "0 < rs_stops ?s"
    by (simp_all add: run_start_def last_run_def)
  from early_stop [OF this] show ?thesis
    by (auto simp: run_defs run_start_def)
qed

end
