(* ===== verification/Listener.thy ===== *)
theory Listener
  imports Machines
begin

text \<open>
  The serving loops: \<open>ListenAndServe\<close> of package \<open>booster\<close> (\<open>booster.go\<close>) and
  of package \<open>socks5\<close> (\<open>socks5.go\<close>), which differ in that the first sends a hello to
  every connection before it starts the goroutine that handles it, and \<open>Run\<close> and
  \<open>Close\<close> of the socks5 server around the second. The accepting goroutine and the function
  that started it meet at the unbuffered channel \<open>errc\<close>; a step is one atomic step of one of
  them, in any interleaving.
\<close>

section \<open>State\<close>

datatype accept_pc =
    AtAccept        \<comment> \<open>in \<open>ln.Accept()\<close>\<close>
  | AtHello         \<comment> \<open>in \<open>b.SendHello(ctx, conn)\<close>\<close>
  | AtErrc          \<comment> \<open>at \<open>errc <- err\<close>\<close>
  | AcceptReturned

datatype serve_pc =
    ServeSelect         \<comment> \<open>in the select\<close>
  | ServeAwait          \<comment> \<open>after the context's end, at \<open><-errc\<close>\<close>
  | ServeReturned bool  \<comment> \<open>with the context's error, or with that of the accepting goroutine\<close>

record listener =
  ls_accept :: accept_pc
  ls_serve :: serve_pc
  ls_open :: bool       \<comment> \<open>\<open>ln\<close> is not closed\<close>
  ls_cancelled :: bool  \<comment> \<open>the context is cancelled\<close>
  ls_handled :: nat     \<comment> \<open>goroutines started for connections\<close>

definition listening :: listener where
  "listening = \<lparr>ls_accept = AtAccept, ls_serve = ServeSelect, ls_open = True, ls_cancelled = False, ls_handled = 0\<rparr>"

section \<open>Steps\<close>

datatype listen_event =
    Cancelled      \<comment> \<open>somebody cancels the context\<close>
  | Incoming | AcceptFails
  | HelloSent | HelloFails
  | CtxDone | ErrcTaken

text \<open>
  The accepting goroutine; \<open>hello\<close> says whether there is a hello to send. \<open>Accept\<close> may
  fail at any time, and returns no connection once the listener is closed.
\<close>

fun accept_step :: "bool \<Rightarrow> listen_event \<Rightarrow> listener \<Rightarrow> listener option" where
  "accept_step hello Incoming s =
     (if ls_accept s = AtAccept \<and> ls_open s then
        Some (if hello then s\<lparr>ls_accept := AtHello\<rparr> else s\<lparr>ls_handled := Suc (ls_handled s)\<rparr>)
      else None)"
| "accept_step hello AcceptFails s = (if ls_accept s = AtAccept then Some (s\<lparr>ls_accept := AtErrc\<rparr>) else None)"
| "accept_step hello HelloSent s =
     (if ls_accept s = AtHello then Some (s\<lparr>ls_accept := AtAccept, ls_handled := Suc (ls_handled s)\<rparr>) else None)"
| "accept_step hello HelloFails s = (if ls_accept s = AtHello then Some (s\<lparr>ls_accept := AtErrc\<rparr>) else None)"
| "accept_step hello e s = None"

text \<open>The select and what follows it; the deferred \<open>ln.Close()\<close> runs on every return.\<close>

fun listen_step :: "bool \<Rightarrow> listen_event \<Rightarrow> listener \<Rightarrow> listener option" where
  "listen_step hello Cancelled s = Some (s\<lparr>ls_cancelled := True\<rparr>)"
| "listen_step hello CtxDone s =
     (if ls_serve s = ServeSelect \<and> ls_cancelled s then Some (s\<lparr>ls_serve := ServeAwait, ls_open := False\<rparr>) else None)"
| "listen_step hello ErrcTaken s =
     (if ls_accept s = AtErrc then
        (case ls_serve s of
           ServeSelect \<Rightarrow> Some (s\<lparr>ls_accept := AcceptReturned, ls_serve := ServeReturned False, ls_open := False\<rparr>)
         | ServeAwait \<Rightarrow> Some (s\<lparr>ls_accept := AcceptReturned, ls_serve := ServeReturned True, ls_open := False\<rparr>)
         | ServeReturned _ \<Rightarrow> None)
      else None)"
| "listen_step hello e s = accept_step hello e s"

text \<open>The two servers.\<close>

definition booster_listen_step :: "listen_event \<Rightarrow> listener \<Rightarrow> listener option" where
  "booster_listen_step = listen_step True"

definition socks_listen_step :: "listen_event \<Rightarrow> listener \<Rightarrow> listener option" where
  "socks_listen_step = listen_step False"

abbreviation listen_exec :: "bool \<Rightarrow> listen_event list \<Rightarrow> listener \<Rightarrow> listener option" where
  "listen_exec hello \<equiv> exec (listen_step hello)"

abbreviation listen_reach :: "bool \<Rightarrow> listener \<Rightarrow> bool" where
  "listen_reach hello \<equiv> reach (listen_step hello) listening"

section \<open>The two goroutines end together\<close>

definition listener_inv :: "bool \<Rightarrow> listener \<Rightarrow> bool" where
  "listener_inv hello s \<longleftrightarrow>
     (ls_accept s = AcceptReturned \<longleftrightarrow> (\<exists>c. ls_serve s = ServeReturned c)) \<and>
     (ls_open s \<longleftrightarrow> ls_serve s = ServeSelect) \<and>
     (ls_serve s = ServeAwait \<or> ls_serve s = ServeReturned True \<longrightarrow> ls_cancelled s) \<and>
     (ls_accept s = AtHello \<longrightarrow> hello)"

lemma listener_inv_step:
  assumes "listener_inv hello s" and "listen_step hello e s = Some s'"
  shows "listener_inv hello s'"
  using assms by (cases e) (auto simp: listener_inv_def split: if_splits serve_pc.splits)

interpretation listener: invariant "listen_step hello" "listener_inv hello" listening for hello
  by unfold_locales (rule listener_inv_step, simp_all add: listener_inv_def listening_def)

text \<open>The steps that are left once the context's end was noticed.\<close>

definition listen_rank :: "listener \<Rightarrow> nat" where
  "listen_rank s =
     (case ls_accept s of AtHello \<Rightarrow> 3 | AtAccept \<Rightarrow> 2 | AtErrc \<Rightarrow> 1 | AcceptReturned \<Rightarrow> 0)"

definition winding_up :: "listener \<Rightarrow> bool" where
  "winding_up s \<longleftrightarrow> ls_serve s = ServeAwait \<and> ls_accept s \<noteq> AcceptReturned \<and> \<not> ls_open s \<or>
     ls_serve s = ServeReturned True \<and> ls_accept s = AcceptReturned"

lemma winding_up_step:
  assumes "winding_up s" and "listen_step hello e s = Some s'"
  shows "winding_up s' \<and> (if e = Cancelled then listen_rank s' = listen_rank s else listen_rank s' < listen_rank s)"
  using assms by (cases e) (auto simp: winding_up_def listen_rank_def split: if_splits serve_pc.splits)

lemma winding_up_progress:
  assumes "winding_up s"
  shows "ls_serve s = ServeReturned True \<or> (\<exists>e \<in> {HelloSent, AcceptFails, ErrcTaken}. listen_step hello e s \<noteq> None)"
  using assms by (cases "ls_accept s") (auto simp: winding_up_def)

interpretation winding: ending "listen_step hello" winding_up listen_rank "\<lambda>e. e \<noteq> Cancelled"
    "\<lambda>s. ls_serve s = ServeReturned True" for hello
proof
  fix s s' :: listener and e
  show "winding_up s'" "listen_rank s' + of_bool (e \<noteq> Cancelled) \<le> listen_rank s"
    if "winding_up s" "listen_step hello e s = Some s'"
    using winding_up_step [OF that] by (auto split: if_splits)
  show "\<exists>e s'. e \<noteq> Cancelled \<and> listen_step hello e s = Some s'" if "winding_up s" "ls_serve s \<noteq> ServeReturned True"
    using winding_up_progress [OF that(1), of hello] that(2) by blast
qed

section \<open>Properties\<close>

text \<open>
  Nothing is left behind: in every reachable state \<open>ListenAndServe\<close> has returned exactly when
  its accepting goroutine has, and then the listener is closed.
\<close>

theorem listener_no_leak:
  assumes "listen_reach hello s"
  shows "((\<exists>c. ls_serve s = ServeReturned c) \<longleftrightarrow> ls_accept s = AcceptReturned) \<and>
    (ls_accept s = AcceptReturned \<longrightarrow> \<not> ls_open s)"
  using listener.reachable [OF assms] by (auto simp: listener_inv_def)

theorem listener_no_leak_witness:
  "\<exists>s. listen_exec True [Incoming, HelloFails, ErrcTaken] listening = Some s \<and>
    ls_serve s = ServeReturned False \<and> \<not> ls_open s"
proof -
  have exec: "listen_exec True [Incoming, HelloFails, ErrcTaken] listening =
      Some \<lparr>ls_accept = AcceptReturned, ls_serve = ServeReturned False, ls_open = False, ls_cancelled = False, ls_handled = 0\<rparr>"
    by (simp add: listening_def)
  from listener_no_leak [OF exec_reach [OF exec]] exec show ?thesis by simp
qed

text \<open>
  C25: \<open>ListenAndServe\<close> ends when its context does: once it has noticed the end of the context, at
  most three steps are left, however they are scheduled; as long as it has not returned one of them is
  possible, and it returns the error of the context.
\<close>

theorem listener_terminates:
  assumes "listen_reach hello s" and "ls_serve s = ServeAwait" and "listen_exec hello es s = Some s'"
  shows "length (filter (\<lambda>e. e \<noteq> Cancelled) es) \<le> 3 \<and>
    (ls_serve s' = ServeReturned True \<or>
     ls_serve s' = ServeAwait \<and> (\<exists>e \<in> {HelloSent, AcceptFails, ErrcTaken}. listen_step hello e s' \<noteq> None)) \<and>
    (\<exists>fs t. listen_exec hello fs s' = Some t \<and> ls_serve t = ServeReturned True)"
proof -
  have "winding_up s" using listener.reachable [OF assms(1)] assms(2) by (auto simp: listener_inv_def winding_up_def)
  from winding.after [OF assms(3) this] winding.bounded [OF assms(3) this]
  have up: "winding_up s'" "length (filter (\<lambda>e. e \<noteq> Cancelled) es) \<le> listen_rank s" by auto
  have "listen_rank s \<le> 3" by (simp add: listen_rank_def split: accept_pc.split)
  moreover have "ls_serve s' = ServeReturned True \<or> ls_serve s' = ServeAwait" using up(1) by (auto simp: winding_up_def)
  ultimately show ?thesis using up winding_up_progress [OF up(1), of hello] winding.can_end [OF up(1), of hello] by auto
qed

theorem listener_terminates_witness:
  "\<exists>s s'. listen_exec True [Incoming, Cancelled, CtxDone] listening = Some s \<and>
    listen_exec True [HelloSent, AcceptFails, ErrcTaken] s = Some s' \<and> ls_serve s' = ServeReturned True"
proof -
  let ?s = "\<lparr>ls_accept = AtHello, ls_serve = ServeAwait, ls_open = False, ls_cancelled = True, ls_handled = 0\<rparr>"
  let ?s' = "\<lparr>ls_accept = AcceptReturned, ls_serve = ServeReturned True, ls_open = False, ls_cancelled = True, ls_handled = 1\<rparr>"
  have exec: "listen_exec True [Incoming, Cancelled, CtxDone] listening = Some ?s" by (simp add: listening_def)
  have exec': "listen_exec True [HelloSent, AcceptFails, ErrcTaken] ?s = Some ?s'" by simp
  have "ls_serve ?s = ServeAwait" by simp
  from listener_terminates [OF exec_reach [OF exec] this exec'] exec exec' show ?thesis by auto
qed

section \<open>The socks5 server\<close>

text \<open>
  \<open>Run\<close> starts \<open>ListenAndServe\<close> in a goroutine and waits for its result or for somebody
  in \<open>Close\<close>, which sends on the unbuffered \<open>s.stop\<close>. \<open>sr_tickers\<close>: the two
  tickers that \<open>New\<close> started for the bandwidth are running; \<open>sr_closers\<close> callers wait in
  \<open>Close\<close>.
\<close>

datatype serve_run_pc =
    RunSelects
  | RunAwaits              \<comment> \<open>after a stop, at \<open><-errc\<close>\<close>
  | RunReturns bool        \<comment> \<open>after a stop?\<close>

record socks_server =
  sr_listener :: listener
  sr_run :: serve_run_pc
  sr_tickers :: bool
  sr_closers :: nat

definition socks_started :: socks_server where
  "socks_started = \<lparr>sr_listener = listening, sr_run = RunSelects, sr_tickers = True, sr_closers = 0\<rparr>"

datatype socks_event = Listens listen_event | CallsClose | TakesStop | TakesResult

text \<open>The deferred \<open>cancel()\<close> runs on every return.\<close>

fun socks_step :: "socks_event \<Rightarrow> socks_server \<Rightarrow> socks_server option" where
  "socks_step (Listens e) s =
     (if e = Cancelled then None
      else map_option (\<lambda>l. s\<lparr>sr_listener := l\<rparr>) (socks_listen_step e (sr_listener s)))"
| "socks_step CallsClose s = Some (s\<lparr>sr_closers := Suc (sr_closers s)\<rparr>)"
| "socks_step TakesStop s =
     (if sr_run s = RunSelects \<and> 0 < sr_closers s then
        Some (s\<lparr>sr_run := RunAwaits, sr_tickers := False, sr_closers := sr_closers s - 1,
          sr_listener := (sr_listener s)\<lparr>ls_cancelled := True\<rparr>\<rparr>)
      else None)"
| "socks_step TakesResult s =
     (case (ls_serve (sr_listener s), sr_run s) of
        (ServeReturned _, RunSelects) \<Rightarrow>
          Some (s\<lparr>sr_run := RunReturns False, sr_listener := (sr_listener s)\<lparr>ls_cancelled := True\<rparr>\<rparr>)
      | (ServeReturned _, RunAwaits) \<Rightarrow>
          Some (s\<lparr>sr_run := RunReturns True, sr_listener := (sr_listener s)\<lparr>ls_cancelled := True\<rparr>\<rparr>)
      | _ \<Rightarrow> None)"

abbreviation socks_exec :: "socks_event list \<Rightarrow> socks_server \<Rightarrow> socks_server option" where
  "socks_exec \<equiv> exec socks_step"

abbreviation socks_reach :: "socks_server \<Rightarrow> bool" where
  "socks_reach \<equiv> reach socks_step socks_started"

definition socks_inv :: "socks_server \<Rightarrow> bool" where
  "socks_inv s \<longleftrightarrow> listener_inv False (sr_listener s) \<and>
     (sr_tickers s \<longleftrightarrow> sr_run s \<in> {RunSelects, RunReturns False}) \<and>
     (sr_run s \<noteq> RunSelects \<longrightarrow> ls_cancelled (sr_listener s)) \<and>
     (\<forall>b. sr_run s = RunReturns b \<longrightarrow> ls_accept (sr_listener s) = AcceptReturned)"

lemma listener_inv_cancel: "listener_inv hello l \<Longrightarrow> listener_inv hello (l\<lparr>ls_cancelled := True\<rparr>)"
  by (simp add: listener_inv_def)

lemma returned_stays:
  assumes "ls_accept l = AcceptReturned" and "\<exists>c. ls_serve l = ServeReturned c" and "listen_step hello e l = Some l'"
  shows "ls_accept l' = AcceptReturned"
  using assms by (cases e) (auto split: if_splits)

lemma listen_step_cancelled: "listen_step hello e l = Some l' \<Longrightarrow> ls_cancelled l \<Longrightarrow> ls_cancelled l'"
  by (cases e) (auto split: if_splits serve_pc.splits)

lemma socks_inv_step:
  assumes "socks_inv s" and "socks_step e s = Some s'"
  shows "socks_inv s'"
proof (cases e)
  case (Listens le)
  then obtain l where l: "listen_step False le (sr_listener s) = Some l" "s' = s\<lparr>sr_listener := l\<rparr>"
    using assms(2) by (auto simp: socks_listen_step_def split: if_splits)
  have "listener_inv False l" using listener_inv_step [OF _ l(1)] assms(1) by (simp add: socks_inv_def)
  moreover have "ls_accept l = AcceptReturned" if "ls_accept (sr_listener s) = AcceptReturned"
    using returned_stays [OF that _ l(1)] assms(1) that by (auto simp: socks_inv_def listener_inv_def)
  moreover have "ls_cancelled l" if "ls_cancelled (sr_listener s)"
    by (rule listen_step_cancelled [OF l(1) that])
  ultimately show ?thesis using assms(1) l(2) by (auto simp: socks_inv_def)
next
  case TakesResult
  then show ?thesis using assms
    by (auto simp: socks_inv_def listener_inv_cancel split: serve_pc.splits serve_run_pc.splits) (auto simp: listener_inv_def)
qed (use assms in \<open>auto simp: socks_inv_def listener_inv_cancel split: if_splits\<close>)

interpretation socks: invariant socks_step socks_inv socks_started
  by unfold_locales (rule socks_inv_step, simp_all add: socks_inv_def socks_started_def listening_def listener_inv_def)

interpretation closers: counting socks_step "\<lambda>s. sr_run s = RunReturns b \<and> sr_tickers s = t" sr_closers
    "\<lambda>e. of_bool (e = CallsClose)" for b t
proof
  fix s s' :: socks_server and e
  assume "sr_run s = RunReturns b \<and> sr_tickers s = t" and "socks_step e s = Some s'"
  then show "sr_run s' = RunReturns b \<and> sr_tickers s' = t" "sr_closers s' = sr_closers s + of_bool (e = CallsClose)"
    by (cases e; auto split: if_splits serve_pc.splits)+
qed

lemma socks_returned_exec:
  assumes "sr_run s = RunReturns b" and "socks_exec es s = Some s'"
  shows "sr_run s' = RunReturns b \<and> sr_tickers s' = sr_tickers s \<and>
    sr_closers s' = sr_closers s + length (filter (\<lambda>e. e = CallsClose) es)"
  using closers.after [OF assms(2), of b "sr_tickers s"] closers.total [OF assms(2), of b "sr_tickers s"] assms(1)
  by (simp add: sum_list_of_bool)

text \<open>
  When \<open>Run\<close> has returned, the listener is closed and its goroutine has ended; the tickers of
  the bandwidth were stopped only if it was \<open>Close\<close> that ended it, and otherwise tick for ever;
  and whoever calls \<open>Close\<close> from then on never returns.
\<close>

theorem socks_run_returned:
  assumes "socks_reach s" and "sr_run s = RunReturns stopped" and "socks_exec es s = Some s'"
  shows "ls_accept (sr_listener s) = AcceptReturned \<and> \<not> ls_open (sr_listener s) \<and> (sr_tickers s' \<longleftrightarrow> \<not> stopped) \<and>
    sr_closers s' = sr_closers s + length (filter (\<lambda>e. e = CallsClose) es)"
proof -
  have "socks_inv s" using assms(1) by (rule socks.reachable)
  then have "ls_accept (sr_listener s) = AcceptReturned" "\<not> ls_open (sr_listener s)" "sr_tickers s \<longleftrightarrow> \<not> stopped"
    using assms(2) by (auto simp: socks_inv_def listener_inv_def)
  then show ?thesis using socks_returned_exec [OF assms(2,3)] by simp
qed

theorem socks_run_returned_witness:
  "\<exists>s. socks_exec [Listens AcceptFails, Listens ErrcTaken, TakesResult] socks_started = Some s \<and>
    sr_tickers s \<and> (\<forall>s'. socks_exec [CallsClose, CallsClose] s = Some s' \<longrightarrow> sr_closers s' = 2)"
proof -
  let ?l = "\<lparr>ls_accept = AcceptReturned, ls_serve = ServeReturned False, ls_open = False, ls_cancelled = True, ls_handled = 0\<rparr>"
  let ?s = "\<lparr>sr_listener = ?l, sr_run = RunReturns False, sr_tickers = True, sr_closers = 0\<rparr>"
  have exec: "socks_exec [Listens AcceptFails, Listens ErrcTaken, TakesResult] socks_started = Some ?s"
    by (simp add: socks_started_def listening_def socks_listen_step_def)
  have reach: "socks_reach ?s" by (rule exec_reach [OF exec])
  have run: "sr_run ?s = RunReturns False" by simp
  have "sr_closers s' = 2" if "socks_exec [CallsClose, CallsClose] ?s = Some s'" for s'
    using socks_run_returned [OF reach run that] by simp
  then show ?thesis using exec by auto
qed

end
