(* ===== verification/Log.thy ===== *)
theory Log
  imports Prelude "HOL-Library.Sublist"
begin

text \<open>
  Package \<open>log\<close> (\<open>log/log.go\<close>): loggers with a level each that share one global
  state, the current level and the logger of the standard library underneath. Formatting is that
  of package fmt: what is logged is the formatted text.
\<close>

section \<open>Levels\<close>

datatype level = DebugLevel | InfoLevel | ErrorLevel | DisabledLevel

fun level_rank :: "level \<Rightarrow> nat" where
  "level_rank DebugLevel = 0"
| "level_rank InfoLevel = 1"
| "level_rank ErrorLevel = 2"
| "level_rank DisabledLevel = 3"

lemma level_rank_inject [simp]: "level_rank l = level_rank l' \<longleftrightarrow> l = l'"
  by (cases l; cases l') simp_all

text \<open>The constants are compared as the numbers that \<open>iota\<close> gives them.\<close>

instantiation level :: linorder
begin

definition less_eq_level :: "level \<Rightarrow> level \<Rightarrow> bool" where
  "l \<le> l' \<longleftrightarrow> level_rank l \<le> level_rank l'"

definition less_level :: "level \<Rightarrow> level \<Rightarrow> bool" where
  "l < l' \<longleftrightarrow> level_rank l < level_rank l'"

instance
proof
  show "l \<le> l' \<Longrightarrow> l' \<le> l \<Longrightarrow> l = l'" for l l' :: level
    unfolding less_eq_level_def by (metis level_rank_inject order_antisym)
qed (auto simp: less_eq_level_def less_level_def)

end

section \<open>State\<close>

text \<open>
  \<open>gs_default\<close> is what the logger of the standard library has written, \<open>None\<close> when
  there is none. It puts a time stamp before the text, and a line end behind it unless there is one.
\<close>

record global_state =
  gs_level :: level
  gs_default :: "string list option"
  gs_exited :: bool

definition log_init :: global_state where
  "log_init = \<lparr>gs_level = InfoLevel, gs_default = Some [], gs_exited = False\<rparr>"

definition log_line :: "string \<Rightarrow> string \<Rightarrow> string" where
  "log_line stamp s = stamp @ s @ (if s = [] \<or> last s \<noteq> CHR 0x0A then [CHR 0x0A] else [])"

definition log_write :: "string \<Rightarrow> string \<Rightarrow> global_state \<Rightarrow> global_state" where
  "log_write stamp s g = g\<lparr>gs_default := map_option (\<lambda>out. out @ [log_line stamp s]) (gs_default g)\<rparr>"

section \<open>Operations\<close>

definition set_level :: "level \<Rightarrow> global_state \<Rightarrow> global_state" where
  "set_level l g = g\<lparr>gs_level := l\<rparr>"

text \<open>The method of a logger of level \<open>l\<close>; the package's functions are those of \<open>Info\<close>.\<close>

definition logger_print :: "level \<Rightarrow> string \<Rightarrow> string \<Rightarrow> global_state \<Rightarrow> global_state" where
  "logger_print l stamp s g = (if l < gs_level g then g else log_write stamp s g)"

definition logger_println :: "level \<Rightarrow> string \<Rightarrow> string \<Rightarrow> global_state \<Rightarrow> global_state" where
  "logger_println l stamp s g = (if l < gs_level g then g else log_write stamp (s @ [CHR 0x0A]) g)"

definition log_print :: "string \<Rightarrow> string \<Rightarrow> global_state \<Rightarrow> global_state" where
  "log_print = logger_print InfoLevel"

text \<open>
  It writes whatever the level is, and ends the process; without a logger of its own it uses that of
  the standard library, whose output is not in the state.
\<close>

definition logger_fatalf :: "string \<Rightarrow> string \<Rightarrow> global_state \<Rightarrow> global_state" where
  "logger_fatalf stamp s g = (log_write stamp s g)\<lparr>gs_exited := True\<rparr>"

datatype log_op = SetLevel level | Print level string string | Println level string string | Fatalf string string

text \<open>A sequence of calls; what comes after the end of the process is not executed.\<close>

fun log_step :: "log_op \<Rightarrow> global_state \<Rightarrow> global_state" where
  "log_step (SetLevel l) = set_level l"
| "log_step (Print l stamp s) = logger_print l stamp s"
| "log_step (Println l stamp s) = logger_println l stamp s"
| "log_step (Fatalf stamp s) = logger_fatalf stamp s"

fun log_run :: "log_op list \<Rightarrow> global_state \<Rightarrow> global_state" where
  "log_run [] g = g"
| "log_run (x # xs) g = (if gs_exited g then g else log_run xs (log_step x g))"

text \<open>The lines a sequence of calls is to write at a level.\<close>

fun loud :: "level \<Rightarrow> log_op list \<Rightarrow> string list" where
  "loud l [] = []"
| "loud l (SetLevel l' # xs) = loud l' xs"
| "loud l (Print l' stamp s # xs) = (if l \<le> l' then [log_line stamp s] else []) @ loud l xs"
| "loud l (Println l' stamp s # xs) = (if l \<le> l' then [stamp @ s @ [CHR 0x0A]] else []) @ loud l xs"
| "loud l (Fatalf stamp s # xs) = [log_line stamp s]"

section \<open>Properties\<close>

lemma log_line_newline [simp]: "log_line stamp (s @ [CHR 0x0A]) = stamp @ s @ [CHR 0x0A]"
  by (simp add: log_line_def)

lemmas log_defs = set_level_def logger_print_def logger_println_def logger_fatalf_def log_write_def

lemma log_run_exited [simp]: "gs_exited g \<Longrightarrow> log_run xs g = g"
  by (cases xs) simp_all

lemma log_run_output:
  "gs_default g = Some out \<Longrightarrow> \<not> gs_exited g \<Longrightarrow>
   gs_default (log_run xs g) = Some (out @ loud (gs_level g) xs)"
proof (induction xs arbitrary: g out)
  case (Cons x xs)
  show ?case
  proof (cases x)
    case (SetLevel l)
    then show ?thesis using Cons by (simp add: log_defs)
  next
    case (Fatalf stamp s)
    then show ?thesis using Cons.prems by (simp add: log_defs)
  qed (use Cons in \<open>auto simp: log_defs not_less [symmetric]\<close>)
qed simp

text \<open>Without a change of the level, a higher level writes a part of what a lower one writes, in the same order.\<close>

lemma loud_antimono:
  assumes "l \<le> l'" and "\<forall>k. SetLevel k \<notin> set xs"
  shows "subseq (loud l' xs) (loud l xs)"
  using assms(2)
proof (induction xs)
  case (Cons x xs)
  then have IH: "subseq (loud l' xs) (loud l xs)" by auto
  show ?case using IH Cons.prems assms(1) by (cases x) (auto intro: order_trans)
qed simp

text \<open>
  C40: What the program logs is determined by the levels alone: any sequence of calls writes exactly the
  lines of the loggers whose level is at least the one set last, in their order and each with a line
  end, up to the first \<open>Fatalf\<close>, which is written at every level.
\<close>

theorem log_writes_loud_lines:
  "gs_default (log_run xs log_init) = Some (loud InfoLevel xs)"
  by (simp add: log_run_output [where out = "[]"] log_init_def)

text \<open>Raising the level only takes lines away, and the last one silences everything but \<open>Fatalf\<close>.\<close>

theorem log_level_monotone:
  assumes "l \<le> l'" and "\<forall>k. SetLevel k \<notin> set xs"
  shows "\<exists>out out'. gs_default (log_run (SetLevel l # xs) log_init) = Some out \<and>
    gs_default (log_run (SetLevel l' # xs) log_init) = Some out' \<and> subseq out' out"
  using loud_antimono [OF assms] by (simp add: log_run_output [where out = "[]"] log_init_def log_defs)

theorem log_level_monotone_witness:
  "gs_default (log_run [SetLevel ErrorLevel, Print InfoLevel [] ''a'', Print ErrorLevel [] ''b''] log_init) = Some [''b'' @ [CHR 0x0A]] \<and>
   (\<exists>out. gs_default (log_run [SetLevel DebugLevel, Print InfoLevel [] ''a'', Print ErrorLevel [] ''b''] log_init) = Some out \<and>
      subseq [''b'' @ [CHR 0x0A]] out)"
proof -
  have e: "gs_default (log_run [SetLevel ErrorLevel, Print InfoLevel [] ''a'', Print ErrorLevel [] ''b''] log_init) = Some [''b'' @ [CHR 0x0A]]"
    by (simp add: log_init_def log_defs less_level_def log_line_def)
  have "DebugLevel \<le> ErrorLevel" by (simp add: less_eq_level_def)
  from log_level_monotone [OF this, of "[Print InfoLevel [] ''a'', Print ErrorLevel [] ''b'']"] e show ?thesis by auto
qed

end
