(* ===== verification/Commands.thy ===== *)
theory Commands
  imports Handler_Props Log
begin

text \<open>
  The command line programs (\<open>cmd/booster/commands\<close> and
  \<open>cmd/monitor-gateway/commands\<close>): what their commands do with their arguments, each in a
  process of its own with a fresh node, and the goroutines of the gateway's websocket handler. Flag
  parsing is cobra's: its check of the number of arguments is \<open>Usage\<close>. A printed error is the
  left side of the result, the line that is printed on success the right side.
\<close>

section \<open>Commands of the booster client\<close>

datatype cli_error = Usage | UnknownOperation string | Failed net_error | ProxyFailed string

text \<open>The flags of the programs with their defaults.\<close>

record flags =
  fl_pport :: nat
  fl_bport :: nat
  fl_verbose :: bool

record booster_flags = flags +
  fl_target :: string

record gateway_flags = flags +
  fl_feature :: string

definition default_flags :: booster_flags where
  "default_flags = \<lparr>fl_pport = 1080, fl_bport = 4884, fl_verbose = False, fl_target = ''localhost:4884''\<rparr>"

definition default_gateway_flags :: gateway_flags where
  "default_gateway_flags = \<lparr>fl_pport = 1080, fl_bport = 4884, fl_verbose = False, fl_feature = ''proxy''\<rparr>"

text \<open>What every command does first.\<close>

definition apply_verbose :: "'a flags_scheme \<Rightarrow> global_state \<Rightarrow> global_state" where
  "apply_verbose fl g = (if fl_verbose fl then set_level DebugLevel g else g)"

definition cli :: "net_error stop + 'a \<Rightarrow> cli_error stop + 'a" where
  "cli r = (case r of Inl (Error e) \<Rightarrow> Inl (Error (Failed e)) | Inl Panic \<Rightarrow> Inl Panic | Inl Hang \<Rightarrow> Inl Hang | Inr x \<Rightarrow> Inr x)"

definition default_addr :: string where
  "default_addr = ''localhost:4884''"

text \<open>The optional first argument of \<open>ctrl\<close>, \<open>connect\<close> and \<open>disconnect\<close>.\<close>

definition target_args :: "string list \<Rightarrow> (string \<times> string) option" where
  "target_args args = (case args of [y] \<Rightarrow> Some (default_addr, y) | [x, y] \<Rightarrow> Some (x, y) | _ \<Rightarrow> None)"

definition with_node :: "env \<Rightarrow> nat \<Rightarrow> nat \<Rightarrow> (booster \<Rightarrow> cli_error stop + 'a) \<Rightarrow> cli_error stop + 'a" where
  "with_node E pport bport k =
     (case fst (new_booster E pport bport []) of Inl e \<Rightarrow> cli (Inl e) | Inr b \<Rightarrow> k b)"

definition ctrl_main :: "env \<Rightarrow> gotime \<Rightarrow> nat \<Rightarrow> nat \<Rightarrow> string list \<Rightarrow> cli_error stop + string" where
  "ctrl_main E now pport bport args =
     (case target_args args of
        None \<Rightarrow> Inl (Error Usage)
      | Some (addr, raw) \<Rightarrow> with_node E pport bport (\<lambda>b.
          case operation_from_string raw of
            (_, Some e) \<Rightarrow> Inl (Error (UnknownOperation e))
          | (oper, None) \<Rightarrow>
             (case cli (fst (ctrl_cmd E now addr oper b)) of
                Inl e \<Rightarrow> Inl e
              | Inr _ \<Rightarrow> Inr (''ctrl operation performed ('' @ addr @ '')''))))"

definition connect_main :: "env \<Rightarrow> gotime \<Rightarrow> nat \<Rightarrow> nat \<Rightarrow> string list \<Rightarrow> cli_error stop + string" where
  "connect_main E now pport bport args =
     (case target_args args of
        None \<Rightarrow> Inl (Error Usage)
      | Some (laddr, raddr) \<Rightarrow> with_node E pport bport (\<lambda>b.
          case cli (fst (connect_cmd E now laddr raddr b)) of
            Inl e \<Rightarrow> Inl e
          | Inr i \<Rightarrow> Inr (''connected to ('' @ raddr @ ''): '' @ i)))"

definition disconnect_main :: "env \<Rightarrow> gotime \<Rightarrow> nat \<Rightarrow> nat \<Rightarrow> string list \<Rightarrow> cli_error stop + string" where
  "disconnect_main E now pport bport args =
     (case target_args args of
        None \<Rightarrow> Inl (Error Usage)
      | Some (addr, i) \<Rightarrow> with_node E pport bport (\<lambda>b.
          case cli (fst (disconnect_cmd E now addr i b)) of
            Inl e \<Rightarrow> Inl e
          | Inr _ \<Rightarrow> Inr (''disconnected from: '' @ addr)))"

text \<open>
  \<open>stream\<close>, of \<open>monitor node\<close> and \<open>monitor net\<close>: the address it is given is not
  used; when \<open>Monitor\<close> returns an error, that is printed and the wait group is never done.
  \<open>rs\<close> is what the goroutine of \<open>Monitor\<close> receives; every payload is printed, and the
  command goes on for as long as that goroutine does.
\<close>

definition stream :: "env \<Rightarrow> gotime \<Rightarrow> nat \<Rightarrow> nat \<Rightarrow> string \<Rightarrow> monitor_feature \<Rightarrow> packet option list \<Rightarrow>
    cli_error stop + monitor_outcome" where
  "stream E now pport bport addr feature rs =
     with_node E pport bport (\<lambda>b.
       case fst (monitor_cmd E now default_addr feature b) of
         Inl (Error _) \<Rightarrow> Inl Hang
       | Inl Panic \<Rightarrow> Inl Panic
       | Inl Hang \<Rightarrow> Inl Hang
       | Inr _ \<Rightarrow> Inr (monitor_run (\<lambda>_. None) rs))"

definition monitor_node_main :: "env \<Rightarrow> gotime \<Rightarrow> nat \<Rightarrow> nat \<Rightarrow> string \<Rightarrow> string list \<Rightarrow> packet option list \<Rightarrow>
    cli_error stop + monitor_outcome" where
  "monitor_node_main E now pport bport target args rs =
     (if args = [] then stream E now pport bport target MonitorNode rs else Inl (Error Usage))"

definition monitor_net_main :: "env \<Rightarrow> gotime \<Rightarrow> nat \<Rightarrow> nat \<Rightarrow> string \<Rightarrow> string list \<Rightarrow> packet option list \<Rightarrow>
    cli_error stop + monitor_outcome" where
  "monitor_net_main E now pport bport target args rs =
     (case args of [_] \<Rightarrow> stream E now pport bport target MonitorNet rs | _ \<Rightarrow> Inl (Error Usage))"

text \<open>
  \<open>start\<close> of both programs: \<open>run\<close> is the result of \<open>Run\<close> once it has returned
  (\<open>Runloop\<close> and \<open>Listener\<close> say when it does).
\<close>

definition start_main :: "env \<Rightarrow> nat \<Rightarrow> nat \<Rightarrow> (booster \<Rightarrow> net_error option) \<Rightarrow> string list \<Rightarrow> cli_error stop + booster" where
  "start_main E pport bport run args =
     (if args \<noteq> [] then Inl (Error Usage)
      else with_node E pport bport (\<lambda>b. case run b of Some e \<Rightarrow> Inl (Error (Failed e)) | None \<Rightarrow> Inr b))"

definition socks5_start_main :: "'d \<Rightarrow> (('d, 'r) socks5 \<Rightarrow> nat \<Rightarrow> string option) \<Rightarrow> nat \<Rightarrow> string list \<Rightarrow>
    cli_error stop + ('d, 'r) socks5" where
  "socks5_start_main d run pport args =
     (if args \<noteq> [] then Inl (Error Usage)
      else let p = new_socks5 d in (case run p pport of Some e \<Rightarrow> Inl (Error (ProxyFailed e)) | None \<Rightarrow> Inr p))"

section \<open>The gateway\<close>

record monitor =
  mo_target :: string
  mo_feature :: string

definition new_monitor :: "env \<Rightarrow> string \<Rightarrow> string \<Rightarrow> nat \<Rightarrow> nat \<Rightarrow> (monitor \<times> booster) option" where
  "new_monitor E t f pp bp =
     (case fst (new_booster E pp bp []) of
        Inl _ \<Rightarrow> None
      | Inr b \<Rightarrow> Some (\<lparr>mo_target = t, mo_feature = f\<rparr>, b))"

text \<open>\<open>start\<close> calls it with the feature first and with the booster port first; \<open>None\<close> is its panic.\<close>

definition gateway_start :: "env \<Rightarrow> string \<Rightarrow> nat \<Rightarrow> nat \<Rightarrow> string list \<Rightarrow> (monitor \<times> booster) option" where
  "gateway_start E feature pport bport args =
     (let addr = (case args of [a] \<Rightarrow> a | _ \<Rightarrow> default_addr) in new_monitor E feature addr bport pport)"

definition feature_of :: "monitor \<Rightarrow> monitor_feature" where
  "feature_of m = (if mo_feature m = ''node'' then MonitorNode else if mo_feature m = ''net'' then MonitorNet else 0)"

text \<open>\<open>send\<close>: what \<open>WriteJSON\<close> returns is dropped.\<close>

record ws_message =
  ws_type :: string
  ws_data :: bytes

definition ws_send :: "(ws_message \<Rightarrow> 's \<Rightarrow> net_error option \<times> 's) \<Rightarrow> string \<Rightarrow> bytes \<Rightarrow> 's \<Rightarrow> net_error option \<times> 's" where
  "ws_send write_json t p s = (case write_json \<lparr>ws_type = t, ws_data = p\<rparr> s of (_, s') \<Rightarrow> (None, s'))"

text \<open>
  The goroutines of \<open>handler\<close>: the one that reads pongs, the one of \<open>Monitor\<close> (which
  calls \<open>PostRun\<close> when it ends), the one that pings at every tick, and the handler itself at
  \<open>wg.Wait()\<close>. The channel of a ticker holds one tick. \<open>wg.Done()\<close> panics when the counter
  gets negative, and that ends the process, as a panic of \<open>Monitor\<close>'s goroutine does.
\<close>

record gateway_state =
  gw_count :: int
  gw_closed :: bool     \<comment> \<open>\<open>fail()\<close> was called: connection closed, context cancelled\<close>
  gw_reading :: bool
  gw_monitoring :: bool
  gw_tick :: bool
  gw_pinging :: bool
  gw_returned :: bool
  gw_crashed :: bool

datatype gateway_event = ReadFails | MonitorEnds | MonitorPanics | Ticks | TakesTick | PingWritten | PingFails | WaitEnds

definition wg_done :: "gateway_state \<Rightarrow> gateway_state" where
  "wg_done g = (if gw_count g \<le> 0 then g\<lparr>gw_count := gw_count g - 1, gw_crashed := True\<rparr> else g\<lparr>gw_count := gw_count g - 1\<rparr>)"

text \<open>The state when the goroutines have been started; \<open>ok\<close>: \<open>Monitor\<close> returned no error.\<close>

definition gateway_serving :: "bool \<Rightarrow> gateway_state" where
  "gateway_serving ok =
     (let g = \<lparr>gw_count = 1, gw_closed = False, gw_reading = True, gw_monitoring = ok, gw_tick = False, gw_pinging = False,
        gw_returned = False, gw_crashed = False\<rparr>
      in if ok then g else wg_done (g\<lparr>gw_closed := True\<rparr>))"

text \<open>\<open>handler\<close> up to there, when the upgrade of the request has succeeded.\<close>

definition gateway_handler :: "env \<Rightarrow> gotime \<Rightarrow> monitor \<Rightarrow> booster \<Rightarrow> (net_error stop + gateway_state) \<times> booster" where
  "gateway_handler E now m b =
     (case monitor_cmd E now (mo_target m) (feature_of m) b of
        (Inl (Error _), b) \<Rightarrow> (Inr (gateway_serving False), b)
      | (Inl e, b) \<Rightarrow> (Inl e, b)
      | (Inr _, b) \<Rightarrow> (Inr (gateway_serving True), b))"

text \<open>
  A ping on a closed connection fails, one on an open connection can. \<open>Monitor\<close>'s goroutine
  ends when its context is cancelled, and on its own errors. The ticker is stopped when the handler
  returns; a tick that is in its channel by then is still taken.
\<close>

fun gateway_live :: "gateway_event \<Rightarrow> gateway_state \<Rightarrow> bool" where
  "gateway_live ReadFails g = gw_reading g"
| "gateway_live MonitorEnds g = gw_monitoring g"
| "gateway_live MonitorPanics g = gw_monitoring g"
| "gateway_live Ticks g = (\<not> gw_returned g)"
| "gateway_live TakesTick g = (gw_tick g \<and> \<not> gw_pinging g)"
| "gateway_live PingWritten g = (gw_pinging g \<and> \<not> gw_closed g)"
| "gateway_live PingFails g = gw_pinging g"
| "gateway_live WaitEnds g = (\<not> gw_returned g \<and> gw_count g = 0)"

fun gateway_after :: "gateway_event \<Rightarrow> gateway_state \<Rightarrow> gateway_state" where
  "gateway_after ReadFails g = g\<lparr>gw_reading := False, gw_closed := True\<rparr>"
| "gateway_after MonitorEnds g = wg_done (g\<lparr>gw_monitoring := False, gw_closed := True\<rparr>)"
| "gateway_after MonitorPanics g = g\<lparr>gw_monitoring := False, gw_crashed := True\<rparr>"
| "gateway_after Ticks g = g\<lparr>gw_tick := True\<rparr>"
| "gateway_after TakesTick g = g\<lparr>gw_tick := False, gw_pinging := True\<rparr>"
| "gateway_after PingWritten g = g\<lparr>gw_pinging := False\<rparr>"
| "gateway_after PingFails g = wg_done (g\<lparr>gw_pinging := False, gw_closed := True\<rparr>)"
| "gateway_after WaitEnds g = g\<lparr>gw_returned := True, gw_closed := True\<rparr>"

definition gateway_step :: "gateway_event \<Rightarrow> gateway_state \<Rightarrow> gateway_state option" where
  "gateway_step e g = (if \<not> gw_crashed g \<and> gateway_live e g then Some (gateway_after e g) else None)"

abbreviation gateway_exec :: "gateway_event list \<Rightarrow> gateway_state \<Rightarrow> gateway_state option" where
  "gateway_exec \<equiv> exec gateway_step"

abbreviation wg_dones :: "gateway_event list \<Rightarrow> nat" where
  "wg_dones es \<equiv> length (filter (\<lambda>e. e = MonitorEnds \<or> e = PingFails) es)"

lemma gateway_exec_count:
  assumes "gateway_exec es g = Some g'"
  shows "gw_count g' = gw_count g - int (wg_dones es) \<and>
    (gw_crashed g' \<longleftrightarrow> gw_crashed g \<or> MonitorPanics \<in> set es \<or> (gw_count g' < 0 \<and> gw_count g' < gw_count g))"
  using assms
proof (induction es arbitrary: g)
  case (Cons e es)
  from Cons.prems obtain g1 where g1: "gateway_step e g = Some g1" "gateway_exec es g1 = Some g'" by (rule exec_ConsE)
  have step: "gw_count g1 = gw_count g - (if e = MonitorEnds \<or> e = PingFails then 1 else 0)"
      "gw_crashed g1 \<longleftrightarrow> gw_crashed g \<or> e = MonitorPanics \<or> (gw_count g1 < 0 \<and> gw_count g1 < gw_count g)"
    using g1(1) by (cases e; auto simp: gateway_step_def wg_done_def split: if_splits)+
  show ?case using Cons.IH [OF g1(2)] step by auto
qed simp

section \<open>Properties\<close>



lemma gateway_start_swapped:
  assumes "gateway_start E feature pport bport args = Some (m, b)" and "args \<noteq> [''node'']" and "args \<noteq> [''net'']"
  shows "mo_target m = feature \<and> feature_of m = 0 \<and> fst (new_booster E bport pport []) = Inr b"
  using assms
  by (cases args) (auto simp: gateway_start_def new_monitor_def feature_of_def default_addr_def Let_def
      split: sum.splits list.splits)

text \<open>
  The gateway monitors the wrong thing: the address it dials is the name of the feature, and the
  feature it asks for is chosen by the address, so unless the address is literally "node" or "net" it
  is the feature 0, which no node supports; and its node gets the two ports the wrong way round.
\<close>

theorem gateway_swaps_arguments:
  assumes "gateway_start E feature pport bport args = Some (m, b)" and "args \<noteq> [''node'']" and "args \<noteq> [''net'']"
  shows "mo_target m = feature \<and> feature_of m = 0 \<and> fst (new_booster E bport pport []) = Inr b"
  by (rule gateway_start_swapped [OF assms])

text \<open>Started without arguments and flags, the gateway dials the address "proxy".\<close>

lemma gateway_default_target:
  assumes "gateway_start E (fl_feature default_gateway_flags) (fl_pport default_gateway_flags) (fl_bport default_gateway_flags) [] = Some (m, b)"
  shows "mo_target m = ''proxy'' \<and> feature_of m = 0"
  using gateway_start_swapped [OF assms] by (simp add: default_gateway_flags_def)

text \<open>The monitor commands always ask the local default node, and hang when that cannot be asked.\<close>

lemma stream_ignores_target:
  "stream E now pport bport addr feature rs = stream E now pport bport addr' feature rs"
  by (simp add: stream_def)

lemma stream_hangs_on_error:
  assumes "fst (new_booster E pport bport []) = Inr b" and "fst (monitor_cmd E now default_addr feature b) = Inl (Error e)"
  shows "stream E now pport bport addr feature rs = Inl Hang"
  using assms by (simp add: stream_def with_node_def)

section \<open>From the command line to the node\<close>

lemma deferring_Inr: "deferring c m b = (Inr x, b'') \<Longrightarrow> \<exists>b'. m b = (Inr x, b')"
  by (auto simp: deferring_def and_then_def fail_with_def done_with_def dropping_def
      split: prod.splits sum.splits stop.splits)

text \<open>The connection that a successful dial makes has sent nothing yet.\<close>

lemma dial_booster_conn:
  assumes "dial_booster E addr b = (Inr c, b')" and "env_dial E addr = Inr ((r, ([], None)), raddr)"
  obtains cn where "bc_conn (the_conn (bo_net b') c) = Some cn" and "c_out cn = ([], None)" and "c_config cn = default_net_config"
proof -
  let ?cn = "open_conn r ([], None) default_net_config"
  have b': "recv_hello E ?cn raddr (bo_net b) = (Inr c, bo_net b')"
    using assms by (auto simp: dial_booster_def on_net_def split: prod.splits)
  show ?thesis
  proof (cases rule: recv_hello_cases [of E ?cn raddr "bo_net b"])
    case (1 e)
    then show ?thesis using b' by simp
  next
    case (2 cn' h host x hp)
    have "c_out cn' = ([], None)" "c_config cn' = default_net_config"
      using 2(1) by (auto simp: conn_recv_def open_conn_def Let_def split: prod.splits sum.splits)
    moreover have "bc_conn (the_conn (bo_net b') c) = Some cn'"
      using 2(4) b' by (auto simp: new_conn_def the_conn_def)
    ultimately show ?thesis using that by blast
  qed
qed

text \<open>What a command that succeeds has sent.\<close>

lemma client_command_Inr:
  assumes "client_command E now addr v msg rest b = (Inr x, b')"
    and "env_dial E addr = Inr ((r, ([], None)), raddr)"
  obtains p cn cn' where "encode_default (env_lib E) now (Some v) msg = Inr p"
    and "c_out cn = ([], None)" and "c_config cn = default_net_config"
    and "conn_send p (env_order E p) cn = (Inr (), cn')"
proof -
  from and_then_InrE' [OF assms(1) [unfolded client_command_def]] obtain c b1 where d: "dial_booster E addr b = (Inr c, b1)"
    and run: "deferring (peer_close (Wired c))
         (and_then (reading (\<lambda>b. encode_default (env_lib E) now (Some v) msg)) (\<lambda>p.
          and_then (peer_send E p (Wired c)) (\<lambda>_. rest c))) b1 = (Inr x, b')" .
  from deferring_Inr [OF run] obtain b2 where
    "and_then (reading (\<lambda>b. encode_default (env_lib E) now (Some v) msg)) (\<lambda>p.
          and_then (peer_send E p (Wired c)) (\<lambda>_. rest c)) b1 = (Inr x, b2)" ..
  from and_then_InrE' [OF this] obtain p b3 where p: "reading (\<lambda>b. encode_default (env_lib E) now (Some v) msg) b1 = (Inr p, b3)"
    and r: "and_then (peer_send E p (Wired c)) (\<lambda>_. rest c) b3 = (Inr x, b2)" .
  from and_then_InrE' [OF r] obtain u b4 where s: "peer_send E p (Wired c) b3 = (Inr u, b4)" by metis
  have b3: "b3 = b1" "encode_default (env_lib E) now (Some v) msg = Inr p" using p by (simp_all add: reading_def)
  obtain cn where cn: "bc_conn (the_conn (bo_net b1) c) = Some cn" "c_out cn = ([], None)" "c_config cn = default_net_config"
    by (rule dial_booster_conn [OF d assms(2)])
  obtain q cn' where q: "conn_send p (env_order E p) cn = (q, cn')" by fastforce
  have "q = Inr ()"
    using s unfolding b3(1)
    by (auto simp: peer_send_def on_net_def bconn_send_def cn(1) q Let_def split: prod.splits sum.splits if_splits stop.splits)
  then show ?thesis using that [OF b3(2) cn(2,3)] q by blast
qed



end
