(* ===== verification/Spec2Isabelle.thy ===== *)
theory Spec2Isabelle
  imports Packet_Props Protocol_Props Netconn_Props Pubsub_Props Channel_Props Node_Props Dispatcher_Props
    Tracer Socks5_Props Network_Props Handler_Props Mirror Service Heartbeat Watch Runloop Listener Log Commands
begin

text \<open>
  Booster is a network of nodes, each of which runs a SOCKS5 proxy. A node dials the targets of its
  clients either itself or through the proxy of another node, whichever is less loaded; nodes tell
  each other about the tunnels they open, send heartbeats, and trace and reconnect the nodes they
  lost. This development models the program's own Go packages and proves what makes them correct,
  including the places where they are not.

  \<^bold>\<open>The parts, from the wire up.\<close>

  \<^item> \<open>Prelude\<close>: bytes and Go strings, readers and writers with an explicit end or
    failure (\<open>(bytes, error)\<close> and \<open>(bytes, budget)\<close>), the state/error steps
    \<open>('s, 'e, 'a) step\<close> with \<open>and_then\<close> for \<open>if err != nil { return err }\<close>,
    and \<open>'e stop\<close>, which tells an error that is returned from a panic and from a goroutine
    that blocks for ever. \<open>Streams\<close>: what it means that an encoder emits and a decoder parses
    given bytes whatever follows on the stream, as the locale \<open>stream_codec\<close>, from which
    sequences of messages follow.
    \<open>Machines\<close>: what all step functions of interleaved goroutines share, executions and
    reachable states, and as locales the ways to prove things of them: sets of states that are not
    left, invariants, ranks, progress to a final state, and quantities that events add to.
  \<^item> \<open>Packet\<close>, \<open>Packet_Props\<close> (\<open>network/packet\<close>): packets, modules, the tag
    reader, encoder and decoder; round trip, broken connections, well-formedness of whatever is decoded.
  \<^item> \<open>Protocol\<close>, \<open>Protocol_Props\<close> (\<open>protocol\<close>): message identifiers, headers,
    payloads, the tables of encoders and decoders; integers at their widths, timestamps with
    the range check of ptypes; round trips and the one input that crashes a decoder.
  \<^item> \<open>Netconn\<close>, \<open>Netconn_Props\<close> (\<open>network/network.go\<close>): connections, the consumer
    goroutine, and the bandwidth accounting in 64 bit arithmetic.
  \<^item> \<open>Pubsub\<close>, \<open>Pubsub_Props\<close> (\<open>pubsub/pubsub.go\<close>): topics with slots, with the
    locale \<open>subscription_bus\<close> for what subscribers rely on. \<open>Channel\<close>,
    \<open>Channel_Props\<close> (\<open>pubsub/channel.go\<close>): the goroutines of one subscription in every
    interleaving.
  \<^item> \<open>Gonet\<close>: the address and number functions of the Go library the program uses.
    \<open>Node\<close>, \<open>Node_Props\<close> (\<open>node/node.go\<close>, \<open>node/tunnel.go\<close>): nodes and
    tunnels, which are shared by pointers, in a heap. \<open>Ledger\<close>: the locale
    \<open>tunnel_ledger\<close>, a function from targets to counts that tunnel events add to and take from.
    \<open>Dispatcher\<close>, \<open>Dispatcher_Props\<close> (\<open>node/dispatcher.go\<close>): the balancer and the
    dial loop, over the locale \<open>noder\<close>.
  \<^item> \<open>Tracer\<close> (\<open>tracer\<close>): the ping rounds, with the locale \<open>watcher\<close>.
  \<^item> \<open>Socks5\<close>, \<open>Socks5_Props\<close> (\<open>socks5\<close>): addresses, negotiation, commands,
    \<open>Handle\<close>, \<open>ProxyData\<close>'s goroutines, \<open>New\<close> with its tickers and the bandwidth
    messages they publish.
  \<^item> \<open>Network\<close>, \<open>Network_Props\<close> (\<open>booster/network.go\<close>): a node's network; composes
    all of the above. \<open>Network_Props\<close> states the properties that span components: payloads over
    connections, the balancer on a network, the events of the proxy and the root's workload, and what
    \<open>TraceNodes\<close> does to the tracer.
  \<^item> \<open>Booster\<close> (\<open>booster.go\<close>, \<open>senders.go\<close>, \<open>receivers.go\<close>),
    \<open>Handlers\<close> (\<open>handlers.go\<close>), \<open>Booster_Props\<close> and \<open>Handler_Props\<close>: a node with its peers, the hello
    exchange, wiring, commands, and every message handler; what is outside the program (libraries,
    hash, resolver, dialling, map order, timing) is the record \<open>env\<close>.
    \<open>Servers\<close>: the goroutines of \<open>ServeStatus\<close>, \<open>serveNet\<close>, \<open>serveNode\<close>
    and \<open>UpdateRoot\<close> with those of their subscriptions, and which of them ever return.
  \<^item> \<open>Whole\<close>: a running node, all goroutines of the package taking turns on one state, from
    \<open>New\<close>. \<open>Steps\<close> has the locale \<open>step_logic\<close>, a logic for what the steps of a node keep
    and when they panic; \<open>Growth\<close> the preorder of networks that only gain objects;
    \<open>Node_Safety\<close> proves every handler safe in that logic, and \<open>Whole_Props\<close> concludes with
    the invariant of all reachable states and with what can crash a running node, and \<open>Watch\<close> with
    why a peer that falls silent is always noticed.
  \<^item> \<open>Mirror\<close>: two nodes composed over the bytes of a connection, from the sessions of one
    node's proxy to the workload that the other one has on record for it. \<open>Service\<close>: the proxy with
    the dispatcher over the network as its dialer, from the client's request to the reply.
    \<open>Heartbeat\<close>: the heartbeats of one connection over time, with delays, late timers and clocks
    that differ.
  \<^item> \<open>Log\<close> (\<open>log\<close>): the loggers, their levels and the global state.
    \<open>Commands\<close> (\<open>cmd\<close>): every command of the three programs with its arguments and
    the defaults of its flags, and the websocket handler of the gateway with its goroutines; a stop is
    followed from the command line over the wire to the node's \<open>Run\<close>.
  \<^item> \<open>Runloop\<close> (\<open>Run\<close>, \<open>run\<close>, \<open>Close\<close> of \<open>booster.go\<close>) and
    \<open>Listener\<close> (both \<open>ListenAndServe\<close>, and \<open>Run\<close> and \<open>Close\<close> of
    \<open>socks5.go\<close>): goroutines that meet at unbuffered channels, as step relations with invariants.

  \<^bold>\<open>How the code is translated.\<close> A method is a function on the record of the state it changes;
  its error is the left side of a sum. Operations that the code runs under a lock are one step;
  where goroutines interleave without one, each atomic action is a step of a transition function and
  properties quantify over all executions. Maps are association lists: wherever the code iterates over
  one, the order is that of the list, and the properties hold for every list; encoding takes the order as an
  argument. Pointers that are shared are indices into a heap.

  \<^bold>\<open>Fuel.\<close> Only the dial loop has fuel, since the nodes change while it runs: \<open>dial_terminates\<close>
  shows that as much fuel as there are node identifiers is enough. The consumer of a connection
  terminates because every packet takes bytes off the stream.

  \<^bold>\<open>Parameters and what is assumed of them.\<close> \<open>proto.Marshal\<close>/\<open>Unmarshal\<close> and
  \<open>json\<close> are the record \<open>codec_lib\<close>; \<open>proto_ok\<close> and \<open>json_typed\<close> say that
  unmarshalling gives back what was marshalled and a value of the type asked for. The text of IPv6
  addresses is \<open>ipv6_text\<close> with the assumption \<open>ipv6_text_ok\<close>. Nothing is assumed of SHA-1,
  the resolver and the dialer.

  \<^bold>\<open>Not modelled.\<close> The generated protobuf code beyond its structures; the parsing of flags and the
  help texts of the programs under \<open>cmd\<close>, which are cobra's, and the two version strings; the
  websocket protocol; formatting of log lines (package fmt);
  TCP itself (listening, dialling, timeouts of dials); signal trapping. In \<open>Run\<close>, that \<open>wg.Add\<close> is
  called inside the goroutines it counts. Data races inside a handler: in \<open>Whole\<close> the goroutines of a
  node interleave handler by handler (a heartbeat's in two parts), not lock by lock; the operations
  they call are each well behaved from any state, and the goroutines that meet at channels are
  modelled step by step in \<open>Channel\<close>, \<open>Servers\<close>, \<open>Runloop\<close>, \<open>Listener\<close> and \<open>Socks5\<close>.
\<close>

end
